(* ===== verification/Prelude.thy ===== *)
theory Prelude
  imports Main "HOL-Library.Word"
begin

text \<open>
  What the components share: Go's error values (\<open>errors.New\<close>, \<open>fmt.Errorf\<close> with \<open>%w\<close>,
  \<open>errors.Join\<close>, \<open>errors.Is\<close>), contexts with cancellation and deadlines, byte buffers that
  pack the earliest bit into bit zero of byte zero, and the generic lemmas on packed bits.
  Nothing here models a file of the repository; it models what the repository uses of the
  language and of its standard library.
\<close>

unbundle bit_operations_syntax

named_theorems buf_simps \<open>bit-level views of byte buffers\<close>
named_theorems go_simps \<open>errors and contexts\<close>

section \<open>Machine types\<close>

type_synonym byte = "8 word"
type_synonym uint16 = "16 word"
type_synonym uint32 = "32 word"
type_synonym uint64 = "64 word"

section \<open>Errors\<close>

text \<open>
  A package-level \<open>var Err... = errors.New(...)\<close> is compared by identity and is a sentinel; an
  error made on the spot is \<open>New\<close> with its format and its arguments (no code compares it); an
  \<open>fmt.Errorf\<close> with one or more \<open>%w\<close> is \<open>Wrap\<close> with the wrapped errors; \<open>errors.Join\<close> keeps
  its non-nil arguments. A Go \<open>error\<close> is an \<open>err option\<close>, \<open>None\<close> being \<open>nil\<close>.
\<close>

datatype sentinel =
    Canceled | DeadlineExceeded
  | JtagErrStateUnknown | JtagErrChainInvalid | JtagErrDiscoveryLimit | JtagErrNoChain
  | JtagErrInstructionChanged
  | SwdErrWait | SwdErrFault | SwdErrParity | SwdErrProtocol
  | SwdErrResultPending | SwdErrBatchCommitted | SwdErrNotExecuted | SwdErrIndeterminate
  | CsErrNotROMTable | CsErrWalkLimit | CsErrRepeatedTable | CsErrPowerDomain
  | UsbErrNotConfigured | UsbErrDeviceGone | SysENODEV | IoErrUnexpectedEOF | CmsisErrNoV2Interface
  | DapErrWait | DapErrFault | DapErrProtocol | DapErrResultPending | DapErrTxnCommitted
  | DapErrNotExecuted | DapErrIndeterminate | SimErrBusFault | SimErrDeviceFailure

datatype err =
    Sentinel sentinel
  | New string "int list"
  | Wrap string "int list" "err list"
  | Joined "err list"

type_synonym go_error = "err option"

fun err_is :: "err \<Rightarrow> sentinel \<Rightarrow> bool" where
  "err_is (Sentinel s) t = (s = t)"
| "err_is (New _ _) t = False"
| "err_is (Wrap _ _ es) t = list_ex (\<lambda>e. err_is e t) es"
| "err_is (Joined es) t = list_ex (\<lambda>e. err_is e t) es"

definition errors_Is :: "go_error \<Rightarrow> sentinel \<Rightarrow> bool" where
  "errors_Is e t = (case e of None \<Rightarrow> False | Some x \<Rightarrow> err_is x t)"

definition errors_Join :: "go_error list \<Rightarrow> go_error" where
  "errors_Join es = (case List.map_filter id es of [] \<Rightarrow> None | xs \<Rightarrow> Some (Joined xs))"

lemma errors_Is_simps [simp, go_simps]:
  "errors_Is None t = False"
  "errors_Is (Some e) t = err_is e t"
  by (simp_all add: errors_Is_def)

lemma map_filter_id_simps [simp]:
  "List.map_filter id (None # xs) = List.map_filter id xs"
  "List.map_filter id (Some x # xs) = x # List.map_filter id xs"
  "List.map_filter id [] = []"
  by (simp_all add: List.map_filter_def)

lemma errors_Join_eq_None [go_simps]: "errors_Join es = None \<longleftrightarrow> (\<forall>e \<in> set es. e = None)"
  by (induction es) (auto simp: errors_Join_def split: list.splits option.splits)

lemma errors_Is_Join [go_simps]: "errors_Is (errors_Join es) t \<longleftrightarrow> (\<exists>e \<in> set es. errors_Is e t)"
proof (induction es)
  case Nil
  show ?case by (simp add: errors_Join_def)
next
  case (Cons e es)
  then show ?case
    by (cases e) (auto simp: errors_Join_def split: list.splits)
qed

section \<open>Contexts\<close>

text \<open>
  \<open>Caller i\<close> is a context the application passes in; \<open>WithoutCancel\<close> and \<open>WithDeadline\<close> are
  the two derivations the code makes (\<open>context.WithTimeout\<close> fixes its deadline when it is
  made). A world of type \<open>'w\<close> is everything outside the program: the adapter, the target, the
  clock and whoever cancels a context. \<open>ctx.Err()\<close> lets the world move (\<open>poll_step\<close>) and then
  reads the context, so that two polls in a row may disagree.
\<close>

datatype ctx = Background | Caller nat | WithoutCancel ctx | WithDeadline ctx int

record 'w go_env =
  poll_step :: "'w \<Rightarrow> 'w"
  caller_err :: "nat \<Rightarrow> 'w \<Rightarrow> sentinel option"
  now :: "'w \<Rightarrow> int"

primrec ctx_status :: "'w go_env \<Rightarrow> ctx \<Rightarrow> 'w \<Rightarrow> sentinel option" where
  "ctx_status E Background w = None"
| "ctx_status E (Caller i) w = caller_err E i w"
| "ctx_status E (WithoutCancel c) w = None"
| "ctx_status E (WithDeadline c t) w =
     (case ctx_status E c w of
        Some e \<Rightarrow> Some e
      | None \<Rightarrow> (if t \<le> now E w then Some DeadlineExceeded else None))"

definition ctx_Err :: "'w go_env \<Rightarrow> ctx \<Rightarrow> 'w \<Rightarrow> sentinel option \<times> 'w" where
  "ctx_Err E c w = (let w' = poll_step E w in (ctx_status E c w', w'))"

definition WithTimeout :: "'w go_env \<Rightarrow> ctx \<Rightarrow> int \<Rightarrow> 'w \<Rightarrow> ctx" where
  "WithTimeout E c d w = WithDeadline c (now E w + d)"

text \<open>
  The tail \<open>if cause := ctx.Err(); cause != nil && !errors.Is(err, cause)\<close> that several
  packages put behind a completed operation: a caller's cancellation is joined to the result.
\<close>

definition join_cause :: "'w go_env \<Rightarrow> ctx \<Rightarrow> go_error \<Rightarrow> 'w \<Rightarrow> go_error \<times> 'w" where
  "join_cause E c e w =
     (case ctx_Err E c w of
        (Some cause, w') \<Rightarrow>
          (if errors_Is e cause then e else errors_Join [e, Some (Sentinel cause)], w')
      | (None, w') \<Rightarrow> (e, w'))"

lemma ctx_Err_world: "ctx_Err E c w = (r, w') \<Longrightarrow> w' = poll_step E w"
  by (auto simp: ctx_Err_def Let_def)

lemma join_cause_world: "join_cause E c e w = (e', w') \<Longrightarrow> w' = poll_step E w"
  by (auto simp: join_cause_def dest: ctx_Err_world split: prod.splits option.splits)

lemma join_cause_None [go_simps]: "join_cause E c e w = (None, w') \<Longrightarrow> e = None"
  by (auto simp: join_cause_def errors_Join_eq_None split: prod.splits option.splits if_splits)

lemma join_cause_keeps [go_simps]:
  "join_cause E c e w = (e', w') \<Longrightarrow> errors_Is e t \<Longrightarrow> errors_Is e' t"
  by (auto simp: join_cause_def errors_Is_Join split: prod.splits option.splits if_splits)

text \<open>The world moved only by the time that polling takes: no traffic.\<close>

definition waits :: "'w go_env \<Rightarrow> 'w \<Rightarrow> 'w \<Rightarrow> bool" where
  "waits E w w' \<longleftrightarrow> (\<exists>k. w' = (poll_step E ^^ k) w)"

lemma waits_refl [simp, intro]: "waits E w w"
  unfolding waits_def by (rule exI [of _ 0]) simp

lemma waits_poll [simp, intro]: "waits E w (poll_step E w)"
  unfolding waits_def by (rule exI [of _ 1]) simp

lemma waits_trans: "waits E w w1 \<Longrightarrow> waits E w1 w2 \<Longrightarrow> waits E w w2"
  unfolding waits_def by (metis comp_apply funpow_add)

lemma waits_ctx_Err: "ctx_Err E c w = (r, w') \<Longrightarrow> waits E w w'"
  by (auto dest: ctx_Err_world)

lemma waits_join_cause: "join_cause E c e w = (r, w') \<Longrightarrow> waits E w w'"
  by (auto dest: join_cause_world)

text \<open>An environment in which no time passes and nobody cancels.\<close>

definition still_env :: "'w go_env" where
  "still_env = \<lparr>poll_step = (\<lambda>w. w), caller_err = (\<lambda>_ _. None), now = (\<lambda>_. 0)\<rparr>"

text \<open>A context that nobody ends, in a world that polling does not move.\<close>

definition live :: "'w go_env \<Rightarrow> ctx \<Rightarrow> bool" where
  "live E ctx \<longleftrightarrow> (\<forall>w. poll_step E w = w) \<and> (\<forall>w. ctx_status E ctx w = None)"

lemma live_completion:
  assumes "live E ctx" and "\<forall>w'. now E w' < now E w + d"
  shows "live E (WithTimeout E (WithoutCancel ctx) d w)"
  using assms by (auto simp: live_def WithTimeout_def not_le)

lemma live_still [simp]: "live still_env (Caller i)" "live still_env Background"
  by (simp_all add: live_def still_env_def)

section \<open>Sums of words\<close>

lemma mod_shift:
  fixes x M :: int
  assumes "- M < x" "x < 2 * M" "0 < M"
  shows "x mod M = (if x < 0 then x + M else if x < M then x else x - M)"
proof -
  have up: "x mod M = (x + M) mod M" and down: "x mod M = (x - M) mod M" by simp_all
  consider "x < 0" | "0 \<le> x" "x < M" | "M \<le> x" by linarith
  then show ?thesis
  proof cases
    case 1
    then have "0 \<le> x + M" "x + M < M" using assms(1) by linarith+
    then have "(x + M) mod M = x + M" by (rule mod_pos_pos_trivial)
    with up have "x mod M = x + M" by (rule trans)
    then show ?thesis using 1 by simp
  next
    case 2
    then show ?thesis by (simp add: mod_pos_pos_trivial)
  next
    case 3
    then have "0 \<le> x - M" "x - M < M" using assms by linarith+
    then have "(x - M) mod M = x - M" by (rule mod_pos_pos_trivial)
    with down have "x mod M = x - M" by (rule trans)
    moreover have "\<not> x < 0" "\<not> x < M" using 3 assms(3) by linarith+
    ultimately show ?thesis by simp
  qed
qed

lemma uint_add_int:
  fixes a :: "'a::len word"
  assumes "- (2 ^ LENGTH('a)) < d" "d < 2 ^ LENGTH('a)"
  shows "uint (a + word_of_int d) =
    (if uint a + d < 0 then uint a + d + 2 ^ LENGTH('a)
     else if uint a + d < 2 ^ LENGTH('a) then uint a + d else uint a + d - 2 ^ LENGTH('a))"
proof -
  have "uint (a + word_of_int d) = (uint a + d) mod 2 ^ LENGTH('a)"
    by (simp add: uint_word_ariths uint_word_of_int mod_simps)
  moreover have "0 \<le> uint a" "uint a < 2 ^ LENGTH('a)" by simp_all
  then have "- (2 ^ LENGTH('a)) < uint a + d" "uint a + d < 2 * 2 ^ LENGTH('a)" using assms by linarith+
  ultimately show ?thesis using mod_shift by simp
qed

section \<open>Packed bits\<close>

text \<open>Bit \<open>i\<close> of a buffer: bit \<open>i mod 8\<close> of byte \<open>i div 8\<close>.\<close>

definition tbit :: "byte list \<Rightarrow> nat \<Rightarrow> bool" where
  "tbit buf i = bit (buf ! (i div 8)) (i mod 8)"

definition bits_of :: "byte list \<Rightarrow> bool list" where
  "bits_of buf = map (tbit buf) [0..<8 * length buf]"

definition bytes_for :: "nat \<Rightarrow> nat" where
  "bytes_for n = (n + 7) div 8"

lemma length_bits_of [simp]: "length (bits_of buf) = 8 * length buf"
  by (simp add: bits_of_def)

lemma nth_bits_of [simp]: "i < 8 * length buf \<Longrightarrow> bits_of buf ! i = tbit buf i"
  by (simp add: bits_of_def)

lemma bytes_for_bound [simp, intro]: "i < n \<Longrightarrow> i < 8 * bytes_for n"
  unfolding bytes_for_def by arith

lemma bytes_for_index [simp, intro]: "i < n \<Longrightarrow> i div 8 < bytes_for n"
  unfolding bytes_for_def by arith

lemma bytes_for_le: "n \<le> 8 * bytes_for n" "8 * bytes_for n < n + 8"
  unfolding bytes_for_def by arith+

lemma bytes_for_mono: "m \<le> n \<Longrightarrow> bytes_for m \<le> bytes_for n"
  unfolding bytes_for_def by arith

lemma bytes_for_0 [simp]: "bytes_for 0 = 0"
  by (simp add: bytes_for_def)

lemma bytes_for_mult8 [simp]: "bytes_for (8 * n) = n"
  by (simp add: bytes_for_def)

lemma tbit_zeros [simp]: "i < 8 * n \<Longrightarrow> \<not> tbit (replicate n 0) i"
  by (simp add: tbit_def less_mult_imp_div_less mult.commute)

lemma tbit_ones [simp]: "i < 8 * n \<Longrightarrow> tbit (replicate n 255) i"
proof -
  assume "i < 8 * n"
  moreover have "bit (255 :: byte) (i mod 8)"
  proof -
    have "(255 :: byte) = mask 8" by (simp add: mask_eq_exp_minus_1)
    then show ?thesis by (simp only: bit_mask_iff) simp
  qed
  ultimately show ?thesis by (simp add: tbit_def less_mult_imp_div_less mult.commute)
qed

text \<open>Setting one bit, the way both packages do it: an \<open>OR\<close> of a shifted one.\<close>

definition or_bit :: "byte list \<Rightarrow> nat \<Rightarrow> bool \<Rightarrow> byte list" where
  "or_bit buf i v = buf[i div 8 := (buf ! (i div 8)) OR push_bit (i mod 8) (of_bool v)]"

lemma length_or_bit [simp]: "length (or_bit buf i v) = length buf"
  by (simp add: or_bit_def)

lemma tbit_or_bit [buf_simps]:
  assumes "i < 8 * length buf"
  shows "tbit (or_bit buf i v) j = (if i = j then v \<or> tbit buf j else tbit buf j)"
proof -
  have len: "i div 8 < length buf" using assms by arith
  show ?thesis
  proof (cases "i div 8 = j div 8")
    case True
    then have "i = j \<longleftrightarrow> i mod 8 = j mod 8" by (metis mult_div_mod_eq)
    moreover have "i mod 8 < 8" "j mod 8 < 8" by simp_all
    ultimately show ?thesis using True len
      by (auto simp: tbit_def or_bit_def bit_or_iff bit_push_bit_iff bit_of_bool_iff)
  next
    case False
    then show ?thesis by (auto simp: tbit_def or_bit_def)
  qed
qed

text \<open>
  Collecting bits into a word, the shape of every decoder: \<open>value |= 1 << i\<close> over a range of
  indices. The result has exactly the collected bits.
\<close>

definition collect_bits :: "(nat \<Rightarrow> bool) \<Rightarrow> nat \<Rightarrow> 'a::len word" where
  "collect_bits P n = fold (\<lambda>i v. if P i then v OR push_bit i 1 else v) [0..<n] 0"

lemma bit_collect_bits [buf_simps]:
  "bit (collect_bits P n :: 'a::len word) k \<longleftrightarrow> k < n \<and> k < LENGTH('a) \<and> P k"
proof (induction n)
  case 0
  show ?case by (simp add: collect_bits_def)
next
  case (Suc n)
  then show ?case
    by (auto simp: collect_bits_def bit_or_iff bit_exp_iff less_Suc_eq)
qed

lemma collect_bits_bit: "n = LENGTH('a) \<Longrightarrow> collect_bits (bit w) n = (w :: 'a::len word)"
  by (rule bit_word_eqI) (simp add: bit_collect_bits)

lemma collect_bits_cong:
  "(\<And>i. i < n \<Longrightarrow> P i = Q i) \<Longrightarrow> collect_bits P n = (collect_bits Q n :: 'a::len word)"
  by (rule bit_word_eqI) (auto simp: bit_collect_bits)

text \<open>Packing a list of bits, low bit first; unused high bits of the last byte are zero.\<close>

definition pack :: "bool list \<Rightarrow> byte list" where
  "pack bs = map (\<lambda>k. collect_bits (\<lambda>i. 8 * k + i < length bs \<and> bs ! (8 * k + i)) 8)
     [0..<bytes_for (length bs)]"

lemma length_pack [simp]: "length (pack bs) = bytes_for (length bs)"
  by (simp add: pack_def)

lemma tbit_pack [buf_simps]: "i < 8 * bytes_for (length bs) \<Longrightarrow> tbit (pack bs) i \<longleftrightarrow> i < length bs \<and> bs ! i"
  by (simp add: tbit_def pack_def bit_collect_bits less_mult_imp_div_less mult.commute)

lemma buffer_eqI:
  assumes "length a = length b" and "\<And>i. i < 8 * length b \<Longrightarrow> tbit a i = tbit b i"
  shows "a = b"
proof (rule nth_equalityI)
  show "length a = length b" by fact
next
  fix k assume k: "k < length a"
  show "a ! k = b ! k"
  proof (rule bit_word_eqI)
    fix n assume "n < LENGTH(8)"
    then have n: "n < 8" by simp
    then have "8 * k + n < 8 * length b" using k assms(1) by simp
    from assms(2) [OF this] n show "bit (a ! k) n = bit (b ! k) n" by (simp add: tbit_def)
  qed
qed

lemma take_bits_pack [simp]: "take (length bs) (bits_of (pack bs)) = bs"
  by (rule nth_equalityI) (auto simp: buf_simps bytes_for_le(1))

text \<open>A range of bits of a buffer.\<close>

definition bslice :: "byte list \<Rightarrow> nat \<Rightarrow> nat \<Rightarrow> bool list" where
  "bslice buf i j = map (tbit buf) [i..<j]"

lemma length_bslice [simp]: "length (bslice buf i j) = j - i"
  by (simp add: bslice_def)

lemma nth_bslice [simp]: "k < j - i \<Longrightarrow> bslice buf i j ! k = tbit buf (i + k)"
  by (simp add: bslice_def)

lemma bslice_empty [simp]: "j \<le> i \<Longrightarrow> bslice buf i j = []"
  by (simp add: bslice_def)

lemma bslice_append: "i \<le> j \<Longrightarrow> j \<le> k \<Longrightarrow> bslice buf i j @ bslice buf j k = bslice buf i k"
  by (metis bslice_def map_append le_add_diff_inverse upt_add_eq_append)

lemma bslice_pack [simp]: "n = length bs \<Longrightarrow> bslice (pack bs) 0 n = bs"
  by (rule nth_equalityI) (simp_all add: buf_simps)

lemma pack_bslice_self:
  assumes "length buf = bytes_for n" "\<And>i. n \<le> i \<Longrightarrow> i < 8 * length buf \<Longrightarrow> \<not> tbit buf i"
  shows "pack (bslice buf 0 n) = buf"
proof (rule buffer_eqI)
  fix i assume "i < 8 * length buf"
  with assms show "tbit (pack (bslice buf 0 n)) i = tbit buf i"
    by (cases "i < n") (auto simp: tbit_pack)
qed (simp add: assms)

end
