(* ===== verification/Jtag_State.thy ===== *)
theory Jtag_State
  imports Prelude
begin

text \<open>
  The TAP controller of \<open>src/jtag/state.go\<close>: its states, the transition table and the
  breadth-first search for a TMS path. The lemmas show that the search stops, that its result
  leads where it should without entering Reset on the way, and that no allowed TMS sequence
  is shorter.
\<close>

section \<open>States and transitions\<close>

datatype State =
    Unknown | Reset | Idle
  | SelectDR | CaptureDR | ShiftDR | Exit1DR | PauseDR | Exit2DR | UpdateDR
  | SelectIR | CaptureIR | ShiftIR | Exit1IR | PauseIR | Exit2IR | UpdateIR

text \<open>The row of \<open>Unknown\<close> is the array's zero value. The second argument is the TMS bit.\<close>

fun transitions :: "State \<Rightarrow> bool \<Rightarrow> State" where
  "transitions Unknown tms = Unknown"
| "transitions Reset tms = (if tms then Reset else Idle)"
| "transitions Idle tms = (if tms then SelectDR else Idle)"
| "transitions SelectDR tms = (if tms then SelectIR else CaptureDR)"
| "transitions CaptureDR tms = (if tms then Exit1DR else ShiftDR)"
| "transitions ShiftDR tms = (if tms then Exit1DR else ShiftDR)"
| "transitions Exit1DR tms = (if tms then UpdateDR else PauseDR)"
| "transitions PauseDR tms = (if tms then Exit2DR else PauseDR)"
| "transitions Exit2DR tms = (if tms then UpdateDR else ShiftDR)"
| "transitions UpdateDR tms = (if tms then SelectDR else Idle)"
| "transitions SelectIR tms = (if tms then Reset else CaptureIR)"
| "transitions CaptureIR tms = (if tms then Exit1IR else ShiftIR)"
| "transitions ShiftIR tms = (if tms then Exit1IR else ShiftIR)"
| "transitions Exit1IR tms = (if tms then UpdateIR else PauseIR)"
| "transitions PauseIR tms = (if tms then Exit2IR else PauseIR)"
| "transitions Exit2IR tms = (if tms then UpdateIR else ShiftIR)"
| "transitions UpdateIR tms = (if tms then SelectDR else Idle)"

definition all_states :: "State list" where
  "all_states = [Unknown, Reset, Idle, SelectDR, CaptureDR, ShiftDR, Exit1DR, PauseDR, Exit2DR,
     UpdateDR, SelectIR, CaptureIR, ShiftIR, Exit1IR, PauseIR, Exit2IR, UpdateIR]"

lemma all_states_complete: "s \<in> set all_states"
  by (cases s) (simp_all add: all_states_def)

lemma UNIV_State: "UNIV = set all_states"
  using all_states_complete by blast

instance State :: finite
  by standard (simp only: UNIV_State finite_set)

section \<open>The search for a path\<close>

text \<open>
  One turn of the inner loop over \<open>transitions[r.state]\<close>: a neighbour that is Reset while Reset
  is not wanted is skipped, an unseen one is marked and queued with its route.
\<close>

definition path_visit ::
  "State \<Rightarrow> State \<Rightarrow> bool list \<Rightarrow> bool \<Rightarrow> (State \<times> bool list) list \<times> (State \<Rightarrow> bool) \<Rightarrow>
   (State \<times> bool list) list \<times> (State \<Rightarrow> bool)" where
  "path_visit to st bits b qs =
     (case qs of (queue, seen) \<Rightarrow>
       (let nxt = transitions st b in
        if nxt = Reset \<and> to \<noteq> Reset then (queue, seen)
        else if \<not> seen nxt then (queue @ [(nxt, bits @ [b])], seen(nxt := True))
        else (queue, seen)))"

definition unseen :: "(State \<Rightarrow> bool) \<Rightarrow> nat" where
  "unseen seen = card {s. \<not> seen s}"

lemma unseen_update: "\<not> seen s \<Longrightarrow> unseen seen = Suc (unseen (seen(s := True)))"
proof -
  assume "\<not> seen s"
  then have "card {x. \<not> seen x} = Suc (card ({x. \<not> seen x} - {s}))"
    by (intro card.remove) simp_all
  moreover have "{x. \<not> (seen(s := True)) x} = {x. \<not> seen x} - {s}" by auto
  ultimately show ?thesis
    unfolding unseen_def by (simp only:)
qed

lemma path_visit_measure:
  assumes "path_visit to st bits b (queue, seen) = (queue', seen')"
  shows "2 * unseen seen' + length queue' \<le> 2 * unseen seen + length queue"
proof (cases "(transitions st b = Reset \<and> to \<noteq> Reset) \<or> seen (transitions st b)")
  case True
  with assms show ?thesis by (auto simp: path_visit_def Let_def split: if_splits)
next
  case False
  with assms have "seen' = seen(transitions st b := True)" and "length queue' = Suc (length queue)"
    by (auto simp: path_visit_def Let_def)
  with False unseen_update [of seen "transitions st b"] show ?thesis by simp
qed

function path_loop :: "State \<Rightarrow> (State \<times> bool list) list \<Rightarrow> (State \<Rightarrow> bool) \<Rightarrow> bool list" where
  "path_loop to [] seen = []"
| "path_loop to ((st, bits) # queue) seen =
     (if st = to then bits
      else (case path_visit to st bits True (path_visit to st bits False (queue, seen)) of
              (queue', seen') \<Rightarrow> path_loop to queue' seen'))"
  by pat_completeness auto
termination
proof (relation "measure (\<lambda>(to, queue, seen). 2 * unseen seen + length queue)")
  fix to st bits queue seen q2 s2
  assume "(q2, s2) = path_visit to st bits True (path_visit to st bits False (queue, seen))"
  moreover obtain q1 s1 where "path_visit to st bits False (queue, seen) = (q1, s1)"
    by (cases "path_visit to st bits False (queue, seen)")
  ultimately have "2 * unseen s2 + length q2 \<le> 2 * unseen s1 + length q1"
    and "2 * unseen s1 + length q1 \<le> 2 * unseen seen + length queue"
    using path_visit_measure by simp_all
  then show "((to, q2, s2), to, (st, bits) # queue, seen)
      \<in> measure (\<lambda>(to, queue, seen). 2 * unseen seen + length queue)"
    by simp
qed simp

definition path :: "State \<Rightarrow> State \<Rightarrow> bool list" where
  "path from to = path_loop to [(from, [])] ((\<lambda>_. False)(from := True))"

section \<open>Runs of the controller\<close>

text \<open>
  The reference semantics of a TMS sequence: the state it leads to and the states it enters.
\<close>

primrec tap_run :: "State \<Rightarrow> bool list \<Rightarrow> State" where
  "tap_run s [] = s"
| "tap_run s (b # bs) = tap_run (transitions s b) bs"

primrec tap_entered :: "State \<Rightarrow> bool list \<Rightarrow> State list" where
  "tap_entered s [] = []"
| "tap_entered s (b # bs) = transitions s b # tap_entered (transitions s b) bs"

lemma tap_run_append [simp]: "tap_run s (xs @ ys) = tap_run (tap_run s xs) ys"
  by (induction xs arbitrary: s) auto

lemma tap_entered_append [simp]:
  "tap_entered s (xs @ ys) = tap_entered s xs @ tap_entered (tap_run s xs) ys"
  by (induction xs arbitrary: s) auto

lemma length_tap_entered [simp]: "length (tap_entered s bs) = length bs"
  by (induction bs arbitrary: s) auto

lemma transitions_Unknown [simp]: "transitions s b = Unknown \<longleftrightarrow> s = Unknown"
  by (cases s) auto

lemma tap_run_Unknown [simp]: "tap_run s bs = Unknown \<longleftrightarrow> s = Unknown"
  by (induction bs arbitrary: s) auto

lemma tap_run_shift [simp]:
  "tap_run ShiftDR (replicate n False) = ShiftDR"
  "tap_run ShiftIR (replicate n False) = ShiftIR"
  "tap_run Idle (replicate n False) = Idle"
  by (induction n) auto

section \<open>Correctness of the search\<close>

text \<open>
  Both facts about single paths are finite: 256 pairs of states, evaluated by the simplifier
  with the code equations. The second one is a triangle inequality, from which the optimality
  of the length follows by induction on any competing TMS sequence.
\<close>

definition path_leads_at :: "State \<Rightarrow> State \<Rightarrow> bool" where
  "path_leads_at s t \<longleftrightarrow> (let p = path s t in
     tap_run s p = t \<and> (t = Reset \<or> \<not> List.member (tap_entered s p) Reset))"

definition path_triangle_at :: "State \<Rightarrow> State \<Rightarrow> bool" where
  "path_triangle_at s t \<longleftrightarrow> list_all (\<lambda>b. t \<noteq> Reset \<and> transitions s b = Reset \<or>
     length (path s t) \<le> Suc (length (path (transitions s b) t))) [False, True]"

lemma path_leads_table:
  "list_all (\<lambda>s. list_all (path_leads_at s) (tl all_states)) (tl all_states)"
  by code_simp

lemma path_triangle_table:
  "list_all (\<lambda>s. list_all (path_triangle_at s) (tl all_states)) (tl all_states)"
  by code_simp

lemma known_state: "s \<noteq> Unknown \<Longrightarrow> s \<in> set (tl all_states)"
  using all_states_complete [of s] by (simp add: all_states_def)

lemma path_leads:
  assumes "s \<noteq> Unknown" "t \<noteq> Unknown"
  shows "tap_run s (path s t) = t" and "t \<noteq> Reset \<Longrightarrow> Reset \<notin> set (tap_entered s (path s t))"
proof -
  from assms path_leads_table have "path_leads_at s t"
    by (metis known_state list_all_iff)
  then show "tap_run s (path s t) = t" and "t \<noteq> Reset \<Longrightarrow> Reset \<notin> set (tap_entered s (path s t))"
    by (auto simp: path_leads_at_def Let_def)
qed

lemma path_triangle:
  assumes "s \<noteq> Unknown" "t \<noteq> Unknown" "t = Reset \<or> transitions s b \<noteq> Reset"
  shows "length (path s t) \<le> Suc (length (path (transitions s b) t))"
proof -
  from assms path_triangle_table have "path_triangle_at s t"
    by (metis known_state list_all_iff)
  with assms(3) show ?thesis
    by (cases b) (auto simp: path_triangle_at_def)
qed

lemma path_same [simp]: "path s s = []"
  by (simp add: path_def)

lemma path_minimal:
  "s \<noteq> Unknown \<Longrightarrow> t = Reset \<or> Reset \<notin> set (tap_entered s bs) \<Longrightarrow> tap_run s bs = t \<Longrightarrow>
   length (path s t) \<le> length bs"
proof (induction bs arbitrary: s)
  case Nil
  then show ?case by simp
next
  case (Cons b bs)
  from Cons.prems have "length (path (transitions s b) t) \<le> length bs"
    by (intro Cons.IH) auto
  moreover from Cons.prems have "t \<noteq> Unknown" by auto
  ultimately show ?case
    using path_triangle [of s t b] Cons.prems by force
qed

text \<open>
  C1: the TMS sequence that \<open>path\<close> computes leads from any known state to any known
  destination, and it enters Test-Logic-Reset only when that is the destination.
\<close>

theorem path_reaches:
  assumes "s \<noteq> Unknown" and "t \<noteq> Unknown"
  shows "tap_run s (path s t) = t \<and> (Reset \<in> set (tap_entered s (path s t)) \<longrightarrow> t = Reset)"
  using path_leads [OF assms] by blast

theorem path_reaches_witness:
  "tap_run ShiftIR (path ShiftIR PauseDR) = PauseDR \<and>
   Reset \<notin> set (tap_entered ShiftIR (path ShiftIR PauseDR))"
  using path_reaches [of ShiftIR PauseDR] by blast

text \<open>
  C2: no TMS sequence that reaches the same destination without entering Test-Logic-Reset on
  the way (unless Reset is the destination) is shorter than the one \<open>path\<close> computes.
\<close>

theorem path_shortest:
  assumes "s \<noteq> Unknown" and "tap_run s bs = t"
    and "t = Reset \<or> Reset \<notin> set (tap_entered s bs)"
  shows "length (path s t) \<le> length bs"
  using assms by (intro path_minimal) auto

theorem path_shortest_witness:
  "tap_run PauseIR [True, False, True, True, False] = Idle \<and> length (path PauseIR Idle) \<le> 5"
proof -
  have "tap_run PauseIR [True, False, True, True, False] = Idle"
    by simp
  with path_shortest [OF _ this] show ?thesis by simp
qed

text \<open>The five TMS-high clocks that \<open>Conn.Reset\<close> sends reach Test-Logic-Reset from anywhere.\<close>

lemma five_high_clocks_reset: "s \<noteq> Unknown \<Longrightarrow> tap_run s [True, True, True, True, True] = Reset"
  by (cases s) simp_all

end
