(* ===== verification/Jtag_Conn.thy ===== *)
theory Jtag_Conn
  imports Jtag_State
begin

text \<open>
  The connection of \<open>src/jtag/conn.go\<close> and \<open>src/jtag/scan.go\<close>: validation, the chunked clock
  loop, \<open>Reset\<close>, \<open>Move\<close>, \<open>ScanIR\<close>/\<open>ScanDR\<close> and \<open>Idle\<close>. The wire is a parameter (the adapters
  implement it); a nil connection pointer is not a value of the model, a missing wire is.
\<close>

section \<open>The wire and the connection\<close>

text \<open>
  \<open>JTAGIO ctx tms tdi bits\<close> returns the sampled bytes and an error; \<open>MaxTransferBits\<close> is
  present when the wire implements \<open>TransferLimits\<close>.
\<close>

record 'w jtag_wire =
  JTAGIO :: "ctx \<Rightarrow> byte list \<Rightarrow> byte list \<Rightarrow> nat \<Rightarrow> 'w \<Rightarrow> byte list \<times> go_error \<times> 'w"
  MaxTransferBits :: "('w \<Rightarrow> int) option"

record 'w jtag_conn =
  jc_wire :: "'w jtag_wire option"
  jc_state :: State
  jc_serial :: uint64
  jc_completionTimeout :: int

definition seconds :: "int \<Rightarrow> int" where
  "seconds n = n * 1000000000"

text \<open>An option carries \<open>Some\<close> duration when its \<open>completionSet\<close> flag is set.\<close>

definition jtag_New :: "'w jtag_wire option \<Rightarrow> int option list \<Rightarrow> 'w jtag_conn" where
  "jtag_New wire options =
     fold (\<lambda>opt c. case opt of None \<Rightarrow> c | Some d \<Rightarrow> c\<lparr>jc_completionTimeout := d\<rparr>) options
       \<lparr>jc_wire = wire, jc_state = Unknown, jc_serial = 0, jc_completionTimeout = seconds 30\<rparr>"

definition nil_context :: err where "nil_context = New ''jtag: nil context'' []"
definition nil_wire :: err where "nil_wire = New ''jtag: nil wire'' []"
definition bad_completion :: err where
  "bad_completion = New ''jtag: completion timeout must be positive'' []"
definition bad_limit :: err where "bad_limit = New ''jtag: invalid wire transfer limit'' []"
definition bad_destination :: err where "bad_destination = New ''jtag: invalid destination'' []"
definition bad_response :: err where
  "bad_response = New ''jtag: invalid wire response length'' []"
definition bad_scan :: err where "bad_scan = New ''jtag: invalid scan length or buffer'' []"
definition bad_idle :: err where "bad_idle = New ''jtag: invalid idle count'' []"

definition jtag_validate ::
  "'w go_env \<Rightarrow> 'w jtag_conn \<Rightarrow> ctx option \<Rightarrow> 'w \<Rightarrow> (err + ctx \<times> 'w jtag_wire \<times> nat) \<times> 'w" where
  "jtag_validate E c octx w =
     (case octx of
        None \<Rightarrow> (Inl nil_context, w)
      | Some ctx \<Rightarrow>
          (case ctx_Err E ctx w of
             (Some e, w1) \<Rightarrow> (Inl (Sentinel e), w1)
           | (None, w1) \<Rightarrow>
               (case jc_wire c of
                  None \<Rightarrow> (Inl nil_wire, w1)
                | Some W \<Rightarrow>
                    if jc_completionTimeout c \<le> 0 then (Inl bad_completion, w1)
                    else (case MaxTransferBits W of
                            None \<Rightarrow> (Inr (ctx, W, 4096), w1)
                          | Some limit \<Rightarrow>
                              if limit w1 \<le> 0 then (Inl bad_limit, w1)
                              else (Inr (ctx, W, nat (limit w1)), w1)))))"

section \<open>Clocking\<close>

definition get :: "byte list \<Rightarrow> nat \<Rightarrow> byte" where
  "get data i = drop_bit (i mod 8) (data ! (i div 8)) AND 1"

definition put :: "byte list \<Rightarrow> nat \<Rightarrow> byte \<Rightarrow> byte list" where
  "put data i v = data[i div 8 := (data ! (i div 8)) OR push_bit (i mod 8) v]"

text \<open>The loops \<open>for i := range n { put(dst, d+i, get(src, s+i)) }\<close>.\<close>

definition copy_bits :: "byte list \<Rightarrow> nat \<Rightarrow> byte list \<Rightarrow> nat \<Rightarrow> nat \<Rightarrow> byte list" where
  "copy_bits dst d src s n = fold (\<lambda>i buf. put buf (d + i) (get src (s + i))) [0..<n] dst"

text \<open>The state update of the clock loop: one transition per TMS bit, none once unknown.\<close>

definition track_state :: "State \<Rightarrow> byte list \<Rightarrow> nat \<Rightarrow> State" where
  "track_state st ms n =
     fold (\<lambda>i s. if s \<noteq> Unknown then transitions s (get ms i \<noteq> 0) else s) [0..<n] st"

text \<open>
  The loop over wire calls. The caller has validated the connection, so the limit is positive;
  the guard \<open>0 < limit\<close> only serves the termination proof.
\<close>

function jtag_clock_loop ::
  "'w go_env \<Rightarrow> ctx \<Rightarrow> 'w jtag_wire \<Rightarrow> nat \<Rightarrow> byte list \<Rightarrow> byte list \<Rightarrow> nat \<Rightarrow> nat \<Rightarrow> byte list \<Rightarrow>
   'w jtag_conn \<Rightarrow> 'w \<Rightarrow> (err + byte list) \<times> 'w jtag_conn \<times> 'w" where
  "jtag_clock_loop E ctx W limit tms tdi bits start output c w =
     (if start < bits \<and> 0 < limit then
        (case ctx_Err E ctx w of
           (Some e, w1) \<Rightarrow> (Inl (Sentinel e), c, w1)
         | (None, w1) \<Rightarrow>
             (let n = min limit (bits - start);
                  ms = copy_bits (replicate (bytes_for n) 0) 0 tms start n;
                  di = copy_bits (replicate (bytes_for n) 0) 0 tdi start n in
              case JTAGIO W ctx ms di n w1 of
                (do, e, w2) \<Rightarrow>
                  (let c1 = c\<lparr>jc_serial := jc_serial c + 1\<rparr>;
                       e1 = (if e = None \<and> length do \<noteq> length di then Some bad_response else e) in
                   case e1 of
                     Some x \<Rightarrow> (Inl x, c1\<lparr>jc_state := Unknown\<rparr>, w2)
                   | None \<Rightarrow>
                       jtag_clock_loop E ctx W limit tms tdi bits (start + n)
                         (copy_bits output start do 0 n)
                         (c1\<lparr>jc_state := track_state (jc_state c1) ms n\<rparr>) w2)))
      else (Inr output, c, w))"
  by pat_completeness auto
termination
  by (relation "measure (\<lambda>(E, ctx, W, limit, tms, tdi, bits, start, out, c, w). bits - start)") auto

declare jtag_clock_loop.simps [simp del]

definition jtag_clock ::
  "'w go_env \<Rightarrow> 'w jtag_conn \<Rightarrow> ctx option \<Rightarrow> byte list \<Rightarrow> byte list \<Rightarrow> nat \<Rightarrow> 'w \<Rightarrow>
   (err + byte list) \<times> 'w jtag_conn \<times> 'w" where
  "jtag_clock E c octx tms tdi bits w =
     (case jtag_validate E c octx w of
        (Inl e, w1) \<Rightarrow> (Inl e, c, w1)
      | (Inr (ctx, W, limit), w1) \<Rightarrow>
          jtag_clock_loop E ctx W limit tms tdi bits 0 (replicate (bytes_for bits) 0) c w1)"

section \<open>Reset, movement and scans\<close>

definition jtag_Reset ::
  "'w go_env \<Rightarrow> 'w jtag_conn \<Rightarrow> ctx option \<Rightarrow> 'w \<Rightarrow> go_error \<times> 'w jtag_conn \<times> 'w" where
  "jtag_Reset E c octx w =
     (case jtag_validate E c octx w of
        (Inl e, w1) \<Rightarrow> (Some e, c, w1)
      | (Inr _, w1) \<Rightarrow>
          (case jtag_clock E c octx [31] [0] 5 w1 of
             (Inl e, c1, w2) \<Rightarrow> (Some e, c1, w2)
           | (Inr _, c1, w2) \<Rightarrow> (None, c1\<lparr>jc_state := Reset\<rparr>, w2)))"

definition tms_buffer :: "bool list \<Rightarrow> byte list" where
  "tms_buffer bits =
     fold (\<lambda>i buf. if bits ! i then put buf i 1 else buf) [0..<length bits]
       (replicate (bytes_for (length bits)) 0)"

definition jtag_Move ::
  "'w go_env \<Rightarrow> 'w jtag_conn \<Rightarrow> ctx option \<Rightarrow> State \<Rightarrow> 'w \<Rightarrow> go_error \<times> 'w jtag_conn \<times> 'w" where
  "jtag_Move E c octx target w =
     (case jtag_validate E c octx w of
        (Inl e, w1) \<Rightarrow> (Some e, c, w1)
      | (Inr _, w1) \<Rightarrow>
          if target = Unknown then (Some bad_destination, c, w1)
          else if jc_state c = Unknown then (Some (Sentinel JtagErrStateUnknown), c, w1)
          else
            (let bits = path (jc_state c) target; tms = tms_buffer bits in
             case jtag_clock E c octx tms (replicate (length tms) 0) (length bits) w1 of
               (Inl e, c1, w2) \<Rightarrow> (Some e, c1, w2)
             | (Inr _, c1, w2) \<Rightarrow> (None, c1, w2)))"

definition MaxScanBits :: int where "MaxScanBits = 2 ^ 20"

text \<open>\<open>finishScan\<close>, deferred by \<open>scan\<close>.\<close>

definition jtag_finishScan ::
  "'w go_env \<Rightarrow> 'w jtag_conn \<Rightarrow> ctx \<Rightarrow> uint64 \<Rightarrow> go_error \<Rightarrow> 'w \<Rightarrow> go_error \<times> 'w jtag_conn \<times> 'w" where
  "jtag_finishScan E c ctx serial e w =
     (let c1 = (if e \<noteq> None \<and> jc_serial c \<noteq> serial then c\<lparr>jc_state := Unknown\<rparr> else c) in
      case join_cause E ctx e w of (e1, w1) \<Rightarrow> (e1, c1, w1))"

text \<open>
  The body of \<open>scan\<close> after its argument checks, on the completion context: entry through Idle,
  the shift with TMS high on the last bit, and the exit to Idle.
\<close>

definition jtag_scan_body ::
  "'w go_env \<Rightarrow> 'w jtag_conn \<Rightarrow> ctx \<Rightarrow> byte list \<Rightarrow> nat \<Rightarrow> State \<Rightarrow> 'w \<Rightarrow>
   (err + byte list) \<times> 'w jtag_conn \<times> 'w" where
  "jtag_scan_body E c cctx data bits shift w =
     (case jtag_Move E c (Some cctx) Idle w of
        (Some e, c1, w1) \<Rightarrow> (Inl e, c1, w1)
      | (None, c1, w1) \<Rightarrow>
          (case jtag_Move E c1 (Some cctx) shift w1 of
             (Some e, c2, w2) \<Rightarrow> (Inl e, c2, w2)
           | (None, c2, w2) \<Rightarrow>
               (case jtag_clock E c2 (Some cctx)
                       (put (replicate (bytes_for bits) 0) (bits - 1) 1) data bits w2 of
                  (Inl e, c3, w3) \<Rightarrow> (Inl e, c3, w3)
                | (Inr output, c3, w3) \<Rightarrow>
                    (case jtag_Move E c3 (Some cctx) Idle w3 of
                       (Some e, c4, w4) \<Rightarrow> (Inl e, c4, w4)
                     | (None, c4, w4) \<Rightarrow> (Inr output, c4, w4)))))"

definition jtag_scan ::
  "'w go_env \<Rightarrow> 'w jtag_conn \<Rightarrow> ctx option \<Rightarrow> byte list \<Rightarrow> int \<Rightarrow> State \<Rightarrow> 'w \<Rightarrow>
   (byte list option \<times> go_error) \<times> 'w jtag_conn \<times> 'w" where
  "jtag_scan E c octx data bits shift w =
     (case jtag_validate E c octx w of
        (Inl e, w1) \<Rightarrow> ((None, Some e), c, w1)
      | (Inr (ctx, _, _), w1) \<Rightarrow>
          if bits \<le> 0 \<or> MaxScanBits < bits \<or> length data < bytes_for (nat bits)
          then ((None, Some bad_scan), c, w1)
          else
            (let cctx = WithTimeout E (WithoutCancel ctx) (jc_completionTimeout c) w1 in
             case jtag_scan_body E c cctx data (nat bits) shift w1 of
               (Inl e, c1, w2) \<Rightarrow>
                 (case jtag_finishScan E c1 ctx (jc_serial c) (Some e) w2 of
                    (e1, c2, w3) \<Rightarrow> ((None, e1), c2, w3))
             | (Inr output, c1, w2) \<Rightarrow>
                 (case jtag_finishScan E c1 ctx (jc_serial c) None w2 of
                    (e1, c2, w3) \<Rightarrow> ((Some output, e1), c2, w3))))"

definition jtag_ScanIR ::
  "'w go_env \<Rightarrow> 'w jtag_conn \<Rightarrow> ctx option \<Rightarrow> byte list \<Rightarrow> int \<Rightarrow> 'w \<Rightarrow>
   (byte list option \<times> go_error) \<times> 'w jtag_conn \<times> 'w" where
  "jtag_ScanIR E c octx data bits w = jtag_scan E c octx data bits ShiftIR w"

definition jtag_ScanDR ::
  "'w go_env \<Rightarrow> 'w jtag_conn \<Rightarrow> ctx option \<Rightarrow> byte list \<Rightarrow> int \<Rightarrow> 'w \<Rightarrow>
   (byte list option \<times> go_error) \<times> 'w jtag_conn \<times> 'w" where
  "jtag_ScanDR E c octx data bits w = jtag_scan E c octx data bits ShiftDR w"

definition jtag_Idle ::
  "'w go_env \<Rightarrow> 'w jtag_conn \<Rightarrow> ctx option \<Rightarrow> int \<Rightarrow> 'w \<Rightarrow> go_error \<times> 'w jtag_conn \<times> 'w" where
  "jtag_Idle E c octx cycles w =
     (case jtag_validate E c octx w of
        (Inl e, w1) \<Rightarrow> (Some e, c, w1)
      | (Inr _, w1) \<Rightarrow>
          if cycles < 0 \<or> MaxScanBits < cycles then (Some bad_idle, c, w1)
          else if cycles = 0 then (None, c, w1)
          else
            (case jtag_Move E c octx Idle w1 of
               (Some e, c1, w2) \<Rightarrow> (Some e, c1, w2)
             | (None, c1, w2) \<Rightarrow>
                 (let zeros = replicate (bytes_for (nat cycles)) 0 in
                  case jtag_clock E c1 octx zeros zeros (nat cycles) w2 of
                    (Inl e, c2, w3) \<Rightarrow> (Some e, c2, w3)
                  | (Inr _, c2, w3) \<Rightarrow> (None, c2, w3))))"

section \<open>Buffers\<close>

lemma get_tbit: "get data i = of_bool (tbit data i)"
  by (simp add: get_def tbit_def and_one_eq bit_iff_odd_drop_bit mod_2_eq_odd)

lemma get_nonzero [simp]: "get data i \<noteq> 0 \<longleftrightarrow> tbit data i"
  by (simp add: get_tbit)

lemma put_or_bit: "put data i (of_bool v) = or_bit data i v"
  by (simp add: put_def or_bit_def)

lemma put_one: "put data i 1 = or_bit data i True"
  using put_or_bit [of data i True] by simp

lemma length_put [simp]: "length (put data i v) = length data"
  by (simp add: put_def)

lemma copy_bits_0 [simp]: "copy_bits dst d src s 0 = dst"
  by (simp add: copy_bits_def)

lemma copy_bits_Suc:
  "copy_bits dst d src s (Suc n) = or_bit (copy_bits dst d src s n) (d + n) (tbit src (s + n))"
  by (simp add: copy_bits_def get_tbit put_or_bit)

lemma length_copy_bits [simp]: "length (copy_bits dst d src s n) = length dst"
  by (induction n) (simp_all add: copy_bits_Suc)

lemma tbit_copy_bits [buf_simps]:
  "d + n \<le> 8 * length dst \<Longrightarrow>
   tbit (copy_bits dst d src s n) j =
     (if d \<le> j \<and> j < d + n then tbit dst j \<or> tbit src (s + (j - d)) else tbit dst j)"
proof (induction n)
  case 0
  then show ?case by auto
next
  case (Suc n)
  then show ?case
    by (cases "j = d + n") (auto simp: copy_bits_Suc tbit_or_bit)
qed

lemma copy_bits_zeros: "copy_bits (replicate (bytes_for n) 0) 0 src s n = pack (bslice src s (s + n))"
  by (rule buffer_eqI) (auto simp: buf_simps bytes_for_le)

lemma tms_buffer_fold:
  "k \<le> length bits \<Longrightarrow>
   (let buf = fold (\<lambda>i buf. if bits ! i then put buf i 1 else buf) [0..<k]
                (replicate (bytes_for (length bits)) 0) in
    length buf = bytes_for (length bits) \<and>
    (\<forall>j < 8 * bytes_for (length bits). tbit buf j = (j < k \<and> bits ! j)))"
proof (induction k)
  case 0
  then show ?case by simp
next
  case (Suc k)
  then have k: "k < 8 * bytes_for (length bits)" by (simp add: bytes_for_bound)
  show ?case
  proof (cases "bits ! k")
    case True
    with Suc k show ?thesis by (auto simp: Let_def put_one tbit_or_bit less_Suc_eq)
  next
    case False
    with Suc show ?thesis by (auto simp: Let_def less_Suc_eq)
  qed
qed

lemma tms_buffer_pack: "tms_buffer bits = pack bits"
  using tms_buffer_fold [of "length bits" bits]
  by (intro buffer_eqI) (auto simp: tms_buffer_def Let_def buf_simps)

lemma last_tms_pack:
  "0 < n \<Longrightarrow> put (replicate (bytes_for n) 0) (n - 1) 1 = pack (replicate (n - 1) False @ [True])"
  by (rule buffer_eqI) (auto simp: put_one buf_simps nth_append bytes_for_bound less_Suc_eq)

lemma zeros_pack: "replicate (bytes_for n) 0 = pack (replicate n False)"
  by (rule buffer_eqI) (auto simp: buf_simps)

lemma reset_tms_bslice: "bslice [31] 0 5 = [True, True, True, True, True]"
  by (simp add: bslice_def tbit_def upt_rec)

lemma track_state_run: "track_state st ms n = tap_run st (bslice ms 0 n)"
proof -
  have *: "fold (\<lambda>i s. if s \<noteq> Unknown then transitions s (get ms i \<noteq> 0) else s) is s =
      tap_run s (map (tbit ms) is)" for s and "is"
    by (induction "is" arbitrary: s) auto
  show ?thesis unfolding track_state_def bslice_def by (rule *)
qed

section \<open>What one clock call does\<close>

lemma jtag_validate_Inr:
  assumes "jtag_validate E c octx w = (Inr (ctx, W, limit), w1)"
  shows "octx = Some ctx" "jc_wire c = Some W" "0 < limit" "w1 = poll_step E w"
    "ctx_status E ctx w1 = None" "0 < jc_completionTimeout c"
  using assms by (auto simp: jtag_validate_def ctx_Err_def Let_def split: option.splits if_splits)

lemma jtag_validate_world [simp]:
  "jtag_validate E c octx w = (r, w1) \<Longrightarrow> w1 = w \<or> w1 = poll_step E w"
  by (auto simp: jtag_validate_def ctx_Err_def Let_def split: option.splits if_splits)

text \<open>
  One turn of the clock loop, as a rule: either the context ended, or the wire failed and the
  state is lost, or one chunk was clocked.
\<close>

lemma jtag_clock_loop_cases:
  assumes "jtag_clock_loop E ctx W limit tms tdi bits start out c w = (r, c', w')"
    and "start < bits" "0 < limit"
  obtains (ended) e where "r = Inl (Sentinel e)" "c' = c" "w' = poll_step E w"
  | (failed) e do x w2 n where "n = min limit (bits - start)"
      "JTAGIO W ctx (pack (bslice tms start (start + n))) (pack (bslice tdi start (start + n))) n
         (poll_step E w) = (do, x, w2)" "w' = w2"
      "r = Inl e" "c' = c\<lparr>jc_serial := jc_serial c + 1, jc_state := Unknown\<rparr>"
  | (clocked) do w2 n where "n = min limit (bits - start)"
      "JTAGIO W ctx (pack (bslice tms start (start + n))) (pack (bslice tdi start (start + n))) n
         (poll_step E w) = (do, None, w2)" "length do = bytes_for n"
      "jtag_clock_loop E ctx W limit tms tdi bits (start + n) (copy_bits out start do 0 n)
         (c\<lparr>jc_serial := jc_serial c + 1,
            jc_state := tap_run (jc_state c) (bslice tms start (start + n))\<rparr>) w2 = (r, c', w')"
proof -
  define n where "n = min limit (bits - start)"
  define io where "io = JTAGIO W ctx (pack (bslice tms start (start + n)))
     (pack (bslice tdi start (start + n))) n (poll_step E w)"
  obtain d x w2 where io: "io = (d, x, w2)" by (cases io) 
  show ?thesis
  proof (cases "ctx_status E ctx (poll_step E w)")
    case (Some e)
    with assms have "r = Inl (Sentinel e)" "c' = c" "w' = poll_step E w"
      by (auto simp: jtag_clock_loop.simps [of E ctx W limit tms tdi bits start] ctx_Err_def Let_def)
    then show ?thesis by (rule ended)
  next
    case None
    note step = assms(1) [unfolded jtag_clock_loop.simps [of E ctx W limit tms tdi bits start]
      ctx_Err_def Let_def copy_bits_zeros, folded n_def]
    show ?thesis
    proof (cases "x = None \<and> length d = bytes_for n")
      case True
      with step None assms(2,3) io
      have "jtag_clock_loop E ctx W limit tms tdi bits (start + n) (copy_bits out start d 0 n)
         (c\<lparr>jc_serial := jc_serial c + 1,
            jc_state := tap_run (jc_state c) (bslice tms start (start + n))\<rparr>) w2 = (r, c', w')"
        by (simp add: io_def track_state_run)
      then show ?thesis using True io clocked [of n d w2] by (simp add: n_def io_def)
    next
      case False
      then show ?thesis using step None assms(2,3) io failed [of n d x w2]
        by (auto simp: n_def io_def split: option.splits if_splits)
    qed
  qed
qed

text \<open>Only the serial number and the state change, and the state only with the serial number.\<close>

lemma jtag_clock_loop_frame:
  assumes "jtag_clock_loop E ctx W limit tms tdi bits start out c w = (r, c', w')" and "0 < limit"
  shows "\<exists>k s. c' = c\<lparr>jc_serial := jc_serial c + of_nat k, jc_state := s\<rparr> \<and> k \<le> bits - start \<and>
           (k = 0 \<longrightarrow> s = jc_state c)"
  using assms(1)
proof (induction "bits - start" arbitrary: start out c w rule: less_induct)
  case less
  show ?case
  proof (cases "start < bits")
    case False
    with less.prems have "c' = c" by (simp add: jtag_clock_loop.simps [of E ctx W limit tms tdi bits start])
    then have "c' = c\<lparr>jc_serial := jc_serial c + of_nat 0, jc_state := jc_state c\<rparr>" by simp
    then show ?thesis by blast
  next
    case True
    from less.prems True assms(2) show ?thesis
    proof (cases rule: jtag_clock_loop_cases)
      case (ended e)
      then have "c' = c\<lparr>jc_serial := jc_serial c + of_nat 0, jc_state := jc_state c\<rparr>" by simp
      then show ?thesis by blast
    next
      case (failed e)
      then have "c' = c\<lparr>jc_serial := jc_serial c + of_nat 1, jc_state := Unknown\<rparr>" by simp
      moreover have "1 \<le> bits - start" using True by simp
      ultimately show ?thesis by (metis zero_neq_one)
    next
      case (clocked do w2 n)
      have n: "0 < n" "start + n \<le> bits" using clocked(1) True assms(2) by auto
      then have "bits - (start + n) < bits - start" by simp
      from less.hyps [OF this clocked(4)] obtain k s where
        "c' = c\<lparr>jc_serial := jc_serial c + 1 + of_nat k, jc_state := s\<rparr>" "k \<le> bits - (start + n)"
        by auto
      then have "c' = c\<lparr>jc_serial := jc_serial c + of_nat (Suc k), jc_state := s\<rparr> \<and> Suc k \<le> bits - start"
        using n by (simp add: add.assoc)
      then show ?thesis by (metis nat.distinct(1))
    qed
  qed
qed

section \<open>Tracking the TAP controller\<close>

text \<open>
  What the documentation of \<open>Wire\<close> and \<open>Conn\<close> promises of the world: a successful call clocks
  exactly the requested TMS bits, and nothing else moves the TAP (exclusive use of the wire).
  A failed call may have clocked any prefix, so nothing is assumed of it.
\<close>

definition drives_tap :: "'w go_env \<Rightarrow> 'w jtag_wire \<Rightarrow> ('w \<Rightarrow> State) \<Rightarrow> bool" where
  "drives_tap E W tap \<longleftrightarrow>
     (\<forall>w. tap w \<noteq> Unknown) \<and> (\<forall>w. tap (poll_step E w) = tap w) \<and>
     (\<forall>ctx ms di n w do w'. JTAGIO W ctx ms di n w = (do, None, w') \<longrightarrow>
        tap w' = tap_run (tap w) (bslice ms 0 n))"

definition tracks :: "('w \<Rightarrow> State) \<Rightarrow> 'w jtag_conn \<Rightarrow> 'w \<Rightarrow> bool" where
  "tracks tap c w \<longleftrightarrow> jc_state c = Unknown \<or> jc_state c = tap w"

lemma drives_tapD:
  assumes "drives_tap E W tap"
  shows "tap w \<noteq> Unknown" "tap (poll_step E w) = tap w"
    "JTAGIO W ctx ms di n w = (do, None, w') \<Longrightarrow> tap w' = tap_run (tap w) (bslice ms 0 n)"
  using assms unfolding drives_tap_def by blast+

lemma jtag_clock_loop_tap:
  assumes "jtag_clock_loop E ctx W limit tms tdi bits start out c w = (r, c', w')"
    and "0 < limit" and drives: "drives_tap E W tap" and "start \<le> bits"
  shows "(tracks tap c w \<longrightarrow> tracks tap c' w') \<and>
    (isl r \<or> tap w' = tap_run (tap w) (bslice tms start bits) \<and>
      jc_state c' = tap_run (jc_state c) (bslice tms start bits))"
  using assms(1,4)
proof (induction "bits - start" arbitrary: start out c w rule: less_induct)
  case less
  show ?case
  proof (cases "start < bits")
    case False
    with less.prems show ?thesis
      by (auto simp: jtag_clock_loop.simps [of E ctx W limit tms tdi bits start])
  next
    case True
    from less.prems(1) True assms(2) show ?thesis
    proof (cases rule: jtag_clock_loop_cases)
      case (ended e)
      with drives show ?thesis by (simp add: tracks_def drives_tapD)
    next
      case (failed e)
      then show ?thesis by (simp add: tracks_def)
    next
      case (clocked do w2 n)
      have n: "0 < n" "start + n \<le> bits" using clocked(1) True assms(2) by auto
      then have "bits - (start + n) < bits - start" by simp
      note IH = less.hyps [OF this clocked(4) n(2)]
      have tap2: "tap w2 = tap_run (tap w) (bslice tms start (start + n))"
        using drives_tapD(2,3) [OF drives] clocked(2) by simp
      have split: "bslice tms start bits = bslice tms start (start + n) @ bslice tms (start + n) bits"
        using n by (simp add: bslice_append)
      from IH tap2 show ?thesis
        by (auto simp: tracks_def split)
    qed
  qed
qed

lemma jtag_clock_tap:
  assumes "jtag_clock E c octx tms tdi bits w = (r, c', w')"
    and "jc_wire c = Some W" and "drives_tap E W tap"
  shows "(tracks tap c w \<longrightarrow> tracks tap c' w') \<and>
    (isl r \<or> tap w' = tap_run (tap w) (bslice tms 0 bits) \<and>
      jc_state c' = tap_run (jc_state c) (bslice tms 0 bits))"
proof (cases "jtag_validate E c octx w")
  case (Pair v w1)
  have tap1: "tap w1 = tap w"
    using jtag_validate_world [OF Pair] drives_tapD(2) [OF assms(3)] by auto
  show ?thesis
  proof (cases v)
    case (Inl e)
    with Pair assms(1) tap1 show ?thesis by (auto simp: jtag_clock_def tracks_def)
  next
    case (Inr x)
    obtain ctx V limit where x: "x = (ctx, V, limit)" by (cases x)
    note valid = jtag_validate_Inr [OF Pair [unfolded Inr x]]
    with assms(2) have "V = W" by simp
    with assms(1) Pair Inr x have
      "jtag_clock_loop E ctx W limit tms tdi bits 0 (replicate (bytes_for bits) 0) c w1 = (r, c', w')"
      by (simp add: jtag_clock_def)
    from jtag_clock_loop_tap [OF this valid(3) assms(3)] tap1 show ?thesis
      by (simp add: tracks_def)
  qed
qed

lemma jtag_clock_frame:
  assumes "jtag_clock E c octx tms tdi bits w = (r, c', w')"
  shows "\<exists>k s. c' = c\<lparr>jc_serial := jc_serial c + of_nat k, jc_state := s\<rparr> \<and> k \<le> bits \<and>
           (k = 0 \<longrightarrow> s = jc_state c)"
proof (cases "jtag_validate E c octx w")
  case (Pair v w1)
  show ?thesis
  proof (cases v)
    case (Inl e)
    with Pair assms have "c' = c\<lparr>jc_serial := jc_serial c + of_nat 0, jc_state := jc_state c\<rparr>"
      by (simp add: jtag_clock_def)
    then show ?thesis by blast
  next
    case (Inr x)
    obtain ctx W limit where x: "x = (ctx, W, limit)" by (cases x)
    note valid = jtag_validate_Inr [OF Pair [unfolded Inr x]]
    from assms Pair Inr x have
      "jtag_clock_loop E ctx W limit tms tdi bits 0 (replicate (bytes_for bits) 0) c w1 = (r, c', w')"
      by (simp add: jtag_clock_def)
    from jtag_clock_loop_frame [OF this valid(3)] show ?thesis by simp
  qed
qed

text \<open>
  The relation of a connection to its successor that every operation keeps: same wire, same
  budget, and no change of state without a change of the serial number (up to \<open>2 ^ 64\<close> calls).
\<close>

definition conn_frame :: "'w jtag_conn \<Rightarrow> 'w jtag_conn \<Rightarrow> bool" where
  "conn_frame c c' \<longleftrightarrow> jc_wire c' = jc_wire c \<and> jc_completionTimeout c' = jc_completionTimeout c"

lemma conn_frame_refl [simp]: "conn_frame c c"
  by (simp add: conn_frame_def)

lemma conn_frame_trans: "conn_frame a b \<Longrightarrow> conn_frame b c \<Longrightarrow> conn_frame a c"
  by (simp add: conn_frame_def)

lemma conn_frame_state [simp]: "conn_frame c (c'\<lparr>jc_state := s\<rparr>) = conn_frame c c'"
  by (simp add: conn_frame_def)

lemma jtag_clock_conn_frame: "jtag_clock E c octx tms tdi bits w = (r, c', w') \<Longrightarrow> conn_frame c c'"
  using jtag_clock_frame by (fastforce simp: conn_frame_def)

lemma jtag_Reset_frame: "jtag_Reset E c octx w = (e, c', w') \<Longrightarrow> conn_frame c c'"
  by (auto simp: jtag_Reset_def dest!: jtag_clock_conn_frame split: prod.splits sum.splits)

lemma jtag_Move_frame: "jtag_Move E c octx t w = (e, c', w') \<Longrightarrow> conn_frame c c'"
  by (auto simp: jtag_Move_def Let_def dest!: jtag_clock_conn_frame split: prod.splits sum.splits if_splits)

lemma jtag_scan_body_frame:
  "jtag_scan_body E c cctx data bits shift w = (r, c', w') \<Longrightarrow> conn_frame c c'"
  by (auto simp: jtag_scan_body_def dest!: jtag_clock_conn_frame jtag_Move_frame
      split: prod.splits sum.splits option.splits intro: conn_frame_trans)

lemma jtag_finishScan_frame: "jtag_finishScan E c ctx n e w = (e', c', w') \<Longrightarrow> conn_frame c c'"
  by (auto simp: jtag_finishScan_def Let_def split: prod.splits)

lemma jtag_scan_frame: "jtag_scan E c octx data bits shift w = (r, c', w') \<Longrightarrow> conn_frame c c'"
  by (auto simp: jtag_scan_def Let_def dest!: jtag_scan_body_frame jtag_finishScan_frame
      split: prod.splits sum.splits if_splits intro: conn_frame_trans)

lemma jtag_Idle_frame: "jtag_Idle E c octx n w = (e, c', w') \<Longrightarrow> conn_frame c c'"
  by (auto simp: jtag_Idle_def Let_def dest!: jtag_clock_conn_frame jtag_Move_frame
      split: prod.splits sum.splits option.splits if_splits intro: conn_frame_trans)

text \<open>Without any assumption on the wire, a completed clock has moved the tracked state by its TMS bits.\<close>

lemma jtag_clock_loop_state:
  assumes "jtag_clock_loop E ctx W limit tms tdi bits start out c w = (Inr out', c', w')"
    and "0 < limit" and "start \<le> bits"
  shows "jc_state c' = tap_run (jc_state c) (bslice tms start bits)"
  using assms(1,3)
proof (induction "bits - start" arbitrary: start out c w rule: less_induct)
  case less
  show ?case
  proof (cases "start < bits")
    case False
    with less.prems show ?thesis
      by (auto simp: jtag_clock_loop.simps [of E ctx W limit tms tdi bits start])
  next
    case True
    from less.prems(1) True assms(2) show ?thesis
    proof (cases rule: jtag_clock_loop_cases)
      case (clocked do w2 n)
      have n: "0 < n" "start + n \<le> bits" using clocked(1) True assms(2) by auto
      then have "bits - (start + n) < bits - start" by simp
      from less.hyps [OF this clocked(4) n(2)] n show ?thesis
        by (simp flip: bslice_append [of start "start + n" bits])
    qed simp_all
  qed
qed

text \<open>The wire of a connection drives the TAP, when it has one.\<close>

definition conn_drives :: "'w go_env \<Rightarrow> 'w jtag_conn \<Rightarrow> ('w \<Rightarrow> State) \<Rightarrow> bool" where
  "conn_drives E c tap \<longleftrightarrow> (\<forall>W. jc_wire c = Some W \<longrightarrow> drives_tap E W tap) \<and>
     (\<forall>w. tap (poll_step E w) = tap w) \<and> (\<forall>w. tap w \<noteq> Unknown)"

lemma conn_drives_frame: "conn_frame c c' \<Longrightarrow> conn_drives E c tap \<Longrightarrow> conn_drives E c' tap"
  by (simp add: conn_frame_def conn_drives_def)

lemma conn_drives_poll: "conn_drives E c tap \<Longrightarrow> tap (poll_step E w) = tap w"
  by (simp add: conn_drives_def)

lemma jtag_validate_tap:
  "jtag_validate E c octx w = (r, w1) \<Longrightarrow> conn_drives E c tap \<Longrightarrow> tap w1 = tap w"
  using jtag_validate_world conn_drives_poll by metis

lemma join_cause_tap: "join_cause E ctx e w = (r, w1) \<Longrightarrow> conn_drives E c tap \<Longrightarrow> tap w1 = tap w"
  using join_cause_world conn_drives_poll by metis

lemma jtag_clock_tracks:
  assumes "jtag_clock E c octx tms tdi bits w = (r, c', w')" and "conn_drives E c tap"
  shows "tracks tap c w \<Longrightarrow> tracks tap c' w'"
    and "\<not> isl r \<Longrightarrow> tap w' = tap_run (tap w) (bslice tms 0 bits) \<and>
           jc_state c' = tap_run (jc_state c) (bslice tms 0 bits)"
proof -
  have "(tracks tap c w \<longrightarrow> tracks tap c' w') \<and>
    (isl r \<or> tap w' = tap_run (tap w) (bslice tms 0 bits) \<and>
      jc_state c' = tap_run (jc_state c) (bslice tms 0 bits))"
  proof (cases "jc_wire c")
    case None
    moreover obtain v w1 where v: "jtag_validate E c octx w = (v, w1)" by fastforce
    moreover have "isl v" using None v jtag_validate_Inr(2) by (cases v) fastforce+
    ultimately show ?thesis using assms jtag_validate_tap [OF v assms(2)]
      by (auto simp: jtag_clock_def tracks_def split: sum.splits)
  next
    case (Some W)
    with assms show ?thesis by (intro jtag_clock_tap) (auto simp: conn_drives_def)
  qed
  then show "tracks tap c w \<Longrightarrow> tracks tap c' w'"
    and "\<not> isl r \<Longrightarrow> tap w' = tap_run (tap w) (bslice tms 0 bits) \<and>
           jc_state c' = tap_run (jc_state c) (bslice tms 0 bits)" by auto
qed

lemma jtag_Reset_tracks:
  assumes "jtag_Reset E c octx w = (e, c', w')" and drives: "conn_drives E c tap"
    and "tracks tap c w"
  shows "tracks tap c' w'" and "e = None \<Longrightarrow> jc_state c' = Reset \<and> tap w' = Reset"
proof -
  have "tracks tap c' w' \<and> (e = None \<longrightarrow> jc_state c' = Reset \<and> tap w' = Reset)"
  proof (cases "jtag_validate E c octx w")
    case (Pair v w1)
    have t1: "tracks tap c w1"
      using assms(3) jtag_validate_tap [OF Pair drives] by (simp add: tracks_def)
    obtain r c1 w2 where clk: "jtag_clock E c octx [31] [0] 5 w1 = (r, c1, w2)" by (metis prod_cases3)
    have "tap w1 \<noteq> Unknown" using drives by (simp add: conn_drives_def)
    then have high: "\<not> isl r \<Longrightarrow> tap w2 = Reset"
      using jtag_clock_tracks(2) [OF clk drives] five_high_clocks_reset by (simp add: reset_tms_bslice)
    from Pair assms(1) clk t1 jtag_clock_tracks(1) [OF clk drives t1] high show ?thesis
      by (auto simp: jtag_Reset_def tracks_def split: sum.splits)
  qed
  then show "tracks tap c' w'" and "e = None \<Longrightarrow> jc_state c' = Reset \<and> tap w' = Reset" by blast+
qed

lemma jtag_Move_tracks:
  assumes "jtag_Move E c octx t w = (e, c', w')" and drives: "conn_drives E c tap"
    and "tracks tap c w"
  shows "tracks tap c' w'"
proof (cases "jtag_validate E c octx w")
  case (Pair v w1)
  have t1: "tracks tap c w1"
    using assms(3) jtag_validate_tap [OF Pair drives] by (simp add: tracks_def)
  from Pair assms(1) t1 show ?thesis
    by (auto simp: jtag_Move_def Let_def dest: jtag_clock_tracks(1) [OF _ drives]
        split: sum.splits if_splits prod.splits)
qed

lemma jtag_Move_arrives:
  assumes "jtag_Move E c octx t w = (None, c', w')"
  shows "jc_state c' = t" and "t \<noteq> Unknown" and "jc_state c \<noteq> Unknown"
proof -
  have known: "t \<noteq> Unknown \<and> jc_state c \<noteq> Unknown"
    using assms by (auto simp: jtag_Move_def split: prod.splits sum.splits if_splits)
  then show "t \<noteq> Unknown" "jc_state c \<noteq> Unknown" by auto
  obtain v w1 where v: "jtag_validate E c octx w = (v, w1)" by fastforce
  let ?p = "path (jc_state c) t"
  from assms known v obtain out where
    clk: "jtag_clock E c octx (tms_buffer ?p) (replicate (length (tms_buffer ?p)) 0) (length ?p) w1
       = (Inr out, c', w')"
    by (auto simp: jtag_Move_def Let_def split: sum.splits prod.splits)
  then obtain ctx W limit w2 where
    "jtag_validate E c octx w1 = (Inr (ctx, W, limit), w2)" and
    loop: "jtag_clock_loop E ctx W limit (tms_buffer ?p) (replicate (length (tms_buffer ?p)) 0) (length ?p) 0
       (replicate (bytes_for (length ?p)) 0) c w2 = (Inr out, c', w')"
    by (auto simp: jtag_clock_def split: sum.splits prod.splits)
  then have "0 < limit" by (metis jtag_validate_Inr(3))
  have "jc_state c' = tap_run (jc_state c) (bslice (tms_buffer ?p) 0 (length ?p))"
    using jtag_clock_loop_state [OF loop \<open>0 < limit\<close>] by simp
  with known show "jc_state c' = t" by (simp add: tms_buffer_pack path_leads)
qed

lemma jtag_clock_loop_length:
  assumes "jtag_clock_loop E ctx W limit tms tdi bits start out c w = (Inr out', c', w')"
    and "0 < limit"
  shows "length out' = length out"
  using assms(1)
proof (induction "bits - start" arbitrary: start out c w rule: less_induct)
  case less
  show ?case
  proof (cases "start < bits")
    case False
    with less.prems show ?thesis
      by (auto simp: jtag_clock_loop.simps [of E ctx W limit tms tdi bits start])
  next
    case True
    from less.prems(1) True assms(2) show ?thesis
    proof (cases rule: jtag_clock_loop_cases)
      case (clocked do w2 n)
      then have "bits - (start + n) < bits - start" using True assms(2) by auto
      from less.hyps [OF this clocked(4)] show ?thesis by simp
    qed simp_all
  qed
qed

lemma jtag_clock_length:
  assumes "jtag_clock E c octx tms tdi bits w = (Inr out, c', w')"
  shows "length out = bytes_for bits"
proof -
  from assms obtain ctx W limit w1 where "jtag_validate E c octx w = (Inr (ctx, W, limit), w1)"
    and "jtag_clock_loop E ctx W limit tms tdi bits 0 (replicate (bytes_for bits) 0) c w1 = (Inr out, c', w')"
    by (auto simp: jtag_clock_def split: sum.splits prod.splits)
  then show ?thesis using jtag_clock_loop_length jtag_validate_Inr(3) by fastforce
qed

text \<open>A scan body that completes parks the TAP in Idle and has sampled the requested bits.\<close>

lemma jtag_scan_body_Inr:
  assumes "jtag_scan_body E c cctx data bits shift w = (Inr out, c', w')"
  shows "jc_state c' = Idle" and "length out = bytes_for bits" and "jc_state c \<noteq> Unknown"
  using assms
  by (auto simp: jtag_scan_body_def dest: jtag_Move_arrives jtag_clock_length
      split: sum.splits prod.splits option.splits)

lemma jtag_scan_body_tracks:
  assumes "jtag_scan_body E c cctx data bits shift w = (r, c', w')" and "conn_drives E c tap"
    and "tracks tap c w"
  shows "tracks tap c' w'"
proof -
  obtain e1 c1 w1 where m1: "jtag_Move E c (Some cctx) Idle w = (e1, c1, w1)" by (metis prod_cases3)
  note d1 = conn_drives_frame [OF jtag_Move_frame [OF m1] assms(2)]
  note t1 = jtag_Move_tracks [OF m1 assms(2,3)]
  obtain e2 c2 w2 where m2: "jtag_Move E c1 (Some cctx) shift w1 = (e2, c2, w2)" by (metis prod_cases3)
  note d2 = conn_drives_frame [OF jtag_Move_frame [OF m2] d1]
  note t2 = jtag_Move_tracks [OF m2 d1 t1]
  obtain r3 c3 w3 where m3: "jtag_clock E c2 (Some cctx)
      (put (replicate (bytes_for bits) 0) (bits - 1) 1) data bits w2 = (r3, c3, w3)" by (metis prod_cases3)
  note d3 = conn_drives_frame [OF jtag_clock_conn_frame [OF m3] d2]
  note t3 = jtag_clock_tracks(1) [OF m3 d2 t2]
  obtain e4 c4 w4 where m4: "jtag_Move E c3 (Some cctx) Idle w3 = (e4, c4, w4)" by (metis prod_cases3)
  note t4 = jtag_Move_tracks [OF m4 d3 t3]
  from assms(1) m1 m2 m3 m4 t1 t2 t3 t4 show ?thesis
    by (auto simp: jtag_scan_body_def split: option.splits sum.splits)
qed

lemma jtag_finishScan_tracks:
  assumes "jtag_finishScan E c ctx n e w = (e', c', w')" and "conn_drives E c tap" and "tracks tap c w"
  shows "tracks tap c' w'"
  using assms join_cause_tap [OF _ assms(2)]
  by (auto simp: jtag_finishScan_def Let_def tracks_def split: prod.splits if_splits)

lemma jtag_scan_tracks:
  assumes "jtag_scan E c octx data bits shift w = (r, c', w')" and "conn_drives E c tap"
    and "tracks tap c w"
  shows "tracks tap c' w'"
proof -
  obtain v w1 where v: "jtag_validate E c octx w = (v, w1)" by fastforce
  have t1: "tracks tap c w1"
    using assms(3) jtag_validate_tap [OF v assms(2)] by (simp add: tracks_def)
  have step: "tracks tap c2 w3"
    if "jtag_scan_body E c cctx data n shift w1 = (r1, c1, w2)"
      and "jtag_finishScan E c1 ctx k e w2 = (e1, c2, w3)" for cctx n r1 c1 w2 ctx k e e1 c2 w3
    using jtag_finishScan_tracks [OF that(2) conn_drives_frame [OF jtag_scan_body_frame [OF that(1)] assms(2)]
        jtag_scan_body_tracks [OF that(1) assms(2) t1]] .
  from assms(1) v t1 step show ?thesis
    by (auto simp: jtag_scan_def Let_def split: sum.splits prod.splits if_splits)
qed

lemma jtag_Idle_tracks:
  assumes "jtag_Idle E c octx n w = (e, c', w')" and "conn_drives E c tap" and "tracks tap c w"
  shows "tracks tap c' w'"
proof -
  obtain v w1 where v: "jtag_validate E c octx w = (v, w1)" by fastforce
  have t1: "tracks tap c w1"
    using assms(3) jtag_validate_tap [OF v assms(2)] by (simp add: tracks_def)
  have step: "tracks tap c2 w3"
    if "jtag_Move E c octx Idle w1 = (e1, c1, w2)" and "jtag_clock E c1 octx a b k w2 = (r, c2, w3)"
    for e1 c1 w2 a b k r c2 w3
    using jtag_clock_tracks(1) [OF that(2) conn_drives_frame [OF jtag_Move_frame [OF that(1)] assms(2)]
        jtag_Move_tracks [OF that(1) assms(2) t1]] .
  from assms(1) v t1 step show ?thesis
    by (auto simp: jtag_Idle_def Let_def dest: jtag_Move_tracks [OF _ assms(2)]
        split: sum.splits prod.splits if_splits option.splits)
qed

text \<open>
  The contract of \<open>ScanIR\<close> and \<open>ScanDR\<close>: a capture is returned exactly when the shift and the
  exit completed, and then the TAP is in Idle; a missing capture comes with an error.
\<close>

lemma jtag_scan_capture:
  assumes "jtag_scan E c octx data bits shift w = ((Some out, e), c', w')"
  shows "jc_state c' = Idle" and "length out = bytes_for (nat bits)" and "0 < bits"
    and "jc_state c \<noteq> Unknown"
  using assms
  by (auto simp: jtag_scan_def jtag_finishScan_def Let_def dest: jtag_scan_body_Inr
      split: sum.splits prod.splits if_splits)

lemma jtag_scan_no_capture:
  assumes "jtag_scan E c octx data bits shift w = ((None, e), c', w')"
  shows "e \<noteq> None" and "jc_serial c' \<noteq> jc_serial c \<Longrightarrow> jc_state c' = Unknown"
  using assms
  by (auto simp: jtag_scan_def jtag_finishScan_def Let_def join_cause_def errors_Join_def ctx_Err_def
      split: sum.splits prod.splits if_splits option.splits)

section \<open>Chunked clocking against a bit-serial device\<close>

text \<open>
  The documented wire, bit by bit: \<open>step w tms tdi\<close> is one TCK cycle, its result the sampled TDO
  and the next world. A wire call is the run of its bits in order.
\<close>

primrec serial_run ::
  "('w \<Rightarrow> bool \<Rightarrow> bool \<Rightarrow> bool \<times> 'w) \<Rightarrow> 'w \<Rightarrow> (bool \<times> bool) list \<Rightarrow> bool list \<times> 'w" where
  "serial_run step w [] = ([], w)"
| "serial_run step w (x # xs) =
     (case step w (fst x) (snd x) of (tdo, w1) \<Rightarrow>
        (case serial_run step w1 xs of (tdos, w2) \<Rightarrow> (tdo # tdos, w2)))"

definition serial_wire :: "'w jtag_wire \<Rightarrow> ('w \<Rightarrow> bool \<Rightarrow> bool \<Rightarrow> bool \<times> 'w) \<Rightarrow> bool" where
  "serial_wire W step \<longleftrightarrow> (\<forall>ctx ms di n w. length ms = bytes_for n \<and> length di = bytes_for n \<longrightarrow>
     JTAGIO W ctx ms di n w =
       (case serial_run step w (zip (bslice ms 0 n) (bslice di 0 n)) of
          (tdos, w') \<Rightarrow> (pack tdos, None, w')))"

lemma serial_run_append:
  "serial_run step w (xs @ ys) =
     (case serial_run step w xs of (a, w1) \<Rightarrow> (case serial_run step w1 ys of (b, w2) \<Rightarrow> (a @ b, w2)))"
  by (induction xs arbitrary: w) (auto split: prod.splits)

lemma serial_run_length: "serial_run step w xs = (os, w') \<Longrightarrow> length os = length xs"
  by (induction xs arbitrary: w os) (auto split: prod.splits)

lemma copy_bits_pack:
  assumes "length pre = start" "length os = n" "start + n \<le> bits"
  shows "copy_bits (pack (pre @ replicate (bits - start) False)) start (pack os) 0 n =
    pack (pre @ os @ replicate (bits - (start + n)) False)"
proof (rule buffer_eqI)
  show "length (copy_bits (pack (pre @ replicate (bits - start) False)) start (pack os) 0 n) =
    length (pack (pre @ os @ replicate (bits - (start + n)) False))"
    using assms by simp
next
  fix i assume "i < 8 * length (pack (pre @ os @ replicate (bits - (start + n)) False))"
  then have i: "i < 8 * bytes_for bits" using assms by simp
  have le: "start + n \<le> 8 * bytes_for bits" using assms(3) bytes_for_le(1) [of bits] by simp
  show "tbit (copy_bits (pack (pre @ replicate (bits - start) False)) start (pack os) 0 n) i =
    tbit (pack (pre @ os @ replicate (bits - (start + n)) False)) i"
    using assms i le
    by (auto simp: tbit_copy_bits tbit_pack nth_append)
qed

lemma jtag_clock_loop_serial:
  assumes W: "serial_wire W step" and "live E ctx" and "0 < limit"
    and "start \<le> bits" and "length pre = start"
    and run: "serial_run step w (zip (bslice tms start bits) (bslice tdi start bits)) = (os, w')"
  shows "\<exists>k. jtag_clock_loop E ctx W limit tms tdi bits start
      (pack (pre @ replicate (bits - start) False)) c w =
    (Inr (pack (pre @ os)),
     c\<lparr>jc_serial := jc_serial c + of_nat k, jc_state := tap_run (jc_state c) (bslice tms start bits)\<rparr>, w')"
  using assms(4-)
proof (induction "bits - start" arbitrary: start pre c w os rule: less_induct)
  case less
  show ?case
  proof (cases "start < bits")
    case False
    with less.prems have "jtag_clock_loop E ctx W limit tms tdi bits start
      (pack (pre @ replicate (bits - start) False)) c w =
      (Inr (pack (pre @ os)), c\<lparr>jc_serial := jc_serial c + of_nat 0, jc_state := tap_run (jc_state c) (bslice tms start bits)\<rparr>, w')"
      by (subst jtag_clock_loop.simps) simp
    then show ?thesis by blast
  next
    case True
    define n where "n = min limit (bits - start)"
    have n: "0 < n" "start + n \<le> bits" using True assms(3) by (auto simp: n_def)
    have split: "bslice buf start bits = bslice buf start (start + n) @ bslice buf (start + n) bits" for buf
      using n by (simp add: bslice_append)
    obtain os1 w1 where r1:
      "serial_run step w (zip (bslice tms start (start + n)) (bslice tdi start (start + n))) = (os1, w1)"
      by fastforce
    obtain os2 w2 where r2:
      "serial_run step w1 (zip (bslice tms (start + n) bits) (bslice tdi (start + n) bits)) = (os2, w2)"
      by fastforce
    from less.prems(3) r1 r2 have os: "os = os1 @ os2" "w' = w2"
      by (auto simp: split serial_run_append split: prod.splits)
    have len1: "length os1 = n" using serial_run_length [OF r1] n by simp
    have io: "JTAGIO W ctx (pack (bslice tms start (start + n))) (pack (bslice tdi start (start + n))) n w
        = (pack os1, None, w1)"
      using W r1 n by (simp add: serial_wire_def)
    have "bits - (start + n) < bits - start" using n by simp
    from less.hyps [OF this, of "pre @ os1" w1 os2
        "c\<lparr>jc_serial := jc_serial c + 1, jc_state := tap_run (jc_state c) (bslice tms start (start + n))\<rparr>"]
    obtain k where IH:
      "jtag_clock_loop E ctx W limit tms tdi bits (start + n)
         (pack ((pre @ os1) @ replicate (bits - (start + n)) False))
         (c\<lparr>jc_serial := jc_serial c + 1, jc_state := tap_run (jc_state c) (bslice tms start (start + n))\<rparr>) w1 =
       (Inr (pack ((pre @ os1) @ os2)),
        c\<lparr>jc_serial := jc_serial c + 1 + of_nat k,
           jc_state := tap_run (tap_run (jc_state c) (bslice tms start (start + n))) (bslice tms (start + n) bits)\<rparr>, w')"
      using n less.prems len1 r2 os by auto
    have "jtag_clock_loop E ctx W limit tms tdi bits start (pack (pre @ replicate (bits - start) False)) c w =
       (Inr (pack (pre @ os)),
        c\<lparr>jc_serial := jc_serial c + of_nat (Suc k), jc_state := tap_run (jc_state c) (bslice tms start bits)\<rparr>, w')"
      using True assms(2,3) IH io len1 n less.prems(2)
      by (simp add: jtag_clock_loop.simps [of E ctx W limit tms tdi bits start] ctx_Err_def live_def
          copy_bits_zeros copy_bits_pack track_state_run os split n_def [symmetric] add.assoc)
    then show ?thesis by blast
  qed
qed


definition usable :: "'w jtag_conn \<Rightarrow> 'w jtag_wire \<Rightarrow> bool" where
  "usable c W \<longleftrightarrow> jc_wire c = Some W \<and> 0 < jc_completionTimeout c \<and>
     (\<forall>f. MaxTransferBits W = Some f \<longrightarrow> (\<forall>w. 0 < f w))"

lemma usable_frame: "conn_frame c c' \<Longrightarrow> usable c W \<Longrightarrow> usable c' W"
  by (simp add: conn_frame_def usable_def)

lemma jtag_validate_usable:
  assumes "usable c W" "live E ctx"
  obtains limit where "jtag_validate E c (Some ctx) w = (Inr (ctx, W, limit), w)" "0 < limit"
proof (cases "MaxTransferBits W")
  case None
  with assms that [of 4096] show ?thesis
    by (simp add: jtag_validate_def usable_def live_def ctx_Err_def)
next
  case (Some f)
  with assms have "0 < f w" by (simp add: usable_def)
  with Some assms that [of "nat (f w)"] show ?thesis
    by (simp add: jtag_validate_def usable_def live_def ctx_Err_def)
qed

lemma jtag_clock_serial:
  assumes "serial_wire W step" and "usable c W" and "live E ctx"
    and "serial_run step w (zip (bslice tms 0 bits) (bslice tdi 0 bits)) = (os, w')"
  shows "\<exists>k. jtag_clock E c (Some ctx) tms tdi bits w =
    (Inr (pack os),
     c\<lparr>jc_serial := jc_serial c + of_nat k, jc_state := tap_run (jc_state c) (bslice tms 0 bits)\<rparr>, w')"
proof -
  from assms(2,3) obtain limit where
    "jtag_validate E c (Some ctx) w = (Inr (ctx, W, limit), w)" "0 < limit"
    by (rule jtag_validate_usable)
  then show ?thesis
    using jtag_clock_loop_serial [OF assms(1,3), of limit 0 bits "[]" w tms tdi os w' c] assms(4)
    by (simp add: jtag_clock_def zeros_pack)
qed

lemma zip_pack_zeros:
  "zip bs (bslice (replicate (bytes_for (length bs)) 0) 0 (length bs)) = map (\<lambda>b. (b, False)) bs"
  by (rule nth_equalityI) simp_all

lemma jtag_Move_serial:
  assumes "serial_wire W step" and "usable c W" and "live E ctx"
    and "jc_state c \<noteq> Unknown" and "t \<noteq> Unknown"
    and "serial_run step w (map (\<lambda>b. (b, False)) (path (jc_state c) t)) = (os, w')"
  shows "\<exists>k. jtag_Move E c (Some ctx) t w =
    (None, c\<lparr>jc_serial := jc_serial c + of_nat k, jc_state := t\<rparr>, w')"
proof -
  let ?p = "path (jc_state c) t"
  from assms(2,3) obtain limit where
    v: "jtag_validate E c (Some ctx) w = (Inr (ctx, W, limit), w)"
    by (rule jtag_validate_usable)
  have "serial_run step w (zip (bslice (pack ?p) 0 (length ?p))
      (bslice (replicate (length (pack ?p)) 0) 0 (length ?p))) = (os, w')"
    using assms(6) by (simp add: zip_pack_zeros)
  from jtag_clock_serial [OF assms(1-3) this] obtain k where
    "jtag_clock E c (Some ctx) (pack ?p) (replicate (length (pack ?p)) 0) (length ?p) w =
      (Inr (pack os), c\<lparr>jc_serial := jc_serial c + of_nat k, jc_state := t\<rparr>, w')"
    using assms(4,5) by (auto simp: path_leads)
  with v assms(4,5) show ?thesis by (auto simp: jtag_Move_def tms_buffer_pack)
qed

lemma exit_path [simp]: "path Exit1DR Idle = [True, False]" "path Exit1IR Idle = [True, False]"
  by code_simp+

lemma jtag_scan_body_serial:
  assumes W: "serial_wire W step" and use: "usable c W" and live: "live E cctx"
    and known: "jc_state c \<noteq> Unknown" and shift: "shift = ShiftDR \<or> shift = ShiftIR" and "0 < bits"
    and r0: "serial_run step w (map (\<lambda>b. (b, False)) (path (jc_state c) Idle @ path Idle shift)) = (os0, w1)"
    and r1: "serial_run step w1 (zip (replicate (bits - 1) False @ [True]) (bslice data 0 bits)) = (os, w2)"
    and r2: "serial_run step w2 [(True, False), (False, False)] = (os2, w3)"
  shows "\<exists>n. jtag_scan_body E c cctx data bits shift w =
    (Inr (pack os), c\<lparr>jc_serial := n, jc_state := Idle\<rparr>, w3)"
proof -
  obtain oa wa where ra: "serial_run step w (map (\<lambda>b. (b, False)) (path (jc_state c) Idle)) = (oa, wa)"
    by fastforce
  obtain ob wb where rb: "serial_run step wa (map (\<lambda>b. (b, False)) (path Idle shift)) = (ob, wb)"
    by fastforce
  have wb: "wb = w1" using r0 ra rb by (simp add: serial_run_append)
  from jtag_Move_serial [OF W use live known _ ra] obtain ka where
    m1: "jtag_Move E c (Some cctx) Idle w = (None, c\<lparr>jc_serial := jc_serial c + of_nat ka, jc_state := Idle\<rparr>, wa)"
    by auto
  define c1 where "c1 = c\<lparr>jc_serial := jc_serial c + of_nat ka, jc_state := Idle\<rparr>"
  have u1: "usable c1 W" "jc_state c1 = Idle" using use by (simp_all add: c1_def usable_def)
  from jtag_Move_serial [OF W u1(1) live, of shift wa ob wb] u1 rb shift obtain kb where
    m2: "jtag_Move E c1 (Some cctx) shift wa = (None, c1\<lparr>jc_serial := jc_serial c1 + of_nat kb, jc_state := shift\<rparr>, w1)"
    by (auto simp: wb)
  define c2 where "c2 = c1\<lparr>jc_serial := jc_serial c1 + of_nat kb, jc_state := shift\<rparr>"
  have u2: "usable c2 W" "jc_state c2 = shift" using u1 by (simp_all add: c2_def usable_def)
  let ?tms = "pack (replicate (bits - 1) False @ [True])"
  have sl: "bslice ?tms 0 bits = replicate (bits - 1) False @ [True]"
    using \<open>0 < bits\<close> by (intro bslice_pack) simp
  from jtag_clock_serial [OF W u2(1) live, of w1 ?tms bits data os w2] r1 sl obtain kc where
    m3: "jtag_clock E c2 (Some cctx) ?tms data bits w1 = (Inr (pack os),
      c2\<lparr>jc_serial := jc_serial c2 + of_nat kc, jc_state := tap_run shift (replicate (bits - 1) False @ [True])\<rparr>, w2)"
    by (auto simp: u2)
  define c3 where "c3 = c2\<lparr>jc_serial := jc_serial c2 + of_nat kc,
    jc_state := tap_run shift (replicate (bits - 1) False @ [True])\<rparr>"
  have u3: "usable c3 W" using u2 by (simp add: c3_def usable_def)
  have s3: "jc_state c3 \<noteq> Unknown" "path (jc_state c3) Idle = [True, False]"
    using shift \<open>0 < bits\<close> by (auto simp: c3_def)
  from jtag_Move_serial [OF W u3 live s3(1), of Idle w2 os2 w3] r2 s3(2) obtain kd where
    m4: "jtag_Move E c3 (Some cctx) Idle w2 = (None, c3\<lparr>jc_serial := jc_serial c3 + of_nat kd, jc_state := Idle\<rparr>, w3)"
    by auto
  have "jtag_scan_body E c cctx data bits shift w =
      (Inr (pack os), c3\<lparr>jc_serial := jc_serial c3 + of_nat kd, jc_state := Idle\<rparr>, w3)"
    using m1 m2 m3 m4
    unfolding jtag_scan_body_def last_tms_pack [OF \<open>0 < bits\<close>]
      c1_def [symmetric] c2_def [symmetric] c3_def [symmetric]
    by (simp del: One_nat_def)
  moreover have "c3\<lparr>jc_serial := jc_serial c3 + of_nat kd, jc_state := Idle\<rparr> =
      c\<lparr>jc_serial := jc_serial c3 + of_nat kd, jc_state := Idle\<rparr>"
    by (simp add: c3_def c2_def c1_def)
  ultimately show ?thesis by metis
qed

text \<open>
  C3: over any wire that clocks bit by bit, whatever its transfer limit, \<open>clock\<close> returns exactly
  the samples of the one uninterrupted run of all its TMS and TDI bits, leaves the device where
  that run leaves it, and moves the tracked state by those TMS bits: splitting a stream into
  wire calls is invisible.
\<close>

theorem jtag_clock_chunking:
  assumes "serial_wire W step" and "usable c W" and "live E ctx"
    and "serial_run step w (zip (bslice tms 0 bits) (bslice tdi 0 bits)) = (tdos, w')"
  shows "\<exists>n. jtag_clock E c (Some ctx) tms tdi bits w =
    (Inr (pack tdos), c\<lparr>jc_serial := n, jc_state := tap_run (jc_state c) (bslice tms 0 bits)\<rparr>, w')"
  using jtag_clock_serial [OF assms] by blast

lemma jtag_scan_serial:
  assumes "serial_wire W step" and "usable c W" and "live E ctx"
    and "jc_state c \<noteq> Unknown" and "shift = ShiftDR \<or> shift = ShiftIR"
    and "0 < bits" and "bits \<le> 2 ^ 20" and "bytes_for bits \<le> length data"
    and "\<forall>v. now E v < now E w + jc_completionTimeout c"
    and "serial_run step w (map (\<lambda>b. (b, False)) (path (jc_state c) Idle @ path Idle shift)) = (os0, w1)"
    and "serial_run step w1 (zip (replicate (bits - 1) False @ [True]) (bslice data 0 bits)) = (tdos, w2)"
    and "serial_run step w2 [(True, False), (False, False)] = (os2, w3)"
  shows "(\<exists>n. jtag_scan E c (Some ctx) data (int bits) shift w =
      ((Some (pack tdos), None), c\<lparr>jc_serial := n, jc_state := Idle\<rparr>, w3)) \<and>
    tap_run (jc_state c) (path (jc_state c) Idle @ path Idle shift) = shift"
proof -
  from assms(2,3) obtain limit where
    v: "jtag_validate E c (Some ctx) w = (Inr (ctx, W, limit), w)"
    by (rule jtag_validate_usable)
  let ?cctx = "WithTimeout E (WithoutCancel ctx) (jc_completionTimeout c) w"
  from jtag_scan_body_serial [OF assms(1,2) live_completion [OF assms(3,9)] assms(4,5,6,10,11,12)]
  obtain n where "jtag_scan_body E c ?cctx data bits shift w =
      (Inr (pack tdos), c\<lparr>jc_serial := n, jc_state := Idle\<rparr>, w3)" by blast
  with v assms(3,6,7,8) have "jtag_scan E c (Some ctx) data (int bits) shift w =
      ((Some (pack tdos), None), c\<lparr>jc_serial := n, jc_state := Idle\<rparr>, w3)"
    by (simp add: jtag_scan_def MaxScanBits_def jtag_finishScan_def join_cause_def ctx_Err_def live_def not_less)
  moreover have "tap_run (jc_state c) (path (jc_state c) Idle @ path Idle shift) = shift"
    using assms(4,5) by (auto simp: path_leads)
  ultimately show ?thesis by blast
qed

text \<open>
  C4: over such a wire a scan from any known state returns the samples of exactly \<open>bits\<close> clocks,
  taken in the shift state with the caller's data bits on TDI in order and TMS high on the last
  one only; it reaches that state through Idle without a reset and ends in Idle.
\<close>

theorem jtag_scan_shifts_data:
  assumes "serial_wire W step" and "usable c W" and "live E ctx"
    and "jc_state c \<noteq> Unknown" and "shift = ShiftDR \<or> shift = ShiftIR"
    and "0 < bits" and "bits \<le> 2 ^ 20" and "bytes_for bits \<le> length data"
    and "\<forall>v. now E v < now E w + jc_completionTimeout c"
    and "serial_run step w (map (\<lambda>b. (b, False)) (path (jc_state c) Idle @ path Idle shift)) = (os0, w1)"
    and "serial_run step w1 (zip (replicate (bits - 1) False @ [True]) (bslice data 0 bits)) = (tdos, w2)"
    and "serial_run step w2 [(True, False), (False, False)] = (os2, w3)"
  shows "(\<exists>n. jtag_scan E c (Some ctx) data (int bits) shift w =
      ((Some (pack tdos), None), c\<lparr>jc_serial := n, jc_state := Idle\<rparr>, w3)) \<and>
    tap_run (jc_state c) (path (jc_state c) Idle @ path Idle shift) = shift"
  using jtag_scan_serial [OF assms] .

text \<open>
  A concrete device for the witnesses: a one-bit delay line behind a wire that takes at most three
  bits per call, in a world where nothing is cancelled and no time passes.
\<close>

definition delay_step :: "bool \<Rightarrow> bool \<Rightarrow> bool \<Rightarrow> bool \<times> bool" where
  "delay_step w tms tdi = (w, tdi)"

definition delay_wire :: "bool jtag_wire" where
  "delay_wire = \<lparr>JTAGIO = (\<lambda>ctx ms di n w.
       case serial_run delay_step w (zip (bslice ms 0 n) (bslice di 0 n)) of
         (tdos, w') \<Rightarrow> (pack tdos, None, w')),
     MaxTransferBits = Some (\<lambda>_. 3)\<rparr>"

lemma delay_serial: "serial_wire delay_wire delay_step"
  by (simp add: serial_wire_def delay_wire_def)

lemma usable_delay: "usable (jtag_New (Some delay_wire) []) delay_wire"
  by (simp add: usable_def jtag_New_def delay_wire_def seconds_def)

lemma jtag_New_fields [simp]:
  "jc_state (jtag_New W []) = Unknown" "jc_completionTimeout (jtag_New W []) = 30000000000"
  by (simp_all add: jtag_New_def seconds_def)

theorem jtag_clock_chunking_witness:
  "\<exists>n. jtag_clock still_env (jtag_New (Some delay_wire) []) (Some (Caller 0)) [0x1F] [0xA5] 8 False =
    (Inr (pack [False, True, False, True, False, False, True, False]),
     (jtag_New (Some delay_wire) [])\<lparr>jc_serial := n, jc_state := Unknown\<rparr>, True)"
proof -
  have "serial_run delay_step False (zip (bslice [0x1F] 0 8) (bslice [0xA5] 0 8)) =
      ([False, True, False, True, False, False, True, False], True)"
    by (simp add: delay_step_def bslice_def tbit_def upt_rec)
  from jtag_clock_chunking [OF delay_serial usable_delay live_still(1) this, of 0] show ?thesis
    by (simp only: jtag_New_fields tap_run_Unknown [THEN iffD2])
qed

theorem jtag_scan_shifts_data_witness:
  "\<exists>n. jtag_scan still_env ((jtag_New (Some delay_wire) [])\<lparr>jc_state := Reset\<rparr>) (Some (Caller 0))
      [0x05] 4 ShiftIR False =
    ((Some (pack [False, True, False, True]), None),
     (jtag_New (Some delay_wire) [])\<lparr>jc_state := Reset, jc_serial := n, jc_state := Idle\<rparr>, False)"
proof -
  let ?c = "(jtag_New (Some delay_wire) [])\<lparr>jc_state := Reset\<rparr>"
  have use: "usable ?c delay_wire" using usable_delay by (simp add: usable_def)
  have paths: "path Reset Idle = [False]" "path Idle ShiftIR = [True, True, False, False]"
    by code_simp+
  have known: "jc_state ?c \<noteq> Unknown" "ShiftIR = ShiftDR \<or> ShiftIR = ShiftIR" "0 < (4::nat)"
      "(4::nat) \<le> 2 ^ 20" "bytes_for 4 \<le> length [0x05 :: byte]"
      "\<forall>v. now still_env v < now still_env False + jc_completionTimeout ?c"
    by (simp_all add: bytes_for_def still_env_def)
  have r0: "serial_run delay_step False
      (map (\<lambda>b. (b, False)) (path (jc_state ?c) Idle @ path Idle ShiftIR)) = ([False, False, False, False, False], False)"
    by (simp add: paths delay_step_def)
  have r1: "serial_run delay_step False (zip (replicate (4 - 1) False @ [True]) (bslice [0x05] 0 4)) =
        ([False, True, False, True], False)"
    by code_simp
  have r2: "serial_run delay_step False [(True, False), (False, False)] = ([False, False], False)"
    by (simp add: delay_step_def)
  from jtag_scan_shifts_data [OF delay_serial use live_still(1) known r0 r1 r2, of 0] show ?thesis
    by simp
qed

end
