(* ===== verification/Jtag_Discover.thy ===== *)
theory Jtag_Discover
  imports Jtag_Conn
begin

text \<open>
  Chain discovery and instruction-length measurement, \<open>src/jtag/discover.go\<close> and
  \<open>src/jtag/measure.go\<close>: the decoder of reset registers with its termination, bounds and round
  trip, the marker decoder, and the step relation of every public operation of \<open>Conn\<close> with the
  invariant that the tracked TAP state is the device's.
\<close>

section \<open>Decoding reset registers\<close>

record ObservedTAP =
  obs_IDCODE :: uint32
  obs_Bypass :: bool

text \<open>\<open>word\<close> reads 32 bits; an index past the buffer is a run-time panic, \<open>None\<close>.\<close>

definition jtag_word :: "byte list \<Rightarrow> nat \<Rightarrow> uint32 option" where
  "jtag_word data offset =
     (if (offset + 31) div 8 < length data
      then Some (fold (\<lambda>i value. value OR push_bit i (ucast (get data (offset + i)))) [0..<32] 0)
      else None)"

function observations_loop ::
  "byte list \<Rightarrow> nat \<Rightarrow> ObservedTAP list \<Rightarrow> nat \<Rightarrow> (ObservedTAP list \<times> go_error) option" where
  "observations_loop data maxTAPs found offset =
     (case jtag_word data offset of
        None \<Rightarrow> None
      | Some value \<Rightarrow>
          if value = - 1 then
            Some (if length found = 0 then ([], Some (Sentinel JtagErrNoChain)) else (found, None))
          else if length found = maxTAPs then Some (found, Some (Sentinel JtagErrDiscoveryLimit))
          else if value AND 1 = 0 then
            observations_loop data maxTAPs (found @ [\<lparr>obs_IDCODE = 0, obs_Bypass = True\<rparr>]) (offset + 1)
          else
            observations_loop data maxTAPs (found @ [\<lparr>obs_IDCODE = value, obs_Bypass = False\<rparr>])
              (offset + 32))"
  by pat_completeness auto
termination
  by (relation "measure (\<lambda>(data, maxTAPs, found, offset). 8 * length data - offset)")
    (auto simp: jtag_word_def split: if_splits)

declare observations_loop.simps [simp del]

definition observations :: "byte list \<Rightarrow> nat \<Rightarrow> (ObservedTAP list \<times> go_error) option" where
  "observations data maxTAPs = observations_loop data maxTAPs [] 0"

section \<open>Discovery\<close>

definition bad_discovery :: err where "bad_discovery = New ''jtag: invalid discovery bound'' []"

text \<open>
  A run-time panic of \<open>observations\<close> would end the call; it is kept apart from every error the code
  makes. Lemma \<open>jtag_Discover_in_bounds\<close> shows that it does not happen.
\<close>

definition index_panic :: err where "index_panic = New ''panic: index out of range'' []"

definition jtag_Discover ::
  "'w go_env \<Rightarrow> 'w jtag_conn \<Rightarrow> ctx option \<Rightarrow> int \<Rightarrow> 'w \<Rightarrow>
   (ObservedTAP list \<times> go_error) \<times> 'w jtag_conn \<times> 'w" where
  "jtag_Discover E c octx maxTAPs w =
     (case jtag_validate E c octx w of
        (Inl e, w1) \<Rightarrow> (([], Some e), c, w1)
      | (Inr _, w1) \<Rightarrow>
          if maxTAPs < 1 \<or> 1024 < maxTAPs then (([], Some bad_discovery), c, w1)
          else
            (case jtag_Reset E c octx w1 of
               (Some e, c1, w2) \<Rightarrow> (([], Some e), c1, w2)
             | (None, c1, w2) \<Rightarrow>
                 (let bits = 32 * (maxTAPs + 1); input = replicate (nat bits div 8) 0xFF in
                  case jtag_ScanDR E c1 octx input bits w2 of
                    ((_, Some e), c2, w3) \<Rightarrow> (([], Some e), c2, w3)
                  | ((data, None), c2, w3) \<Rightarrow>
                      (case observations (case data of None \<Rightarrow> [] | Some d \<Rightarrow> d) (nat maxTAPs) of
                         None \<Rightarrow> (([], Some index_panic), c2, w3)
                       | Some r \<Rightarrow> (r, c2, w3)))))"

section \<open>Measuring the instruction chain\<close>

definition ones :: "nat \<Rightarrow> byte list" where
  "ones bits = replicate (bytes_for bits) 0xFF"

definition bad_marker :: err where "bad_marker = New ''jtag: invalid IR marker response'' []"
definition no_marker :: err where
  "no_marker = New ''jtag: IR marker did not return within bound'' []"
definition bad_measurement :: err where
  "bad_measurement = New ''jtag: invalid IR measurement bound'' []"

primrec marker_loop :: "byte list \<Rightarrow> nat list \<Rightarrow> nat \<Rightarrow> err + nat" where
  "marker_loop output [] len = Inr len"
| "marker_loop output (i # is) len =
     (if get output i = 0 then
        if len \<noteq> 0 \<or> i < 2 then Inl bad_marker else marker_loop output is i
      else marker_loop output is len)"

definition markerLength :: "byte list \<Rightarrow> nat \<Rightarrow> err + nat" where
  "markerLength output maxBits =
     (case marker_loop output [0..<maxBits + 1] 0 of
        Inl e \<Rightarrow> Inl e
      | Inr len \<Rightarrow> if len = 0 then Inl no_marker else Inr len)"

definition jtag_MeasureIR ::
  "'w go_env \<Rightarrow> 'w jtag_conn \<Rightarrow> ctx option \<Rightarrow> int \<Rightarrow> 'w \<Rightarrow> (err + nat) \<times> 'w jtag_conn \<times> 'w" where
  "jtag_MeasureIR E c octx maxBits w =
     (case jtag_validate E c octx w of
        (Inl e, w1) \<Rightarrow> (Inl e, c, w1)
      | (Inr _, w1) \<Rightarrow>
          if maxBits < 2 \<or> 65536 < maxBits then (Inl bad_measurement, c, w1)
          else
            (let n = nat maxBits in
             case jtag_Move E c octx Idle w1 of
               (Some e, c1, w2) \<Rightarrow> (Inl e, c1, w2)
             | (None, c1, w2) \<Rightarrow>
                 (case jtag_Move E c1 octx ShiftIR w2 of
                    (Some e, c2, w3) \<Rightarrow> (Inl e, c2, w3)
                  | (None, c2, w3) \<Rightarrow>
                      (case jtag_clock E c2 octx (replicate (bytes_for n) 0) (ones n) n w3 of
                         (Inl e, c3, w4) \<Rightarrow> (Inl e, c3, w4)
                       | (Inr _, c3, w4) \<Rightarrow>
                           (let input = (ones (n + 1))[0 := ones (n + 1) ! 0 AND NOT 1];
                                tms = put (replicate ((n + 8) div 8) 0) n 1 in
                            case jtag_clock E c3 octx tms input (n + 1) w4 of
                              (Inl e, c4, w5) \<Rightarrow> (Inl e, c4, w5)
                            | (Inr output, c4, w5) \<Rightarrow>
                                (case jtag_Move E c4 octx Idle w5 of
                                   (Some e, c5, w6) \<Rightarrow> (Inl e, c5, w6)
                                 | (None, c5, w6) \<Rightarrow> (markerLength output n, c5, w6)))))))"

section \<open>The decoders\<close>

lemma jtag_word_bits:
  "jtag_word data offset =
     (if offset + 32 \<le> 8 * length data then Some (collect_bits (\<lambda>i. tbit data (offset + i)) 32) else None)"
proof -
  have "fold (\<lambda>i value. value OR push_bit i (ucast (get data (offset + i)))) xs v =
      fold (\<lambda>i value. if tbit data (offset + i) then value OR push_bit i 1 else value) xs (v :: uint32)"
    for xs v by (induction xs arbitrary: v) (auto simp: get_tbit)
  moreover have "(offset + 31) div 8 < length data \<longleftrightarrow> offset + 32 \<le> 8 * length data" by arith
  ultimately show ?thesis by (simp add: jtag_word_def collect_bits_def)
qed

text \<open>The bits a reset chain shifts out, nearest TDO first.\<close>

definition reset_bits :: "ObservedTAP \<Rightarrow> bool list" where
  "reset_bits t = (if obs_Bypass t then [False] else map (bit (obs_IDCODE t)) [0..<32])"

definition reset_register :: "ObservedTAP \<Rightarrow> bool" where
  "reset_register t \<longleftrightarrow>
     (if obs_Bypass t then obs_IDCODE t = 0 else odd (obs_IDCODE t) \<and> obs_IDCODE t \<noteq> - 1)"

lemma reset_bits_length: "0 < length (reset_bits t)" "length (reset_bits t) \<le> 32"
  by (auto simp: reset_bits_def)

lemma concat_reset_length: "length (concat (map reset_bits ts)) \<le> 32 * length ts"
proof (induction ts)
  case (Cons t ts)
  then show ?case using reset_bits_length(2) [of t] by simp
qed simp

text \<open>What a decoder step sees at an offset where a register or the trailing ones start.\<close>

definition shows_at :: "byte list \<Rightarrow> nat \<Rightarrow> bool list \<Rightarrow> bool" where
  "shows_at data offset bs \<longleftrightarrow> offset + length bs \<le> 8 * length data \<and>
     (\<forall>i < length bs. tbit data (offset + i) = bs ! i)"

lemma shows_at_append:
  "shows_at data offset (xs @ ys) \<longleftrightarrow> shows_at data offset xs \<and> shows_at data (offset + length xs) ys"
proof
  assume *: "shows_at data offset (xs @ ys)"
  then have "tbit data (offset + length xs + i) = ys ! i" if "i < length ys" for i
    using that by (auto simp: shows_at_def nth_append add.assoc dest!: spec [where x = "length xs + i"])
  with * show "shows_at data offset xs \<and> shows_at data (offset + length xs) ys"
    by (auto simp: shows_at_def nth_append)
next
  assume *: "shows_at data offset xs \<and> shows_at data (offset + length xs) ys"
  show "shows_at data offset (xs @ ys)"
    unfolding shows_at_def
  proof (intro conjI allI impI)
    fix i assume "i < length (xs @ ys)"
    with * show "tbit data (offset + i) = (xs @ ys) ! i"
      by (cases "i < length xs") (auto simp: shows_at_def nth_append dest!: spec [where x = "i - length xs"])
  qed (use * in \<open>simp add: shows_at_def\<close>)
qed

lemma jtag_word_ones: "offset + 32 \<le> 8 * length data \<Longrightarrow>
   jtag_word data offset = Some (- 1) \<longleftrightarrow> shows_at data offset (replicate 32 True)"
  by (auto simp: jtag_word_bits shows_at_def bit_eq_iff bit_collect_bits)

lemma jtag_word_idcode:
  assumes "shows_at data offset (map (bit v) [0..<32])"
  shows "jtag_word data offset = Some v"
proof -
  have "collect_bits (\<lambda>i. tbit data (offset + i)) 32 = (collect_bits (bit v) 32 :: uint32)"
    using assms by (intro collect_bits_cong) (auto simp: shows_at_def)
  with assms show ?thesis by (simp add: jtag_word_bits collect_bits_bit shows_at_def)
qed

lemma and_one_zero: "v AND 1 = 0 \<longleftrightarrow> even (v :: 'a::len word)"
  by (simp add: and_one_eq mod_2_eq_odd)

lemma even_collect_bits: "0 < n \<Longrightarrow> even (collect_bits P n :: 'a::len word) \<longleftrightarrow> \<not> P 0"
  using bit_collect_bits [of P n 0, where 'a = 'a] by (auto simp: bit_0)

lemma even_not_ones: "even v \<Longrightarrow> v \<noteq> (- 1 :: 'a::len word)"
  by auto

lemma jtag_word_even:
  assumes "offset + 32 \<le> 8 * length data"
  shows "\<exists>v. jtag_word data offset = Some v \<and> (even v \<longleftrightarrow> \<not> tbit data offset)"
  using assms by (simp add: jtag_word_bits even_collect_bits)

section \<open>Round trip\<close>

lemma observations_loop_decodes:
  assumes "shows_at data offset (concat (map reset_bits ts) @ tail)"
    and "offset + 32 * (maxTAPs + 1 - length found) \<le> 8 * length data"
    and "length found \<le> maxTAPs" and "\<forall>t \<in> set ts. reset_register t"
    and "length ts \<le> maxTAPs - length found \<Longrightarrow>
      shows_at data (offset + length (concat (map reset_bits ts))) (replicate 32 True)"
  shows "observations_loop data maxTAPs found offset =
    Some (if found @ ts = [] then ([], Some (Sentinel JtagErrNoChain))
          else if length (found @ ts) \<le> maxTAPs then (found @ ts, None)
          else (take maxTAPs (found @ ts), Some (Sentinel JtagErrDiscoveryLimit)))"
  using assms
proof (induction ts arbitrary: found offset)
  case Nil
  then have "jtag_word data offset = Some (- 1)"
    by (subst jtag_word_ones) (auto simp: shows_at_def)
  with Nil.prems show ?case by (subst observations_loop.simps) simp
next
  case (Cons t ts)
  have in_data: "offset + 32 \<le> 8 * length data" using Cons.prems(2,3) by simp
  have first: "shows_at data offset (reset_bits t)"
    and rest: "shows_at data (offset + length (reset_bits t)) (concat (map reset_bits ts) @ tail)"
    using Cons.prems(1) by (simp_all add: shows_at_append)
  obtain v where v: "jtag_word data offset = Some v" "v \<noteq> - 1" "even v \<longleftrightarrow> obs_Bypass t"
    "\<not> obs_Bypass t \<Longrightarrow> v = obs_IDCODE t"
  proof (cases "obs_Bypass t")
    case True
    then have "\<not> tbit data offset" using first by (simp add: reset_bits_def shows_at_def)
    then show ?thesis using jtag_word_even [OF in_data] True that even_not_ones by metis
  next
    case False
    then show ?thesis using jtag_word_idcode [of data offset "obs_IDCODE t"] first Cons.prems(4) that
      by (auto simp: reset_bits_def reset_register_def)
  qed
  have t: "t = (if even v then \<lparr>obs_IDCODE = 0, obs_Bypass = True\<rparr> else \<lparr>obs_IDCODE = v, obs_Bypass = False\<rparr>)"
    and l: "length (reset_bits t) = (if even v then 1 else 32)"
    using v Cons.prems(4) by (auto simp: reset_register_def reset_bits_def)
  show ?case
  proof (cases "length found = maxTAPs")
    case True
    with v show ?thesis by (subst observations_loop.simps) simp
  next
    case False
    have "observations_loop data maxTAPs found offset =
        observations_loop data maxTAPs (found @ [t]) (offset + length (reset_bits t))"
      unfolding l using t v(1,2) False
      by (subst observations_loop.simps) (cases "even v"; simp only: option.case if_True if_False and_one_zero)
    also have "\<dots> = Some (if (found @ [t]) @ ts = [] then ([], Some (Sentinel JtagErrNoChain))
          else if length ((found @ [t]) @ ts) \<le> maxTAPs then ((found @ [t]) @ ts, None)
          else (take maxTAPs ((found @ [t]) @ ts), Some (Sentinel JtagErrDiscoveryLimit)))"
    proof (rule Cons.IH [OF rest])
      show "offset + length (reset_bits t) + 32 * (maxTAPs + 1 - length (found @ [t])) \<le> 8 * length data"
        using Cons.prems(2,3) False reset_bits_length(2) [of t] by simp
      show "length (found @ [t]) \<le> maxTAPs" using Cons.prems(3) False by simp
      show "\<forall>t \<in> set ts. reset_register t" using Cons.prems(4) by simp
      show "shows_at data (offset + length (reset_bits t) + length (concat (map reset_bits ts))) (replicate 32 True)"
        if "length ts \<le> maxTAPs - length (found @ [t])"
        using Cons.prems(5,3) that False by (simp add: add.assoc)
    qed
    finally show ?thesis by simp
  qed
qed

text \<open>The decoder on any input: it never reads past the bits that discovery scans.\<close>

lemma observations_loop_total:
  assumes "offset \<le> 32 * length found" "length found \<le> maxTAPs" "4 * (maxTAPs + 1) \<le> length data"
  shows "observations_loop data maxTAPs found offset \<noteq> None"
  using assms
proof (induction data maxTAPs found offset rule: observations_loop.induct)
  case (1 data maxTAPs found offset)
  then have "offset + 32 \<le> 8 * length data" by simp
  then obtain v where v: "jtag_word data offset = Some v" using jtag_word_even by blast
  show ?case
    using 1 v by (subst observations_loop.simps) (auto split: option.splits)
qed

text \<open>Whatever it accepts is what the buffer shows: registers in order, then 32 ones.\<close>

lemma observations_loop_sound:
  assumes "observations_loop data maxTAPs found offset = Some (ts, None)"
  shows "\<exists>us. ts = found @ us \<and> (\<forall>t \<in> set us. reset_register t) \<and>
    (length found \<le> maxTAPs \<longrightarrow> length ts \<le> maxTAPs) \<and> ts \<noteq> [] \<and>
    shows_at data offset (concat (map reset_bits us) @ replicate 32 True)"
  using assms
proof (induction data maxTAPs found offset rule: observations_loop.induct)
  case (1 data maxTAPs found offset)
  from 1(3) obtain v where v: "jtag_word data offset = Some v"
    by (subst (asm) observations_loop.simps) (auto split: option.splits)
  then have in_data: "offset + 32 \<le> 8 * length data" by (simp add: jtag_word_bits split: if_splits)
  note step = 1(3) [unfolded observations_loop.simps [of data maxTAPs found offset] v option.case]
  consider (last) "v = - 1" | (full) "v \<noteq> - 1" "length found = maxTAPs"
    | (more) "v \<noteq> - 1" "length found \<noteq> maxTAPs" by blast
  then show ?case
  proof cases
    case last
    with step v in_data show ?thesis by (auto simp: jtag_word_ones split: if_splits)
  next
    case full
    with step show ?thesis by simp
  next
    case more
    define t where "t = (if even v then \<lparr>obs_IDCODE = 0, obs_Bypass = True\<rparr>
      else \<lparr>obs_IDCODE = v, obs_Bypass = False\<rparr>)"
    define l where "l = length (reset_bits t)"
    have l: "l = (if even v then 1 else 32)" by (simp add: l_def t_def reset_bits_def)
    have next_step: "observations_loop data maxTAPs (found @ [t]) (offset + l) = Some (ts, None)"
      using step more by (simp add: t_def l and_one_zero split: if_splits)
    have "\<exists>us. ts = (found @ [t]) @ us \<and> (\<forall>t \<in> set us. reset_register t) \<and>
      (length (found @ [t]) \<le> maxTAPs \<longrightarrow> length ts \<le> maxTAPs) \<and> ts \<noteq> [] \<and>
      shows_at data (offset + l) (concat (map reset_bits us) @ replicate 32 True)"
    proof (cases "even v")
      case True
      then have "t = \<lparr>obs_IDCODE = 0, obs_Bypass = True\<rparr>" "l = 1" and z: "v AND 1 = 0"
        by (simp_all add: t_def l and_one_zero)
      with 1(1) [OF v more z] next_step show ?thesis by (simp only: not_False_eq_True)
    next
      case False
      then have "t = \<lparr>obs_IDCODE = v, obs_Bypass = False\<rparr>" "l = 32" and z: "v AND 1 \<noteq> 0"
        by (simp_all add: t_def l and_one_zero)
      with 1(2) [OF v more z] next_step show ?thesis by (simp only: not_False_eq_True)
    qed
    then obtain us where us: "ts = (found @ [t]) @ us" "\<forall>t \<in> set us. reset_register t"
      "length (found @ [t]) \<le> maxTAPs \<longrightarrow> length ts \<le> maxTAPs"
      "shows_at data (offset + l) (concat (map reset_bits us) @ replicate 32 True)"
      by (elim exE conjE)
    have "shows_at data offset (reset_bits t)"
      using v in_data by (auto simp: t_def reset_bits_def shows_at_def jtag_word_bits bit_collect_bits even_collect_bits)
    moreover have "reset_register t" using more by (simp add: reset_register_def t_def)
    ultimately have "ts = found @ (t # us) \<and> (\<forall>t \<in> set (t # us). reset_register t) \<and>
      (length found \<le> maxTAPs \<longrightarrow> length ts \<le> maxTAPs) \<and> ts \<noteq> [] \<and>
      shows_at data offset (concat (map reset_bits (t # us)) @ replicate 32 True)"
      using us more by (auto simp: shows_at_append simp flip: l_def)
    then show ?thesis by (rule exI)
  qed
qed

lemma observations_decodes:
  assumes "4 * (maxTAPs + 1) \<le> length data"
    and "shows_at data 0 (concat (map reset_bits taps) @ tail)"
    and "\<forall>t \<in> set taps. reset_register t"
    and "length taps \<le> maxTAPs \<Longrightarrow> \<exists>more. tail = replicate 32 True @ more"
  shows "observations data maxTAPs =
    Some (if taps = [] then ([], Some (Sentinel JtagErrNoChain))
          else if length taps \<le> maxTAPs then (taps, None)
          else (take maxTAPs taps, Some (Sentinel JtagErrDiscoveryLimit)))"
proof -
  have "shows_at data (0 + length (concat (map reset_bits taps))) (replicate 32 True)"
    if "length taps \<le> maxTAPs - length ([] :: ObservedTAP list)"
    using assms(2,4) that by (auto simp: shows_at_append)
  from observations_loop_decodes [OF assms(2) _ _ assms(3) this, of maxTAPs] assms(1) show ?thesis
    by (simp add: observations_def)
qed

text \<open>
  C5: the decoder inverts what a reset chain shifts out. If the scanned bits are the reset registers
  of the TAPs in order, followed by at least 32 ones where all of them fit, then \<open>observations\<close>
  returns exactly these TAPs; a chain longer than the bound gives the first \<open>maxTAPs\<close> of them with
  \<open>ErrDiscoveryLimit\<close>, and an empty chain \<open>ErrNoChain\<close>.
\<close>

theorem observations_round_trip:
  assumes "4 * (maxTAPs + 1) \<le> length data"
    and "shows_at data 0 (concat (map reset_bits taps) @ tail)"
    and "\<forall>t \<in> set taps. reset_register t"
    and "length taps \<le> maxTAPs \<Longrightarrow> \<exists>more. tail = replicate 32 True @ more"
  shows "observations data maxTAPs =
    Some (if taps = [] then ([], Some (Sentinel JtagErrNoChain))
          else if length taps \<le> maxTAPs then (taps, None)
          else (take maxTAPs taps, Some (Sentinel JtagErrDiscoveryLimit)))"
  by (rule observations_decodes [OF assms])

theorem observations_round_trip_witness:
  "observations (pack ([False] @ map (bit (0x4BA00477 :: uint32)) [0..<32] @ replicate 63 True)) 2 =
    Some ([\<lparr>obs_IDCODE = 0, obs_Bypass = True\<rparr>, \<lparr>obs_IDCODE = 0x4BA00477, obs_Bypass = False\<rparr>], None)"
proof -
  let ?taps = "[\<lparr>obs_IDCODE = 0, obs_Bypass = True\<rparr>, \<lparr>obs_IDCODE = 0x4BA00477, obs_Bypass = False\<rparr>]"
  let ?bs = "[False] @ map (bit (0x4BA00477 :: uint32)) [0..<32] @ replicate 63 True"
  have stream: "concat (map reset_bits ?taps) @ (replicate 32 True @ replicate 31 True) = ?bs"
    by (simp add: reset_bits_def flip: replicate_add)
  have "shows_at (pack ?bs) 0 ?bs"
    by (simp add: shows_at_def tbit_pack bytes_for_le(1) bytes_for_bound)
  then have 1: "shows_at (pack ?bs) 0 (concat (map reset_bits ?taps) @ (replicate 32 True @ replicate 31 True))"
    unfolding stream .
  have 2: "4 * (2 + 1) \<le> length (pack ?bs)" by (simp add: bytes_for_def)
  have 3: "\<forall>t \<in> set ?taps. reset_register t" by (simp add: reset_register_def)
  from observations_round_trip [OF 2 1 3] show ?thesis by simp
qed

text \<open>
  C6: on a buffer of the size that \<open>Discover\<close> scans, whatever its bits, the decoder terminates
  without reading past the buffer, and a chain it accepts is the one the buffer shows: at most
  \<open>maxTAPs\<close> well-formed reset registers from bit zero on, followed by 32 ones.
\<close>

theorem observations_total_sound:
  assumes "4 * (maxTAPs + 1) \<le> length data"
  shows "\<exists>found e. observations data maxTAPs = Some (found, e) \<and>
    (e = None \<longrightarrow> found \<noteq> [] \<and> length found \<le> maxTAPs \<and> (\<forall>t \<in> set found. reset_register t) \<and>
      shows_at data 0 (concat (map reset_bits found) @ replicate 32 True))"
proof -
  from observations_loop_total [of 0 "[]" maxTAPs data] assms obtain found e where
    r: "observations data maxTAPs = Some (found, e)"
    by (auto simp: observations_def)
  have "found \<noteq> [] \<and> length found \<le> maxTAPs \<and> (\<forall>t \<in> set found. reset_register t) \<and>
      shows_at data 0 (concat (map reset_bits found) @ replicate 32 True)" if "e = None"
    using observations_loop_sound [of data maxTAPs "[]" 0 found] r that by (simp add: observations_def)
  with r show ?thesis by blast
qed

theorem observations_total_sound_witness:
  "\<exists>found e. observations (replicate 12 0xA5) 2 = Some (found, e)"
  using observations_total_sound [of 2 "replicate 12 0xA5"] by auto

lemma marker_loop_zeros:
  "marker_loop output is len = Inr n \<longleftrightarrow>
     (case filter (\<lambda>i. \<not> tbit output i) is of
        [] \<Rightarrow> n = len | [j] \<Rightarrow> len = 0 \<and> 2 \<le> j \<and> n = j | _ \<Rightarrow> False)"
proof (induction "is" arbitrary: len)
  case (Cons i "is")
  show ?case
  proof (cases "tbit output i")
    case True
    with Cons.IH [of len] show ?thesis by (simp add: get_tbit)
  next
    case False
    with Cons.IH [of i] show ?thesis by (auto simp: get_tbit split: list.splits)
  qed
qed auto

lemma filter_upt_singleton: "filter P [0..<m] = [n] \<longleftrightarrow> n < m \<and> (\<forall>i < m. P i = (i = n))"
proof (induction m)
  case (Suc m)
  have "filter P [0..<m] = [] \<longleftrightarrow> (\<forall>i < m. \<not> P i)" by (auto simp: filter_empty_conv)
  with Suc show ?case by (auto simp: less_Suc_eq append_eq_Cons_conv)
qed simp

lemma markerLength_iff:
  "markerLength output maxBits = Inr n \<longleftrightarrow>
     2 \<le> n \<and> n \<le> maxBits \<and> (\<forall>i \<le> maxBits. tbit output i = (i \<noteq> n))"
proof -
  have "markerLength output maxBits = Inr n \<longleftrightarrow>
      marker_loop output [0..<maxBits + 1] 0 = Inr n \<and> n \<noteq> 0"
    by (auto simp: markerLength_def split: sum.splits)
  also have "\<dots> \<longleftrightarrow> 2 \<le> n \<and> filter (\<lambda>i. \<not> tbit output i) [0..<maxBits + 1] = [n]"
    unfolding marker_loop_zeros by (auto split: list.splits)
  finally show ?thesis unfolding filter_upt_singleton by (auto simp: less_Suc_eq_le)
qed

text \<open>
  C7: the marker decoder returns a length exactly when one single zero came back, at that position
  and not before the third bit.
\<close>

theorem markerLength_single_zero:
  "markerLength output maxBits = Inr n \<longleftrightarrow>
     2 \<le> n \<and> n \<le> maxBits \<and> (\<forall>i \<le> maxBits. tbit output i = (i \<noteq> n))"
  by (rule markerLength_iff)

theorem markerLength_single_zero_witness: "markerLength [0xEF] 7 = Inr 4"
proof -
  have "tbit [0xEF] i = (i \<noteq> 4)" if "i \<le> 7" for i
  proof -
    from that have "i \<in> {0, 1, 2, 3, 4, 5, 6, 7}" by auto
    then show ?thesis by (auto simp: tbit_def)
  qed
  then show ?thesis using markerLength_single_zero [of "[0xEF]" 7 4] by simp
qed

section \<open>Frames and tracking\<close>

lemma jtag_Discover_frame: "jtag_Discover E c octx n w = (r, c', w') \<Longrightarrow> conn_frame c c'"
  by (auto simp: jtag_Discover_def jtag_ScanDR_def Let_def dest!: jtag_Reset_frame jtag_scan_frame
      split: prod.splits sum.splits option.splits if_splits intro: conn_frame_trans)

lemma jtag_MeasureIR_frame: "jtag_MeasureIR E c octx n w = (r, c', w') \<Longrightarrow> conn_frame c c'"
  by (auto simp: jtag_MeasureIR_def Let_def conn_frame_def dest!: jtag_Move_frame jtag_clock_conn_frame
      split: prod.splits sum.splits option.splits if_splits)

text \<open>One operation keeps the tracked state equal to the device's, and its wire.\<close>

definition keeps_tracking ::
  "'w go_env \<Rightarrow> ('w \<Rightarrow> State) \<Rightarrow> 'w jtag_conn \<Rightarrow> 'w \<Rightarrow> 'w jtag_conn \<Rightarrow> 'w \<Rightarrow> bool" where
  "keeps_tracking E tap c w c' w' \<longleftrightarrow>
     (conn_drives E c tap \<and> tracks tap c w \<longrightarrow> conn_drives E c' tap \<and> tracks tap c' w')"

lemma keeps_tracking_trans:
  "keeps_tracking E tap c w c1 w1 \<Longrightarrow> keeps_tracking E tap c1 w1 c2 w2 \<Longrightarrow> keeps_tracking E tap c w c2 w2"
  by (simp add: keeps_tracking_def)

lemma validate_keeps: "jtag_validate E c octx w = (r, w') \<Longrightarrow> keeps_tracking E tap c w c w'"
  by (auto simp: keeps_tracking_def tracks_def dest: jtag_validate_tap)

lemma clock_keeps: "jtag_clock E c octx tms tdi n w = (r, c', w') \<Longrightarrow> keeps_tracking E tap c w c' w'"
  by (auto simp: keeps_tracking_def dest: jtag_clock_conn_frame conn_drives_frame jtag_clock_tracks(1))

lemma Reset_keeps: "jtag_Reset E c octx w = (r, c', w') \<Longrightarrow> keeps_tracking E tap c w c' w'"
  by (auto simp: keeps_tracking_def dest: jtag_Reset_frame conn_drives_frame jtag_Reset_tracks(1))

lemma Move_keeps: "jtag_Move E c octx t w = (r, c', w') \<Longrightarrow> keeps_tracking E tap c w c' w'"
  by (auto simp: keeps_tracking_def dest: jtag_Move_frame conn_drives_frame jtag_Move_tracks)

lemma scan_keeps: "jtag_scan E c octx d n s w = (r, c', w') \<Longrightarrow> keeps_tracking E tap c w c' w'"
  by (auto simp: keeps_tracking_def dest: jtag_scan_frame conn_drives_frame jtag_scan_tracks)

lemma Idle_keeps: "jtag_Idle E c octx n w = (r, c', w') \<Longrightarrow> keeps_tracking E tap c w c' w'"
  by (auto simp: keeps_tracking_def dest: jtag_Idle_frame conn_drives_frame jtag_Idle_tracks)

lemma Discover_keeps: "jtag_Discover E c octx n w = (r, c', w') \<Longrightarrow> keeps_tracking E tap c w c' w'"
  by (auto simp: jtag_Discover_def jtag_ScanDR_def Let_def
      dest!: validate_keeps [where tap = tap] Reset_keeps [where tap = tap] scan_keeps [where tap = tap]
      split: prod.splits sum.splits option.splits if_splits intro: keeps_tracking_trans)

lemma MeasureIR_keeps: "jtag_MeasureIR E c octx n w = (r, c', w') \<Longrightarrow> keeps_tracking E tap c w c' w'"
  by (auto simp: jtag_MeasureIR_def Let_def keeps_tracking_def
      dest!: validate_keeps [where tap = tap] Move_keeps [where tap = tap] clock_keeps [where tap = tap]
      split: prod.splits sum.splits option.splits if_splits)

text \<open>
  The contract every operation of a connection keeps, and what follows for any run of calls.
\<close>

locale conn_operation =
  fixes op :: "'w go_env \<Rightarrow> 'w jtag_conn \<Rightarrow> 'a \<Rightarrow> 'w \<Rightarrow> 'r \<times> 'w jtag_conn \<times> 'w"
  assumes frame: "op E c a w = (r, c', w') \<Longrightarrow> conn_frame c c'"
    and keeps: "op E c a w = (r, c', w') \<Longrightarrow> keeps_tracking E tap c w c' w'"
begin

primrec runs :: "'w go_env \<Rightarrow> 'a list \<Rightarrow> 'w jtag_conn \<times> 'w \<Rightarrow> 'w jtag_conn \<times> 'w" where
  "runs E [] s = s"
| "runs E (a # as) s = runs E as (snd (op E (fst s) a (snd s)))"

lemma runs_keep: "keeps_tracking E tap (fst s) (snd s) (fst (runs E as s)) (snd (runs E as s))"
proof (induction as arbitrary: s)
  case Nil
  show ?case by (simp add: keeps_tracking_def)
next
  case (Cons a as)
  obtain r c' w' where "op E (fst s) a (snd s) = (r, c', w')" by (metis prod_cases3)
  with keeps_tracking_trans [OF keeps [OF this] Cons.IH [of "(c', w')", simplified]] show ?case by simp
qed

end

interpretation reset_op: conn_operation "\<lambda>E c octx w. jtag_Reset E c octx w"
  by unfold_locales (auto intro: jtag_Reset_frame Reset_keeps)

interpretation move_op: conn_operation "\<lambda>E c a w. jtag_Move E c (fst a) (snd a) w"
  by unfold_locales (auto intro: jtag_Move_frame Move_keeps)

interpretation scan_op: conn_operation "\<lambda>E c (octx, data, bits, shift) w. jtag_scan E c octx data bits shift w"
  by unfold_locales (auto intro: jtag_scan_frame scan_keeps)

interpretation idle_op: conn_operation "\<lambda>E c a w. jtag_Idle E c (fst a) (snd a) w"
  by unfold_locales (auto intro: jtag_Idle_frame Idle_keeps)

interpretation discover_op: conn_operation "\<lambda>E c a w. jtag_Discover E c (fst a) (snd a) w"
  by unfold_locales (auto intro: jtag_Discover_frame Discover_keeps)

interpretation measure_op: conn_operation "\<lambda>E c a w. jtag_MeasureIR E c (fst a) (snd a) w"
  by unfold_locales (auto intro: jtag_MeasureIR_frame MeasureIR_keeps)

section \<open>Every use of a connection\<close>

text \<open>
  The public operations of \<open>Conn\<close>, in any order, with any arguments, and time passing between them.
\<close>

inductive jtag_step :: "'w go_env \<Rightarrow> 'w jtag_conn \<times> 'w \<Rightarrow> 'w jtag_conn \<times> 'w \<Rightarrow> bool" for E where
  step_Reset: "jtag_Reset E c octx w = (e, c', w') \<Longrightarrow> jtag_step E (c, w) (c', w')"
| step_Move: "jtag_Move E c octx t w = (e, c', w') \<Longrightarrow> jtag_step E (c, w) (c', w')"
| step_ScanIR: "jtag_ScanIR E c octx data bits w = (r, c', w') \<Longrightarrow> jtag_step E (c, w) (c', w')"
| step_ScanDR: "jtag_ScanDR E c octx data bits w = (r, c', w') \<Longrightarrow> jtag_step E (c, w) (c', w')"
| step_Idle: "jtag_Idle E c octx cycles w = (e, c', w') \<Longrightarrow> jtag_step E (c, w) (c', w')"
| step_Discover: "jtag_Discover E c octx n w = (r, c', w') \<Longrightarrow> jtag_step E (c, w) (c', w')"
| step_MeasureIR: "jtag_MeasureIR E c octx n w = (m, c', w') \<Longrightarrow> jtag_step E (c, w) (c', w')"
| step_time: "jtag_step E (c, w) (c, poll_step E w)"

inductive_cases jtag_stepE: "jtag_step E (c, w) (c', w')"

lemma jtag_step_keeps: "jtag_step E (c, w) (c', w') \<Longrightarrow> keeps_tracking E tap c w c' w'"
  by (erule jtag_stepE)
    (auto simp: jtag_ScanIR_def jtag_ScanDR_def keeps_tracking_def [of E tap c w c "poll_step E w"] tracks_def
      conn_drives_poll intro: Reset_keeps Move_keeps scan_keeps Idle_keeps Discover_keeps MeasureIR_keeps)

lemma jtag_steps_keep:
  "(jtag_step E)\<^sup>*\<^sup>* s s' \<Longrightarrow> keeps_tracking E tap (fst s) (snd s) (fst s') (snd s')"
  by (induction rule: rtranclp_induct)
    (auto simp: keeps_tracking_def dest!: jtag_step_keeps [where tap = tap])

lemma conn_drives_New: "\<lbrakk>\<forall>W'. W = Some W' \<longrightarrow> drives_tap E W' tap;
    \<forall>w. tap (poll_step E w) = tap w; \<forall>w. tap w \<noteq> Unknown\<rbrakk> \<Longrightarrow> conn_drives E (jtag_New W opts) tap"
proof -
  have "jc_wire (fold (\<lambda>opt c. case opt of None \<Rightarrow> c | Some d \<Rightarrow> c\<lparr>jc_completionTimeout := d\<rparr>) opts c) = jc_wire c"
    for c :: "'a jtag_conn" by (induction opts arbitrary: c) (auto split: option.splits)
  then have "jc_wire (jtag_New W opts) = W" by (simp add: jtag_New_def)
  then show "\<lbrakk>\<forall>W'. W = Some W' \<longrightarrow> drives_tap E W' tap;
    \<forall>w. tap (poll_step E w) = tap w; \<forall>w. tap w \<noteq> Unknown\<rbrakk> \<Longrightarrow> conn_drives E (jtag_New W opts) tap"
    by (simp add: conn_drives_def)
qed

lemma jtag_New_state [simp]: "jc_state (jtag_New W opts) = Unknown"
proof -
  have "jc_state (fold (\<lambda>opt c. case opt of None \<Rightarrow> c | Some d \<Rightarrow> c\<lparr>jc_completionTimeout := d\<rparr>) opts c) = jc_state c"
    for c :: "'a jtag_conn" by (induction opts arbitrary: c) (auto split: option.splits)
  then show ?thesis by (simp add: jtag_New_def)
qed

text \<open>
  C8: the connection never misjudges the TAP. After any sequence of public calls on a new
  connection, completed, failed or cancelled at any point, over a wire whose successful calls clock
  exactly the requested TMS bits, the tracked state is \<open>Unknown\<close> or the state the TAP is in.
\<close>

theorem tracked_state_sound:
  assumes "drives_tap E W tap"
    and "(jtag_step E)\<^sup>*\<^sup>* (jtag_New (Some W) opts, w0) (c, w)"
  shows "jc_state c = Unknown \<or> jc_state c = tap w"
proof -
  have "conn_drives E (jtag_New (Some W) opts) tap"
    using assms(1) by (intro conn_drives_New) (auto simp: drives_tap_def)
  moreover have "tracks tap (jtag_New (Some W) opts) w0" by (simp add: tracks_def)
  ultimately show ?thesis
    using jtag_steps_keep [OF assms(2), of tap] by (simp add: keeps_tracking_def tracks_def)
qed

text \<open>A wire over a bare TAP controller, four bits per call at most.\<close>

definition known_tap :: "State \<Rightarrow> State" where
  "known_tap s = (if s = Unknown then Reset else s)"

definition tap_wire :: "State jtag_wire" where
  "tap_wire = \<lparr>JTAGIO = (\<lambda>ctx ms di n s.
       (replicate (bytes_for n) 0, None, tap_run (known_tap s) (bslice ms 0 n))),
     MaxTransferBits = Some (\<lambda>_. 4)\<rparr>"

lemma tap_wire_drives: "drives_tap still_env tap_wire known_tap"
  by (auto simp: drives_tap_def tap_wire_def known_tap_def still_env_def tap_run_Unknown)

theorem tracked_state_sound_witness:
  "\<exists>c w. jtag_step still_env (jtag_New (Some tap_wire) [], ShiftIR) (c, w) \<and>
     jc_state c = Reset \<and> known_tap w = Reset"
proof -
  let ?c = "jtag_New (Some tap_wire) []"
  obtain e c w where r: "jtag_Reset still_env ?c (Some (Caller 0)) ShiftIR = (e, c, w)"
    by (metis prod_cases3)
  then have s: "jtag_step still_env (?c, ShiftIR) (c, w)" by (rule step_Reset)
  have "e = None \<and> jc_state c = Reset"
  proof -
    have "(case jtag_Reset still_env ?c (Some (Caller 0)) ShiftIR of (e, c, w) \<Rightarrow> e = None \<and> jc_state c = Reset)"
      by code_simp
    then show ?thesis using r by simp
  qed
  moreover have "(jtag_step still_env)\<^sup>*\<^sup>* (?c, ShiftIR) (c, w)" using s by (rule r_into_rtranclp)
  from tracked_state_sound [OF tap_wire_drives this]
  have "jc_state c = Unknown \<or> jc_state c = known_tap w" .
  ultimately show ?thesis using s by (intro exI [of _ c] exI [of _ w]) auto
qed

lemma jtag_validate_waits: "jtag_validate E c octx w = (r, w') \<Longrightarrow> waits E w w'"
  using jtag_validate_world by fastforce

lemma unknown_Move:
  "jc_state c = Unknown \<Longrightarrow> jtag_Move E c octx t w = (e, c', w') \<Longrightarrow> e \<noteq> None \<and> c' = c \<and> waits E w w'"
  by (auto simp: jtag_Move_def dest: jtag_validate_waits split: prod.splits sum.splits if_splits)

lemma unknown_scan:
  assumes "jc_state c = Unknown" "jtag_scan E c octx data bits shift w = (r, c', w')"
  shows "fst r = None \<and> snd r \<noteq> None \<and> c' = c \<and> waits E w w'"
proof -
  have body: "\<exists>e. r1 = Inl e \<and> c1 = c \<and> waits E w1 w2"
    if "jtag_scan_body E c cctx data n shift w1 = (r1, c1, w2)" for cctx n w1 r1 c1 w2
    using that by (auto simp: jtag_scan_body_def dest!: unknown_Move [OF assms(1)]
        split: prod.splits option.splits)
  have "fst r = None \<and> c' = c \<and> waits E w w'"
    using assms(2)
    by (auto simp: jtag_scan_def jtag_finishScan_def Let_def
        dest!: jtag_validate_waits body waits_join_cause split: prod.splits sum.splits if_splits
        intro: waits_trans)
  then show ?thesis using jtag_scan_no_capture(1) assms(2) by (cases r) auto
qed

text \<open>
  C9: while the state is unknown nothing but \<open>Reset\<close> (and \<open>Discover\<close>, which resets first) sends
  traffic: movement, scans, measurement and execution clocks fail, leave the connection as it was,
  and the world changes only by the time the calls take.
\<close>

theorem unknown_needs_reset:
  assumes "jc_state c = Unknown"
  shows "(jtag_Move E c octx t w = (e, c', w') \<longrightarrow> e \<noteq> None \<and> c' = c \<and> waits E w w') \<and>
    (jtag_ScanIR E c octx data bits w = (r, c', w') \<longrightarrow> snd r \<noteq> None \<and> c' = c \<and> waits E w w') \<and>
    (jtag_ScanDR E c octx data bits w = (r, c', w') \<longrightarrow> snd r \<noteq> None \<and> c' = c \<and> waits E w w') \<and>
    (jtag_MeasureIR E c octx n w = (m, c', w') \<longrightarrow> isl m \<and> c' = c \<and> waits E w w') \<and>
    (jtag_Idle E c octx n w = (e, c', w') \<longrightarrow> (e = None \<longrightarrow> n = 0) \<and> c' = c \<and> waits E w w')"
proof (intro conjI)
  show "jtag_Move E c octx t w = (e, c', w') \<longrightarrow> e \<noteq> None \<and> c' = c \<and> waits E w w'"
    using unknown_Move [OF assms] by blast
  show "jtag_ScanIR E c octx data bits w = (r, c', w') \<longrightarrow> snd r \<noteq> None \<and> c' = c \<and> waits E w w'"
    unfolding jtag_ScanIR_def using unknown_scan [OF assms] by blast
  show "jtag_ScanDR E c octx data bits w = (r, c', w') \<longrightarrow> snd r \<noteq> None \<and> c' = c \<and> waits E w w'"
    unfolding jtag_ScanDR_def using unknown_scan [OF assms] by blast
  show "jtag_MeasureIR E c octx n w = (m, c', w') \<longrightarrow> isl m \<and> c' = c \<and> waits E w w'"
    by (auto simp: jtag_MeasureIR_def Let_def dest!: jtag_validate_waits unknown_Move [OF assms]
        split: prod.splits sum.splits option.splits if_splits intro: waits_trans)
  show "jtag_Idle E c octx n w = (e, c', w') \<longrightarrow> (e = None \<longrightarrow> n = 0) \<and> c' = c \<and> waits E w w'"
    by (auto simp: jtag_Idle_def Let_def dest!: jtag_validate_waits unknown_Move [OF assms]
        split: prod.splits sum.splits option.splits if_splits intro: waits_trans)
qed

theorem unknown_needs_reset_witness:
  "\<exists>e. jtag_Move still_env (jtag_New (Some tap_wire) []) (Some (Caller 0)) Idle Reset =
     (Some e, jtag_New (Some tap_wire) [], Reset)"
proof -
  obtain e c w where m: "jtag_Move still_env (jtag_New (Some tap_wire) []) (Some (Caller 0)) Idle Reset = (e, c, w)"
    by (metis prod_cases3)
  have "jc_state (jtag_New (Some tap_wire) []) = Unknown" by simp
  from unknown_needs_reset [OF this, of still_env "Some (Caller 0)" Idle Reset] m
  have "e \<noteq> None \<and> c = jtag_New (Some tap_wire) [] \<and> waits still_env Reset w" by blast
  moreover have "w = Reset" if "waits still_env Reset w"
  proof -
    have "(poll_step still_env ^^ k) Reset = Reset" for k by (induction k) (simp_all add: still_env_def)
    with that show ?thesis by (auto simp: waits_def)
  qed
  ultimately show ?thesis using m by auto
qed

text \<open>Discovery decodes a buffer of the size the decoder needs.\<close>

lemma jtag_Discover_in_bounds:
  assumes "jtag_ScanDR E c octx input (32 * (n + 1)) w = ((data, None), c', w')" and "0 < n"
  shows "\<exists>r. observations (case data of None \<Rightarrow> [] | Some d \<Rightarrow> d) (nat n) = Some r"
proof -
  from assms(1) obtain d where d: "data = Some d"
    using jtag_scan_no_capture(1) [of E c octx input _ ShiftDR w None]
    by (cases data) (auto simp: jtag_ScanDR_def)
  with assms have "length d = bytes_for (nat (32 * (n + 1)))"
    using jtag_scan_capture(2) by (auto simp: jtag_ScanDR_def)
  also have "nat (32 * (n + 1)) = 8 * (4 * (nat n + 1))" using assms(2) by simp
  finally have "length d = 4 * (nat n + 1)" by (simp only: bytes_for_mult8)
  with observations_loop_total [of 0 "[]" "nat n" d] d show ?thesis by (auto simp: observations_def)
qed

end
