(* ===== verification/Jtag_Chain.thy ===== *)
theory Jtag_Chain
  imports Jtag_Discover
begin

text \<open>
  The validated scan chain of \<open>src/jtag/layout.go\<close>, \<open>src/jtag/chain.go\<close> and \<open>src/jtag/tap.go\<close>:
  layouts, \<open>NewChain\<close>, \<open>Connect\<close>, \<open>Release\<close>, and the operations of a borrowed \<open>TAP\<close>. A chain
  owns its connection, so the connection is a field of the chain's record and raw use of the
  connection is an update of that field. A borrowed TAP is its index and generation; the zero TAP
  without a chain is not a value of the model.
\<close>

section \<open>Layouts\<close>

record TAPSpec =
  spec_ir :: nat
  spec_reset :: ObservedTAP

definition bad_idcode :: err where "bad_idcode = New ''jtag: invalid IR length or IDCODE'' []"
definition bad_ir :: err where "bad_ir = New ''jtag: invalid IR length'' []"
definition bad_layout :: err where "bad_layout = New ''jtag: bounded nonempty layout required'' []"
definition bad_spec :: err where "bad_spec = New ''jtag: invalid TAP specification'' []"

definition jtag_IDCODE :: "int \<Rightarrow> uint32 \<Rightarrow> err + TAPSpec" where
  "jtag_IDCODE irBits ident =
     (if irBits < 2 \<or> 64 < irBits \<or> ident AND 1 = 0 \<or> ident = - 1 then Inl bad_idcode
      else Inr \<lparr>spec_ir = nat irBits, spec_reset = \<lparr>obs_IDCODE = ident, obs_Bypass = False\<rparr>\<rparr>)"

definition jtag_Bypass :: "int \<Rightarrow> err + TAPSpec" where
  "jtag_Bypass irBits =
     (if irBits < 2 \<or> 64 < irBits then Inl bad_ir
      else Inr \<lparr>spec_ir = nat irBits, spec_reset = \<lparr>obs_IDCODE = 0, obs_Bypass = True\<rparr>\<rparr>)"

definition Layout_Validate :: "TAPSpec list \<Rightarrow> go_error" where
  "Layout_Validate l =
     (if length l = 0 \<or> 1024 < length l then Some bad_layout
      else if list_ex (\<lambda>spec. spec_ir spec < 2 \<or> 64 < spec_ir spec) l then Some bad_spec
      else None)"

section \<open>The chain\<close>

record 'w jtag_chain =
  ch_conn :: "'w jtag_conn option"
  ch_layout :: "TAPSpec list"
  ch_irBits :: nat
  ch_serial :: uint64
  ch_generation :: uint64
  ch_valid :: bool
  ch_released :: bool
  ch_selected :: int

definition connection_required :: err where
  "connection_required = New ''jtag: connection required'' []"
definition tap_count_mismatch :: err where
  "tap_count_mismatch = New ''jtag: TAP count mismatch'' []"
definition reset_mismatch :: "nat \<Rightarrow> err" where
  "reset_mismatch i = New ''jtag: reset register mismatch at TAP %d'' [int i]"
definition ir_total_mismatch :: err where
  "ir_total_mismatch = New ''jtag: total IR length mismatch'' []"
definition ir_capture_mismatch :: "nat \<Rightarrow> err" where
  "ir_capture_mismatch i = New ''jtag: IR capture mismatch at TAP %d'' [int i]"
definition ir_chain_exceeds :: err where
  "ir_chain_exceeds = New ''jtag: IR chain exceeds supplied layout'' []"
definition tap_out_of_range :: err where
  "tap_out_of_range = New ''jtag: TAP index out of range'' []"
definition bad_instruction :: err where
  "bad_instruction = New ''jtag: invalid instruction buffer'' []"
definition bad_selected_scan :: err where
  "bad_selected_scan = New ''jtag: invalid selected scan length or buffer'' []"

definition jtag_NewChain :: "'w jtag_conn option \<Rightarrow> TAPSpec list \<Rightarrow> err + 'w jtag_chain" where
  "jtag_NewChain conn layout =
     (case conn of
        None \<Rightarrow> Inl connection_required
      | Some c \<Rightarrow>
          (case Layout_Validate layout of
             Some e \<Rightarrow> Inl e
           | None \<Rightarrow>
               Inr \<lparr>ch_conn = Some c, ch_layout = layout,
                    ch_irBits = fold (\<lambda>spec n. n + spec_ir spec) layout 0,
                    ch_serial = 0, ch_generation = 0, ch_valid = False, ch_released = True,
                    ch_selected = - 1\<rparr>))"

text \<open>The comparison loop over the reset registers, from index \<open>i\<close> on.\<close>

fun match_resets :: "nat \<Rightarrow> TAPSpec list \<Rightarrow> ObservedTAP list \<Rightarrow> go_error" where
  "match_resets i (spec # specs) (t # ts) =
     (if t \<noteq> spec_reset spec then Some (reset_mismatch i) else match_resets (i + 1) specs ts)"
| "match_resets i _ _ = None"

fun checkIR_loop :: "byte list \<Rightarrow> nat \<Rightarrow> nat \<Rightarrow> TAPSpec list \<Rightarrow> go_error" where
  "checkIR_loop capture i offset [] =
     (case jtag_word capture offset of
        None \<Rightarrow> Some index_panic
      | Some v \<Rightarrow> if v \<noteq> - 1 then Some ir_chain_exceeds else None)"
| "checkIR_loop capture i offset (spec # specs) =
     (if get capture offset \<noteq> 1 \<or> get capture (offset + 1) \<noteq> 0 then Some (ir_capture_mismatch i)
      else checkIR_loop capture (i + 1) (offset + spec_ir spec) specs)"

definition Chain_checkIR :: "'w jtag_chain \<Rightarrow> byte list \<Rightarrow> go_error" where
  "Chain_checkIR c capture = checkIR_loop capture 0 0 (ch_layout c)"

definition Chain_ready :: "'w jtag_chain \<Rightarrow> bool" where
  "Chain_ready c =
     (case ch_conn c of None \<Rightarrow> False | Some conn \<Rightarrow> ch_valid c \<and> ch_serial c = jc_serial conn)"

text \<open>
  The body of \<open>Connect\<close> behind the generation increment; the deferred function that clears
  \<open>released\<close> once traffic was sent is in \<open>Chain_Connect\<close>.
\<close>

definition Chain_Connect_body ::
  "'w go_env \<Rightarrow> 'w jtag_chain \<Rightarrow> 'w jtag_conn \<Rightarrow> ctx option \<Rightarrow> 'w \<Rightarrow>
   go_error \<times> 'w jtag_chain \<times> 'w jtag_conn \<times> 'w" where
  "Chain_Connect_body E c conn octx w =
     (case jtag_Discover E conn octx (int (length (ch_layout c))) w of
        ((_, Some e), conn1, w1) \<Rightarrow> (Some e, c, conn1, w1)
      | ((found, None), conn1, w1) \<Rightarrow>
          if length found \<noteq> length (ch_layout c) then (Some tap_count_mismatch, c, conn1, w1)
          else
            (case match_resets 0 (ch_layout c) found of
               Some e \<Rightarrow> (Some e, c, conn1, w1)
             | None \<Rightarrow>
                 (case jtag_MeasureIR E conn1 octx 65536 w1 of
                    (Inl e, conn2, w2) \<Rightarrow> (Some e, c, conn2, w2)
                  | (Inr len, conn2, w2) \<Rightarrow>
                      if len \<noteq> ch_irBits c then (Some ir_total_mismatch, c, conn2, w2)
                      else
                        (case jtag_ScanIR E conn2 octx (ones (ch_irBits c + 32))
                                (int (ch_irBits c + 32)) w2 of
                           ((_, Some e), conn3, w3) \<Rightarrow> (Some e, c, conn3, w3)
                         | ((capture, None), conn3, w3) \<Rightarrow>
                             (case Chain_checkIR c (case capture of None \<Rightarrow> [] | Some d \<Rightarrow> d) of
                                Some e \<Rightarrow> (Some e, c, conn3, w3)
                              | None \<Rightarrow>
                                  (None, c\<lparr>ch_serial := jc_serial conn3, ch_valid := True\<rparr>, conn3, w3))))))"

definition Chain_Connect ::
  "'w go_env \<Rightarrow> 'w jtag_chain \<Rightarrow> ctx option \<Rightarrow> 'w \<Rightarrow> go_error \<times> 'w jtag_chain \<times> 'w" where
  "Chain_Connect E c octx w =
     (case ch_conn c of
        None \<Rightarrow> (Some (Sentinel JtagErrChainInvalid), c, w)
      | Some conn \<Rightarrow>
          (let c1 = c\<lparr>ch_valid := False, ch_selected := - 1, ch_generation := ch_generation c + 1\<rparr> in
           case Chain_Connect_body E c1 conn octx w of
             (e, c2, conn', w') \<Rightarrow>
               (e, c2\<lparr>ch_conn := Some conn',
                      ch_released := (if jc_serial conn' \<noteq> jc_serial conn then False else ch_released c2)\<rparr>,
                w')))"

definition Chain_Release ::
  "'w go_env \<Rightarrow> 'w jtag_chain \<Rightarrow> ctx option \<Rightarrow> 'w \<Rightarrow> go_error \<times> 'w jtag_chain \<times> 'w" where
  "Chain_Release E c octx w =
     (if ch_released c then (None, c, w)
      else
        (case (if Chain_ready c then (None, c, w) else Chain_Connect E c octx w) of
           (Some e, c1, w1) \<Rightarrow> (Some e, c1, w1)
         | (None, c1, w1) \<Rightarrow>
             (case ch_conn c1 of
                None \<Rightarrow> (Some (Sentinel JtagErrChainInvalid), c1, w1)
              | Some conn \<Rightarrow>
                  (case jtag_ScanIR E conn octx (ones (ch_irBits c1)) (int (ch_irBits c1)) w1 of
                     ((capture, e), conn', w2) \<Rightarrow>
                       (e, c1\<lparr>ch_conn := Some conn', ch_valid := False,
                              ch_generation := ch_generation c1 + 1,
                              ch_released := (capture \<noteq> None)\<rparr>, w2)))))"

definition Chain_CleanupPending :: "'w jtag_chain \<Rightarrow> bool" where
  "Chain_CleanupPending c = (ch_conn c \<noteq> None \<and> \<not> ch_released c)"

section \<open>Borrowed TAPs\<close>

record jtag_TAP =
  tap_index :: nat
  tap_generation :: uint64

definition Chain_TAP :: "'w jtag_chain \<Rightarrow> int \<Rightarrow> err + jtag_TAP" where
  "Chain_TAP c index =
     (if \<not> Chain_ready c then Inl (Sentinel JtagErrChainInvalid)
      else if index < 0 \<or> int (length (ch_layout c)) \<le> index then Inl tap_out_of_range
      else Inr \<lparr>tap_index = nat index, tap_generation = ch_generation c\<rparr>)"

definition TAP_valid :: "'w jtag_chain \<Rightarrow> jtag_TAP \<Rightarrow> bool" where
  "TAP_valid c t = (Chain_ready c \<and> tap_generation t = ch_generation c)"

definition jtag_extract :: "byte list \<Rightarrow> nat \<Rightarrow> nat \<Rightarrow> byte list" where
  "jtag_extract data offset bits = copy_bits (replicate (bytes_for bits) 0) 0 data offset bits"

definition Chain_complete :: "'w jtag_chain \<Rightarrow> 'w jtag_conn \<Rightarrow> go_error \<Rightarrow> 'w jtag_chain" where
  "Chain_complete c conn e =
     (let c1 = c\<lparr>ch_conn := Some conn, ch_serial := jc_serial conn\<rparr> in
      if e \<noteq> None then c1\<lparr>ch_valid := False, ch_selected := - 1\<rparr> else c1)"

text \<open>The loop that replaces a TAP's ones by its instruction.\<close>

definition select_bits :: "byte list \<Rightarrow> nat \<Rightarrow> byte list \<Rightarrow> nat \<Rightarrow> byte list" where
  "select_bits data offset instruction bits =
     fold (\<lambda>i buf.
        let mask = push_bit ((offset + i) mod 8) 1;
            buf1 = buf[(offset + i) div 8 := buf ! ((offset + i) div 8) AND NOT mask] in
        put buf1 (offset + i) (get instruction i)) [0..<bits] data"

definition TAP_ScanIR ::
  "'w go_env \<Rightarrow> 'w jtag_chain \<Rightarrow> jtag_TAP \<Rightarrow> ctx option \<Rightarrow> byte list \<Rightarrow> 'w \<Rightarrow>
   (err + byte list) \<times> 'w jtag_chain \<times> 'w" where
  "TAP_ScanIR E c t octx instruction w =
     (case ch_conn c of
        None \<Rightarrow> (Inl (Sentinel JtagErrChainInvalid), c, w)
      | Some conn \<Rightarrow>
          if \<not> TAP_valid c t then (Inl (Sentinel JtagErrChainInvalid), c, w)
          else
            (let bits = spec_ir (ch_layout c ! tap_index t) in
             if length instruction \<noteq> bytes_for bits \<or>
                bits mod 8 \<noteq> 0 \<and> drop_bit (bits mod 8) (instruction ! (length instruction - 1)) \<noteq> 0
             then (Inl bad_instruction, c, w)
             else
               (let offset = fold (\<lambda>spec n. n + spec_ir spec) (take (tap_index t) (ch_layout c)) 0;
                    data = select_bits (ones (ch_irBits c)) offset instruction bits in
                case jtag_ScanIR E conn octx data (int (ch_irBits c)) w of
                  ((capture, Some e), conn', w') \<Rightarrow> (Inl e, Chain_complete c conn' (Some e), w')
                | ((capture, None), conn', w') \<Rightarrow>
                    (Inr (jtag_extract (case capture of None \<Rightarrow> [] | Some d \<Rightarrow> d) offset bits),
                     (Chain_complete c conn' None)\<lparr>ch_selected := int (tap_index t)\<rparr>, w'))))"

definition TAP_ScanDR ::
  "'w go_env \<Rightarrow> 'w jtag_chain \<Rightarrow> jtag_TAP \<Rightarrow> ctx option \<Rightarrow> byte list \<Rightarrow> int \<Rightarrow> 'w \<Rightarrow>
   (err + byte list) \<times> 'w jtag_chain \<times> 'w" where
  "TAP_ScanDR E c t octx data bits w =
     (case ch_conn c of
        None \<Rightarrow> (Inl (Sentinel JtagErrChainInvalid), c, w)
      | Some conn \<Rightarrow>
          if \<not> TAP_valid c t then (Inl (Sentinel JtagErrChainInvalid), c, w)
          else if ch_selected c \<noteq> int (tap_index t)
          then (Inl (Sentinel JtagErrInstructionChanged), c, w)
          else if bits \<le> 0 \<or> MaxScanBits - int (length (ch_layout c)) + 1 < bits \<or>
                  length data < bytes_for (nat bits)
          then (Inl bad_selected_scan, c, w)
          else
            (let total = nat bits + length (ch_layout c) - 1;
                 input = copy_bits (replicate (bytes_for total) 0) (tap_index t) data 0 (nat bits) in
             case jtag_ScanDR E conn octx input (int total) w of
               ((capture, Some e), conn', w') \<Rightarrow> (Inl e, Chain_complete c conn' (Some e), w')
             | ((capture, None), conn', w') \<Rightarrow>
                 (Inr (jtag_extract (case capture of None \<Rightarrow> [] | Some d \<Rightarrow> d) (tap_index t) (nat bits)),
                  Chain_complete c conn' None, w')))"

definition TAP_Idle ::
  "'w go_env \<Rightarrow> 'w jtag_chain \<Rightarrow> jtag_TAP \<Rightarrow> ctx option \<Rightarrow> int \<Rightarrow> 'w \<Rightarrow>
   go_error \<times> 'w jtag_chain \<times> 'w" where
  "TAP_Idle E c t octx cycles w =
     (case ch_conn c of
        None \<Rightarrow> (Some (Sentinel JtagErrChainInvalid), c, w)
      | Some conn \<Rightarrow>
          if \<not> TAP_valid c t then (Some (Sentinel JtagErrChainInvalid), c, w)
          else
            (case jtag_Idle E conn octx cycles w of
               (e, conn', w') \<Rightarrow> (e, Chain_complete c conn' e, w')))"

section \<open>Buffers of a selected TAP\<close>

lemma fold_spec_sum: "fold (\<lambda>spec n. n + spec_ir spec) l k = k + sum_list (map spec_ir l)"
  by (induction l arbitrary: k) simp_all

lemma jtag_extract_pack: "jtag_extract data offset bits = pack (bslice data offset (offset + bits))"
  by (simp add: jtag_extract_def copy_bits_zeros)

lemma length_select_bits [simp]: "length (select_bits data offset instruction bits) = length data"
proof -
  have "length (fold (\<lambda>i buf. put (buf[(offset + i) div 8 := buf ! ((offset + i) div 8) AND NOT (push_bit ((offset + i) mod 8) 1)])
      (offset + i) (get instruction i)) xs buf) = length buf" for xs buf
    by (induction xs arbitrary: buf) simp_all
  then show ?thesis by (simp add: select_bits_def Let_def)
qed

lemma tbit_replace:
  assumes "k < 8 * length buf"
  shows "tbit (put (buf[k div 8 := buf ! (k div 8) AND NOT (push_bit (k mod 8) 1)]) k (get src i)) j =
    (if j = k then tbit src i else tbit buf j)"
proof -
  have len: "k div 8 < length buf" using assms by arith
  have "tbit (buf[k div 8 := buf ! (k div 8) AND NOT (push_bit (k mod 8) 1)]) j = (tbit buf j \<and> j \<noteq> k)"
  proof (cases "j div 8 = k div 8")
    case True
    then have "j = k \<longleftrightarrow> j mod 8 = k mod 8" by (metis mult_div_mod_eq)
    with True len show ?thesis
      by (auto simp: tbit_def bit_and_iff bit_not_iff bit_exp_iff)
  next
    case False
    then show ?thesis by (auto simp: tbit_def)
  qed
  then show ?thesis using assms by (cases "j = k") (simp_all add: get_tbit put_or_bit tbit_or_bit)
qed

lemma tbit_select_bits:
  "offset + bits \<le> 8 * length data \<Longrightarrow>
   tbit (select_bits data offset instruction bits) j =
     (if offset \<le> j \<and> j < offset + bits then tbit instruction (j - offset) else tbit data j)"
proof (induction bits)
  case 0
  show ?case by (auto simp: select_bits_def)
next
  case (Suc bits)
  define buf where "buf = select_bits data offset instruction bits"
  have "select_bits data offset instruction (Suc bits) =
     put (buf[(offset + bits) div 8 := buf ! ((offset + bits) div 8) AND NOT (push_bit ((offset + bits) mod 8) 1)])
       (offset + bits) (get instruction bits)"
    by (simp add: select_bits_def Let_def buf_def)
  with tbit_replace [of "offset + bits" buf instruction bits j] Suc.prems
  have "tbit (select_bits data offset instruction (Suc bits)) j =
      (if j = offset + bits then tbit instruction bits else tbit buf j)"
    by (simp add: buf_def)
  with Suc show ?case by (auto simp: buf_def)
qed

lemma select_bits_stream:
  assumes "offset + bits \<le> n"
  shows "bslice (select_bits (ones n) offset instruction bits) 0 n =
    replicate offset True @ bslice instruction 0 bits @ replicate (n - (offset + bits)) True"
proof (rule nth_equalityI)
  fix i assume "i < length (bslice (select_bits (ones n) offset instruction bits) 0 n)"
  then have i: "i < n" by simp
  have le: "offset + bits \<le> 8 * length (ones n)"
    using assms bytes_for_le(1) [of n] by (simp add: ones_def)
  have "tbit (ones n) i" using i by (simp add: ones_def)
  with i le assms show "bslice (select_bits (ones n) offset instruction bits) 0 n ! i =
      (replicate offset True @ bslice instruction 0 bits @ replicate (n - (offset + bits)) True) ! i"
    by (auto simp: tbit_select_bits nth_append)
qed (use assms in simp)

lemma padded_stream:
  assumes "i + bits \<le> n"
  shows "bslice (copy_bits (replicate (bytes_for n) 0) i data 0 bits) 0 n =
    replicate i False @ bslice data 0 bits @ replicate (n - (i + bits)) False"
proof (rule nth_equalityI)
  fix k assume "k < length (bslice (copy_bits (replicate (bytes_for n) 0) i data 0 bits) 0 n)"
  then have k: "k < n" by simp
  have le: "i + bits \<le> 8 * length (replicate (bytes_for n) (0 :: byte))"
    using assms bytes_for_le(1) [of n] by simp
  with k assms show "bslice (copy_bits (replicate (bytes_for n) 0) i data 0 bits) 0 n ! k =
      (replicate i False @ bslice data 0 bits @ replicate (n - (i + bits)) False) ! k"
    by (auto simp: tbit_copy_bits nth_append)
qed (use assms in simp)

section \<open>Well-formed chains\<close>

definition ir_offset :: "'w jtag_chain \<Rightarrow> nat \<Rightarrow> nat" where
  "ir_offset c i = sum_list (map spec_ir (take i (ch_layout c)))"

definition chain_wf :: "'w jtag_chain \<Rightarrow> bool" where
  "chain_wf c \<longleftrightarrow> Layout_Validate (ch_layout c) = None \<and>
     ch_irBits c = sum_list (map spec_ir (ch_layout c)) \<and> ch_conn c \<noteq> None \<and>
     (ch_valid c \<longrightarrow> \<not> ch_released c)"

lemma ir_offset_le:
  assumes "ch_irBits c = sum_list (map spec_ir (ch_layout c))" "i < length (ch_layout c)"
  shows "ir_offset c i + spec_ir (ch_layout c ! i) \<le> ch_irBits c"
proof -
  obtain a x b where l: "ch_layout c = a @ x # b" "length a = i"
  proof
    show "ch_layout c = take i (ch_layout c) @ ch_layout c ! i # drop (Suc i) (ch_layout c)"
      using assms(2) by (rule id_take_nth_drop)
    show "length (take i (ch_layout c)) = i" using assms(2) by simp
  qed
  have "take i (ch_layout c) = a" "ch_layout c ! i = x" using l by (auto simp: nth_append)
  then show ?thesis unfolding ir_offset_def assms(1) using l(1) by simp
qed

lemma jtag_NewChain_wf: "jtag_NewChain conn layout = Inr c \<Longrightarrow> chain_wf c"
  by (auto simp: jtag_NewChain_def chain_wf_def fold_spec_sum split: option.splits)

section \<open>Wire calls and the serial number\<close>

text \<open>The serial number moved by between \<open>m\<close> and \<open>n\<close> wire calls.\<close>

definition calls :: "nat \<Rightarrow> nat \<Rightarrow> 'w jtag_conn \<Rightarrow> 'w jtag_conn \<Rightarrow> bool" where
  "calls m n c c' \<longleftrightarrow> (\<exists>k. m \<le> k \<and> k \<le> n \<and> jc_serial c' = jc_serial c + of_nat k)"

lemma calls_refl [simp]: "calls 0 n c c"
  unfolding calls_def by (rule exI [of _ 0]) simp

lemma calls_trans:
  assumes "calls m1 n1 c c1" "calls m2 n2 c1 c2"
  shows "calls (m1 + m2) (n1 + n2) c c2"
proof -
  from assms obtain k l where "m1 \<le> k" "k \<le> n1" "jc_serial c1 = jc_serial c + of_nat k"
    "m2 \<le> l" "l \<le> n2" "jc_serial c2 = jc_serial c1 + of_nat l"
    by (auto simp: calls_def)
  then have "m1 + m2 \<le> k + l \<and> k + l \<le> n1 + n2 \<and> jc_serial c2 = jc_serial c + of_nat (k + l)"
    by (simp add: add.assoc)
  then show ?thesis unfolding calls_def by (rule exI)
qed

lemma calls_mono: "calls m n c c' \<Longrightarrow> m' \<le> m \<Longrightarrow> n \<le> n' \<Longrightarrow> calls m' n' c c'"
  unfolding calls_def by (meson order_trans)

lemma calls_state [simp]: "calls m n c (c'\<lparr>jc_state := s\<rparr>) = calls m n c c'"
  by (simp add: calls_def)

lemma calls_differ:
  assumes "calls 1 n c c'" "n < 2 ^ 64"
  shows "jc_serial c' \<noteq> jc_serial c"
proof -
  from assms obtain k where "1 \<le> k" "k < 2 ^ 64" "jc_serial c' = jc_serial c + of_nat k"
    by (auto simp: calls_def)
  moreover have "of_nat k \<noteq> (0 :: uint64)"
    using \<open>1 \<le> k\<close> \<open>k < 2 ^ 64\<close> by (auto simp: word_of_nat_eq_0_iff dest: dvd_imp_le)
  ultimately show ?thesis by simp
qed

lemma jtag_clock_calls: "jtag_clock E c octx tms tdi bits w = (r, c', w') \<Longrightarrow> calls 0 bits c c'"
  using jtag_clock_frame by (fastforce simp: calls_def)

lemma jtag_clock_calls_some:
  assumes "jtag_clock E c octx tms tdi bits w = (Inr out, c', w')" and "0 < bits"
  shows "calls 1 bits c c'"
proof -
  from assms(1) obtain ctx W limit w1 where v: "jtag_validate E c octx w = (Inr (ctx, W, limit), w1)"
    and l: "jtag_clock_loop E ctx W limit tms tdi bits 0 (replicate (bytes_for bits) 0) c w1 = (Inr out, c', w')"
    by (auto simp: jtag_clock_def split: sum.splits prod.splits)
  have limit: "0 < limit" using jtag_validate_Inr(3) [OF v] .
  from l assms(2) limit show ?thesis
  proof (cases rule: jtag_clock_loop_cases)
    case (clocked do w2 n)
    from jtag_clock_loop_frame [OF clocked(4) limit] obtain k where
      "jc_serial c' = jc_serial c + 1 + of_nat k" "k \<le> bits - (0 + n)" by auto
    moreover have "0 < n" "n \<le> bits" using clocked(1) assms(2) limit by auto
    ultimately have "1 \<le> Suc k" "Suc k \<le> bits" "jc_serial c' = jc_serial c + of_nat (Suc k)"
      by (simp_all add: add.assoc)
    then show ?thesis unfolding calls_def by blast
  qed simp_all
qed

lemma path_length: "length (path s t) \<le> 16"
proof -
  have "list_all (\<lambda>s. list_all (\<lambda>t. length (path s t) \<le> 16) all_states) all_states" by code_simp
  then show ?thesis using all_states_complete [of s] all_states_complete [of t] by (auto simp: list_all_iff)
qed

lemma jtag_Reset_calls:
  "jtag_Reset E c octx w = (e, c', w') \<Longrightarrow> calls (if e = None then 1 else 0) 5 c c'"
  by (auto simp: jtag_Reset_def dest: jtag_clock_calls jtag_clock_calls_some [unfolded One_nat_def]
      split: prod.splits sum.splits)

lemma jtag_Move_calls: "jtag_Move E c octx t w = (e, c', w') \<Longrightarrow> calls 0 16 c c'"
  by (auto simp: jtag_Move_def Let_def
      dest!: jtag_clock_calls calls_mono [OF _ order_refl path_length]
      split: prod.splits sum.splits if_splits)

lemma jtag_scan_body_calls:
  assumes "jtag_scan_body E c cctx data bits shift w = (r, c', w')"
  shows "calls 0 (48 + bits) c c'"
proof -
  obtain e1 c1 w1 where m1: "jtag_Move E c (Some cctx) Idle w = (e1, c1, w1)" by (metis prod_cases3)
  obtain e2 c2 w2 where m2: "jtag_Move E c1 (Some cctx) shift w1 = (e2, c2, w2)" by (metis prod_cases3)
  obtain r3 c3 w3 where m3: "jtag_clock E c2 (Some cctx)
      (put (replicate (bytes_for bits) 0) (bits - 1) 1) data bits w2 = (r3, c3, w3)" by (metis prod_cases3)
  obtain e4 c4 w4 where m4: "jtag_Move E c3 (Some cctx) Idle w3 = (e4, c4, w4)" by (metis prod_cases3)
  note k1 = jtag_Move_calls [OF m1] and k2 = calls_trans [OF jtag_Move_calls [OF m1] jtag_Move_calls [OF m2]]
  note k3 = calls_trans [OF k2 jtag_clock_calls [OF m3]]
  note k4 = calls_trans [OF k3 jtag_Move_calls [OF m4]]
  have "calls 0 (48 + bits) c c1" "calls 0 (48 + bits) c c2" "calls 0 (48 + bits) c c3" "calls 0 (48 + bits) c c4"
    using k1 k2 k3 k4 by (auto elim: calls_mono)
  with assms m1 m2 m3 m4 show ?thesis
    by (auto simp: jtag_scan_body_def split: option.splits sum.splits)
qed

lemma jtag_finishScan_calls: "jtag_finishScan E c ctx n e w = (e', c', w') \<Longrightarrow> jc_serial c' = jc_serial c"
  by (auto simp: jtag_finishScan_def Let_def split: prod.splits)

lemma jtag_scan_calls:
  assumes "jtag_scan E c octx data bits shift w = (r, c', w')"
  shows "calls 0 (2 ^ 21) c c'"
proof -
  have step: "calls 0 (2 ^ 21) c c2"
    if "jtag_scan_body E c cctx data (nat bits) shift w1 = (r1, c1, w2)"
      "jtag_finishScan E c1 ctx k e w2 = (e1, c2, w3)" "bits \<le> MaxScanBits"
    for cctx w1 r1 c1 w2 ctx k e e1 c2 w3
  proof -
    have "calls 0 (48 + nat bits) c c1" by (rule jtag_scan_body_calls [OF that(1)])
    moreover have "48 + nat bits \<le> 2 ^ 21" using that(3) by (simp add: MaxScanBits_def)
    ultimately have "calls 0 (2 ^ 21) c c1" by (rule calls_mono [OF _ order_refl])
    then show ?thesis using jtag_finishScan_calls [OF that(2)] by (simp add: calls_def)
  qed
  from assms step show ?thesis
    by (auto simp: jtag_scan_def Let_def simp del: One_nat_def split: sum.splits prod.splits if_splits)
qed

lemma jtag_Discover_calls:
  assumes "jtag_Discover E c octx n w = ((found, e), c', w')"
  shows "calls (if e = None then 1 else 0) (2 ^ 22) c c'"
proof -
  have zero: "calls 0 (2 ^ 22) c c" by simp
  have reset: "calls 0 (2 ^ 22) c c1" if "jtag_Reset E c octx w1 = (e1, c1, w2)" for w1 e1 c1 w2
    using jtag_Reset_calls [OF that] by (rule calls_mono) simp_all
  have both: "calls 1 (2 ^ 22) c c2 \<and> calls 0 (2 ^ 22) c c2"
    if "jtag_Reset E c octx w1 = (None, c1, w2)" "jtag_scan E c1 octx d m ShiftDR w2 = (r, c2, w3)"
    for w1 c1 w2 d m r c2 w3
    using calls_trans [OF jtag_Reset_calls [OF that(1)] jtag_scan_calls [OF that(2)]]
    by (auto elim: calls_mono)
  show ?thesis
    using assms zero reset both
    by (auto simp: jtag_Discover_def jtag_ScanDR_def Let_def
        split: prod.splits sum.splits option.splits if_splits; blast)
qed

lemma jtag_MeasureIR_calls:
  assumes "jtag_MeasureIR E c octx n w = (r, c', w')"
  shows "calls 0 (2 ^ 22) c c'"
proof (cases "n < 2 \<or> 65536 < n")
  case True
  with assms show ?thesis
    by (auto simp: jtag_MeasureIR_def split: prod.splits sum.splits)
next
  case False
  then have n: "nat n \<le> 65536" by linarith
  let ?m = "nat n" and ?B = "2 ^ 22 :: nat"
  obtain v w0 where v: "jtag_validate E c octx w = (v, w0)" by fastforce
  obtain e1 c1 w1 where m1: "jtag_Move E c octx Idle w0 = (e1, c1, w1)" by (metis prod_cases3)
  obtain e2 c2 w2 where m2: "jtag_Move E c1 octx ShiftIR w1 = (e2, c2, w2)" by (metis prod_cases3)
  obtain r3 c3 w3 where m3: "jtag_clock E c2 octx (replicate (bytes_for ?m) 0) (ones ?m) ?m w2 = (r3, c3, w3)"
    by (metis prod_cases3)
  obtain r4 c4 w4 where m4: "jtag_clock E c3 octx (put (replicate ((?m + 8) div 8) 0) ?m 1)
      ((ones (?m + 1))[0 := ones (?m + 1) ! 0 AND NOT 1]) (?m + 1) w3 = (r4, c4, w4)"
    by (metis prod_cases3)
  obtain e5 c5 w5 where m5: "jtag_Move E c4 octx Idle w4 = (e5, c5, w5)" by (metis prod_cases3)
  note k1 = jtag_Move_calls [OF m1] and k2 = calls_trans [OF jtag_Move_calls [OF m1] jtag_Move_calls [OF m2]]
  note k3 = calls_trans [OF k2 jtag_clock_calls [OF m3]]
  note k4 = calls_trans [OF k3 jtag_clock_calls [OF m4]]
  note k5 = calls_trans [OF k4 jtag_Move_calls [OF m5]]
  have calls: "calls 0 ?B c c" "calls 0 ?B c c1" "calls 0 ?B c c2" "calls 0 ?B c c3" "calls 0 ?B c c4" "calls 0 ?B c c5"
    using k1 k2 k3 k4 k5 n by (auto elim!: calls_mono)
  have "c' \<in> {c, c1, c2, c3, c4, c5}"
    using assms False
    unfolding jtag_MeasureIR_def v Let_def
    by (cases v; cases e1; cases e2; cases r3; cases r4; cases e5)
      (simp_all only: prod.case sum.case option.case m1 m2 m3 m4 m5 if_False prod.inject insert_iff simp_thms)
  then show ?thesis by (elim insertE emptyE) (simp_all only: calls)
qed

section \<open>What a successful Connect established\<close>

lemma jtag_scan_None:
  assumes "jtag_scan E c octx data bits shift w = ((capture, None), c', w')"
  obtains d where "capture = Some d" "jc_state c' = Idle" "length d = bytes_for (nat bits)"
proof (cases capture)
  case None
  from jtag_scan_no_capture(1) [OF assms [unfolded None]] show ?thesis by simp
next
  case (Some d)
  from jtag_scan_capture(1,2) [OF assms [unfolded Some]] show ?thesis by (rule that [OF Some])
qed

lemma match_resets_None:
  "length specs = length ts \<Longrightarrow> match_resets i specs ts = None \<longleftrightarrow> ts = map spec_reset specs"
  by (induction specs ts arbitrary: i rule: list_induct2) auto

lemma Chain_Connect_body_keeps:
  assumes "Chain_Connect_body E c conn octx w = (e, c', conn', w')"
  shows "c' = c \<or> e = None \<and> c' = c\<lparr>ch_serial := jc_serial conn', ch_valid := True\<rparr>"
  using assms
  by (auto simp: Chain_Connect_body_def split: prod.splits sum.splits option.splits if_splits)

lemma Chain_Connect_body_None:
  assumes "Chain_Connect_body E c conn octx w = (None, c', conn', w')"
  shows "c' = c\<lparr>ch_serial := jc_serial conn', ch_valid := True\<rparr>" and "jc_state conn' = Idle"
    and "calls 1 (2 ^ 24) conn conn'"
proof -
  from assms obtain found conn1 w1 len conn2 w2 capture where
    d: "jtag_Discover E conn octx (int (length (ch_layout c))) w = ((found, None), conn1, w1)" and
    m: "jtag_MeasureIR E conn1 octx 65536 w1 = (Inr len, conn2, w2)" and
    s: "jtag_scan E conn2 octx (ones (ch_irBits c + 32)) (int (ch_irBits c + 32)) ShiftIR w2 =
       ((capture, None), conn', w')" and
    c': "c' = c\<lparr>ch_serial := jc_serial conn', ch_valid := True\<rparr>"
    by (auto simp: Chain_Connect_body_def jtag_ScanIR_def
        split: prod.splits sum.splits option.splits if_splits)
  show "c' = c\<lparr>ch_serial := jc_serial conn', ch_valid := True\<rparr>" by (rule c')
  show "jc_state conn' = Idle" using s by (rule jtag_scan_None)
  from calls_trans [OF calls_trans [OF jtag_Discover_calls [OF d] jtag_MeasureIR_calls [OF m]] jtag_scan_calls [OF s]]
  show "calls 1 (2 ^ 24) conn conn'" by (auto elim: calls_mono)
qed

lemma Chain_Connect_None:
  assumes "Chain_Connect E c octx w = (None, c', w')"
  obtains conn conn' where "ch_conn c = Some conn"
    "c' = c\<lparr>ch_conn := Some conn', ch_serial := jc_serial conn', ch_generation := ch_generation c + 1,
            ch_valid := True, ch_released := False, ch_selected := - 1\<rparr>"
    "jc_state conn' = Idle"
proof -
  from assms obtain conn conn' c2 where conn: "ch_conn c = Some conn" and
    b: "Chain_Connect_body E (c\<lparr>ch_valid := False, ch_selected := - 1, ch_generation := ch_generation c + 1\<rparr>)
      conn octx w = (None, c2, conn', w')" and
    c': "c' = c2\<lparr>ch_conn := Some conn',
      ch_released := (if jc_serial conn' \<noteq> jc_serial conn then False else ch_released c2)\<rparr>"
    by (auto simp: Chain_Connect_def Let_def split: option.splits prod.splits)
  have "jc_serial conn' \<noteq> jc_serial conn"
    by (rule calls_differ [OF Chain_Connect_body_None(3) [OF b]]) simp
  with c' Chain_Connect_body_None(1,2) [OF b] that [OF conn, of conn'] show ?thesis by simp
qed

text \<open>A failed Connect: invalid, generation advanced, marked for cleanup if it sent anything.\<close>

lemma Chain_Connect_Some:
  assumes "Chain_Connect E c octx w = (Some e, c', w')" and "ch_conn c = Some conn"
  shows "\<exists>conn'. c' = c\<lparr>ch_conn := Some conn', ch_valid := False, ch_selected := - 1,
      ch_generation := ch_generation c + 1,
      ch_released := (if jc_serial conn' \<noteq> jc_serial conn then False else ch_released c)\<rparr>"
proof -
  let ?c1 = "c\<lparr>ch_valid := False, ch_selected := - 1, ch_generation := ch_generation c + 1\<rparr>"
  obtain e1 c2 conn' w2 where b: "Chain_Connect_body E ?c1 conn octx w = (e1, c2, conn', w2)"
    by (metis prod_cases4)
  with assms have e1: "e1 = Some e" and c': "c' = c2\<lparr>ch_conn := Some conn',
      ch_released := (if jc_serial conn' \<noteq> jc_serial conn then False else ch_released c2)\<rparr>"
    by (simp_all add: Chain_Connect_def)
  have "c2 = ?c1" using Chain_Connect_body_keeps [OF b] e1 by simp
  with c' show ?thesis by (intro exI [of _ conn']) simp
qed

lemma Chain_Connect_wf:
  assumes "Chain_Connect E c octx w = (e, c', w')" "chain_wf c"
  shows "chain_wf c' \<and> ch_generation c' = ch_generation c + 1 \<and> ch_layout c' = ch_layout c"
proof (cases e)
  case None
  with assms(1) have "Chain_Connect E c octx w = (None, c', w')" by simp
  then show ?thesis
    by (rule Chain_Connect_None) (use assms(2) in \<open>simp add: chain_wf_def\<close>)
next
  case (Some x)
  from assms(2) obtain conn where "ch_conn c = Some conn" by (auto simp: chain_wf_def)
  from Chain_Connect_Some [OF assms(1) [unfolded Some] this] assms(2) show ?thesis
    by (auto simp: chain_wf_def)
qed

section \<open>Every use of a chain\<close>

inductive chain_step :: "'w go_env \<Rightarrow> 'w jtag_chain \<times> 'w \<Rightarrow> 'w jtag_chain \<times> 'w \<Rightarrow> bool" for E where
  chain_Connect: "Chain_Connect E c octx w = (e, c', w') \<Longrightarrow> chain_step E (c, w) (c', w')"
| chain_Release: "Chain_Release E c octx w = (e, c', w') \<Longrightarrow> chain_step E (c, w) (c', w')"
| chain_ScanIR: "TAP_ScanIR E c t octx instruction w = (r, c', w') \<Longrightarrow> chain_step E (c, w) (c', w')"
| chain_ScanDR: "TAP_ScanDR E c t octx data bits w = (r, c', w') \<Longrightarrow> chain_step E (c, w) (c', w')"
| chain_Idle: "TAP_Idle E c t octx cycles w = (e, c', w') \<Longrightarrow> chain_step E (c, w) (c', w')"
| chain_raw: "ch_conn c = Some conn \<Longrightarrow> jtag_step E (conn, w) (conn', w') \<Longrightarrow>
    chain_step E (c, w) (c\<lparr>ch_conn := Some conn'\<rparr>, w')"

inductive_cases chain_stepE: "chain_step E (c, w) (c', w')"

text \<open>What each operation keeps: well-formedness, the layout, and a generation that only grows.\<close>

definition chain_grows :: "nat \<Rightarrow> nat \<Rightarrow> 'w jtag_chain \<Rightarrow> 'w jtag_chain \<Rightarrow> bool" where
  "chain_grows m n c c' \<longleftrightarrow> chain_wf c' \<and> ch_layout c' = ch_layout c \<and>
     (\<exists>k. m \<le> k \<and> k \<le> n \<and> ch_generation c' = ch_generation c + of_nat k)"

lemma chain_grows_same:
  "chain_wf c' \<Longrightarrow> ch_layout c' = ch_layout c \<Longrightarrow> ch_generation c' = ch_generation c \<Longrightarrow> chain_grows 0 n c c'"
  unfolding chain_grows_def by (auto intro!: exI [of _ 0])

lemma chain_grows_trans:
  assumes "chain_grows m1 n1 c c1" "chain_grows m2 n2 c1 c2"
  shows "chain_grows (m1 + m2) (n1 + n2) c c2"
proof -
  from assms obtain k l where "m1 \<le> k" "k \<le> n1" "ch_generation c1 = ch_generation c + of_nat k"
    "m2 \<le> l" "l \<le> n2" "ch_generation c2 = ch_generation c1 + of_nat l"
    by (auto simp: chain_grows_def)
  then have "m1 + m2 \<le> k + l \<and> k + l \<le> n1 + n2 \<and> ch_generation c2 = ch_generation c + of_nat (k + l)"
    by (simp add: add.assoc)
  then show ?thesis using assms unfolding chain_grows_def by (auto intro: exI [of _ "k + l"])
qed

lemma chain_grows_mono: "chain_grows m n c c' \<Longrightarrow> m' \<le> m \<Longrightarrow> n \<le> n' \<Longrightarrow> chain_grows m' n' c c'"
  unfolding chain_grows_def by (meson order_trans)

lemma Chain_Connect_grows: "Chain_Connect E c octx w = (e, c', w') \<Longrightarrow> chain_wf c \<Longrightarrow> chain_grows 1 1 c c'"
  unfolding chain_grows_def by (frule (1) Chain_Connect_wf) (auto intro!: exI [of _ 1])

lemma chain_complete_wf:
  "chain_wf c \<Longrightarrow> chain_wf (Chain_complete c conn e)"
  "chain_wf c \<Longrightarrow> chain_wf (c\<lparr>ch_selected := i\<rparr>)"
  "ch_layout (Chain_complete c conn e) = ch_layout c"
  "ch_generation (Chain_complete c conn e) = ch_generation c"
  by (auto simp: Chain_complete_def chain_wf_def Let_def)

lemma Chain_Release_cases:
  assumes "Chain_Release E c octx w = (e, c', w')" "chain_wf c"
  obtains (idle) "ch_released c" "e = None" "c' = c" "w' = w"
  | (invalid) x where "\<not> ch_released c" "e = Some x" "Chain_Connect E c octx w = (Some x, c', w')"
  | (parked) c1 w1 conn conn' capture where "\<not> ch_released c"
      "c1 = c \<and> w1 = w \<and> Chain_ready c \<or> Chain_Connect E c octx w = (None, c1, w1)"
      "chain_wf c1" "ch_conn c1 = Some conn"
      "jtag_scan E conn octx (ones (ch_irBits c1)) (int (ch_irBits c1)) ShiftIR w1 = ((capture, e), conn', w')"
      "c' = c1\<lparr>ch_conn := Some conn', ch_valid := False, ch_generation := ch_generation c1 + 1,
              ch_released := (capture \<noteq> None)\<rparr>"
proof (cases "ch_released c")
  case True
  then have "e = None" "c' = c" "w' = w" using assms(1) by (simp_all add: Chain_Release_def)
  then show ?thesis by (rule idle [OF True])
next
  case False
  obtain e1 c1 w1 where s: "(if Chain_ready c then (None, c, w) else Chain_Connect E c octx w) = (e1, c1, w1)"
    by (metis prod_cases3)
  show ?thesis
  proof (cases e1)
    case (Some x)
    with s have "Chain_Connect E c octx w = (Some x, c1, w1)" by (auto split: if_splits)
    moreover from assms(1) s Some False have "e = Some x" "c' = c1" "w' = w1"
      by (simp_all add: Chain_Release_def)
    ultimately show ?thesis by (intro invalid [OF False, of x]) simp_all
  next
    case None
    have via: "c1 = c \<and> w1 = w \<and> Chain_ready c \<or> Chain_Connect E c octx w = (None, c1, w1)"
      using s None by (auto split: if_splits)
    then have wf: "chain_wf c1" using assms(2) by (auto dest: Chain_Connect_wf)
    then obtain conn where conn: "ch_conn c1 = Some conn" by (auto simp: chain_wf_def)
    obtain capture e2 conn' w2 where scan: "jtag_scan E conn octx (ones (ch_irBits c1)) (int (ch_irBits c1)) ShiftIR w1 =
        ((capture, e2), conn', w2)" by (metis surj_pair)
    show ?thesis
      using assms(1) s None conn scan False
      by (intro parked [OF False via wf conn, of capture conn']) (auto simp: Chain_Release_def jtag_ScanIR_def)
  qed
qed

lemma Chain_Release_grows:
  assumes "Chain_Release E c octx w = (e, c', w')" "chain_wf c"
  shows "chain_grows (if ch_released c then 0 else 1) 2 c c'"
  using assms
proof (cases rule: Chain_Release_cases)
  case idle
  with assms(2) show ?thesis by (simp add: chain_grows_same)
next
  case (invalid x)
  with Chain_Connect_grows [OF invalid(3) assms(2)] show ?thesis by (auto elim: chain_grows_mono)
next
  case (parked c1 w1 conn conn' capture)
  from parked(2) have "chain_grows 0 1 c c1"
  proof (elim disjE conjE)
    assume "Chain_Connect E c octx w = (None, c1, w1)"
    from Chain_Connect_grows [OF this assms(2)] show ?thesis by (rule chain_grows_mono) simp_all
  qed (use assms(2) in \<open>simp add: chain_grows_same\<close>)
  moreover have "chain_grows 1 1 c1 c'"
    using parked(3,6) unfolding chain_grows_def by (auto simp: chain_wf_def intro!: exI [of _ 1])
  ultimately have "chain_grows (0 + 1) (1 + 1) c c'" by (rule chain_grows_trans)
  then show ?thesis by (rule chain_grows_mono) simp_all
qed

lemma TAP_ops_grow:
  "TAP_ScanIR E c t octx d w = (r, c', w') \<Longrightarrow> chain_wf c \<Longrightarrow> chain_grows 0 2 c c'"
  "TAP_ScanDR E c t octx d n w = (r, c', w') \<Longrightarrow> chain_wf c \<Longrightarrow> chain_grows 0 2 c c'"
  "TAP_Idle E c t octx n w = (e, c', w') \<Longrightarrow> chain_wf c \<Longrightarrow> chain_grows 0 2 c c'"
  by (auto simp: TAP_ScanIR_def TAP_ScanDR_def TAP_Idle_def Let_def chain_complete_wf
      split: option.splits if_splits prod.splits intro!: chain_grows_same)

lemma chain_step_grows:
  assumes "chain_step E (c, w) (c', w')" "chain_wf c"
  shows "chain_grows 0 2 c c'"
proof -
  have connect: "chain_grows 0 2 c c'" if "Chain_Connect E c octx w = (e, c', w')" for octx e
    using Chain_Connect_grows [OF that assms(2)] by (rule chain_grows_mono) simp_all
  have release: "chain_grows 0 2 c c'" if "Chain_Release E c octx w = (e, c', w')" for octx e
    using Chain_Release_grows [OF that assms(2)] by (rule chain_grows_mono) simp_all
  have raw: "chain_grows 0 2 c (c\<lparr>ch_conn := Some conn'\<rparr>)" for conn'
    using assms(2) by (auto simp: chain_wf_def intro!: chain_grows_same)
  from assms(1) show ?thesis
    by (rule chain_stepE) (auto intro: connect release raw TAP_ops_grow assms(2))
qed

lemma chain_steps_grow:
  assumes "(chain_step E ^^ n) (c, w) (c', w')" "chain_wf c"
  shows "chain_grows 0 (2 * n) c c'"
  using assms
proof (induction n arbitrary: c' w')
  case 0
  then show ?case by (simp add: chain_grows_same)
next
  case (Suc n)
  from Suc.prems(1) obtain c1 w1 where r: "(chain_step E ^^ n) (c, w) (c1, w1)" "chain_step E (c1, w1) (c', w')"
    by (auto elim: relpowp_Suc_E)
  have g: "chain_grows 0 (2 * n) c c1" by (rule Suc.IH [OF r(1) Suc.prems(2)])
  then have "chain_wf c1" by (simp add: chain_grows_def)
  from chain_grows_trans [OF g chain_step_grows [OF r(2) this]] show ?case by simp
qed

lemma reachable_chain_wf:
  assumes "jtag_NewChain conn layout = Inr c" and "(chain_step E)\<^sup>*\<^sup>* (c, w) (c', w')"
  shows "chain_wf c'"
proof -
  from assms(2) obtain n where "(chain_step E ^^ n) (c, w) (c', w')" by (auto simp: rtranclp_is_Sup_relpowp)
  from chain_steps_grow [OF this jtag_NewChain_wf [OF assms(1)]] show ?thesis by (simp add: chain_grows_def)
qed

text \<open>
  C13: \<open>Release\<close> of a chain without pending cleanup does nothing. Otherwise it leaves no TAP valid; an
  error-free return ends the cleanup, and the cleanup only ends with the connection parked in Idle,
  so that a failed release stays pending and can be retried.
\<close>

theorem Release_lifecycle:
  assumes "chain_wf c" and "Chain_Release E c octx w = (e, c', w')"
  shows "(\<not> Chain_CleanupPending c \<longrightarrow> e = None \<and> c' = c \<and> w' = w) \<and>
    (Chain_CleanupPending c \<longrightarrow> \<not> Chain_ready c' \<and> (e = None \<longrightarrow> \<not> Chain_CleanupPending c') \<and>
      (\<not> Chain_CleanupPending c' \<longrightarrow> (\<exists>conn. ch_conn c' = Some conn \<and> jc_state conn = Idle)))"
  using assms(2,1)
proof (cases rule: Chain_Release_cases)
  case idle
  with assms(1) show ?thesis by (simp add: Chain_CleanupPending_def)
next
  case (invalid x)
  from assms(1) obtain conn where "ch_conn c = Some conn" by (auto simp: chain_wf_def)
  from Chain_Connect_Some [OF invalid(3) this] invalid assms(1) show ?thesis
    by (auto simp: Chain_CleanupPending_def Chain_ready_def chain_wf_def split: if_splits)
next
  case (parked c1 w1 conn conn' capture)
  have "e = None \<Longrightarrow> capture \<noteq> None" using parked(5) jtag_scan_no_capture(1) by fastforce
  moreover have "capture \<noteq> None \<Longrightarrow> jc_state conn' = Idle" using parked(5) jtag_scan_capture(1) by fastforce
  ultimately show ?thesis using parked assms(1)
    by (auto simp: Chain_CleanupPending_def Chain_ready_def chain_wf_def)
qed

text \<open>
  C14: an instruction scan of a borrowed TAP sends its instruction at the TAP's place in the chain and
  ones, the BYPASS instruction, to every other TAP, and returns exactly the TAP's own bits of the
  capture; afterwards the TAP is selected and still valid. A failed scan returns its error and ends
  the validity of the TAP.
\<close>

theorem TAP_ScanIR_selects:
  assumes "chain_wf c" and "TAP_valid c t" and "ch_conn c = Some conn"
    and "tap_index t < length (ch_layout c)"
    and "bits = spec_ir (ch_layout c ! tap_index t)" and "off = ir_offset c (tap_index t)"
    and "length instruction = bytes_for bits"
    and "bits mod 8 \<noteq> 0 \<Longrightarrow> drop_bit (bits mod 8) (last instruction) = 0"
  shows "\<exists>data. bslice data 0 (ch_irBits c) =
      replicate off True @ bslice instruction 0 bits @ replicate (ch_irBits c - (off + bits)) True \<and>
    (case jtag_ScanIR E conn octx data (int (ch_irBits c)) w of
       ((Some capture, None), conn', w') \<Rightarrow>
         (\<exists>c'. TAP_ScanIR E c t octx instruction w = (Inr (pack (bslice capture off (off + bits))), c', w') \<and>
           TAP_valid c' t \<and> ch_selected c' = int (tap_index t) \<and> ch_conn c' = Some conn')
     | ((None, None), conn', w') \<Rightarrow> False
     | ((_, Some e), conn', w') \<Rightarrow>
         (\<exists>c'. TAP_ScanIR E c t octx instruction w = (Inl e, c', w') \<and> \<not> TAP_valid c' t))"
proof -
  define data where "data = select_bits (ones (ch_irBits c)) off instruction bits"
  have "off + bits \<le> ch_irBits c"
    unfolding assms(5,6) using assms(1,4) by (intro ir_offset_le) (auto simp: chain_wf_def)
  then have stream: "bslice data 0 (ch_irBits c) =
      replicate off True @ bslice instruction 0 bits @ replicate (ch_irBits c - (off + bits)) True"
    unfolding data_def by (rule select_bits_stream)
  obtain capture e conn' w' where scan: "jtag_ScanIR E conn octx data (int (ch_irBits c)) w = ((capture, e), conn', w')"
    by (metis surj_pair)
  have "2 \<le> bits"
    using assms(1,4,5) nth_mem by (fastforce simp: chain_wf_def Layout_Validate_def list_ex_iff split: if_splits)
  then have "instruction \<noteq> []" using assms(7) by (auto simp: bytes_for_def)
  then have guard: "\<not> (length instruction \<noteq> bytes_for bits \<or>
      bits mod 8 \<noteq> 0 \<and> drop_bit (bits mod 8) (instruction ! (length instruction - 1)) \<noteq> 0)"
    using assms(7,8) by (auto simp: last_conv_nth)
  have run: "TAP_ScanIR E c t octx instruction w =
      (case e of Some x \<Rightarrow> (Inl x, Chain_complete c conn' (Some x), w')
       | None \<Rightarrow> (Inr (jtag_extract (case capture of None \<Rightarrow> [] | Some d \<Rightarrow> d) off bits),
           (Chain_complete c conn' None)\<lparr>ch_selected := int (tap_index t)\<rparr>, w'))"
    unfolding TAP_ScanIR_def Let_def assms(3) option.case assms(5) [symmetric] fold_spec_sum add_0
      assms(6) [unfolded ir_offset_def, symmetric] data_def [symmetric] scan prod.case
    by (simp only: assms(2) guard if_False not_True_eq_False)
  have some: "capture \<noteq> None" if "e = None"
    using scan that by (auto simp: jtag_ScanIR_def elim: jtag_scan_None)
  have result: "case ((capture, e), conn', w') of
       ((Some capture, None), conn', w') \<Rightarrow>
         (\<exists>c'. TAP_ScanIR E c t octx instruction w = (Inr (pack (bslice capture off (off + bits))), c', w') \<and>
           TAP_valid c' t \<and> ch_selected c' = int (tap_index t) \<and> ch_conn c' = Some conn')
     | ((None, None), conn', w') \<Rightarrow> False
     | ((_, Some e), conn', w') \<Rightarrow>
         (\<exists>c'. TAP_ScanIR E c t octx instruction w = (Inl e, c', w') \<and> \<not> TAP_valid c' t)"
    using some run assms(2)
    by (auto simp: jtag_extract_pack Chain_complete_def TAP_valid_def Chain_ready_def Let_def
        split: option.splits)
  show ?thesis unfolding scan using stream result scan by (intro exI [of _ data] conjI) simp_all
qed

text \<open>
  C15: a data scan of the selected TAP pads its data with one bypass bit for every other TAP, at the
  TAP's place, and returns exactly the TAP's own bits of the capture; every other TAP's data scan is
  refused with \<open>ErrInstructionChanged\<close> and no traffic.
\<close>

theorem TAP_ScanDR_pads:
  assumes "TAP_valid c t" and "ch_conn c = Some conn" and "tap_index t < length (ch_layout c)"
    and "0 < bits" and "int bits \<le> MaxScanBits - int (length (ch_layout c)) + 1"
    and "bytes_for bits \<le> length data" and "n = bits + length (ch_layout c) - 1"
  shows "if ch_selected c \<noteq> int (tap_index t)
    then TAP_ScanDR E c t octx data (int bits) w = (Inl (Sentinel JtagErrInstructionChanged), c, w)
    else \<exists>input. bslice input 0 n =
        replicate (tap_index t) False @ bslice data 0 bits @ replicate (n - (tap_index t + bits)) False \<and>
      (case jtag_ScanDR E conn octx input (int n) w of
         ((Some capture, None), conn', w') \<Rightarrow>
           (\<exists>c'. TAP_ScanDR E c t octx data (int bits) w =
              (Inr (pack (bslice capture (tap_index t) (tap_index t + bits))), c', w') \<and> TAP_valid c' t)
       | ((None, None), conn', w') \<Rightarrow> False
       | ((_, Some e), conn', w') \<Rightarrow>
           (\<exists>c'. TAP_ScanDR E c t octx data (int bits) w = (Inl e, c', w') \<and> \<not> TAP_valid c' t))"
proof (cases "ch_selected c = int (tap_index t)")
  case False
  with assms(1,2) show ?thesis by (simp add: TAP_ScanDR_def)
next
  case True
  define input where "input = copy_bits (replicate (bytes_for n) 0) (tap_index t) data 0 bits"
  have "tap_index t + bits \<le> n" using assms(3,4,7) by simp
  then have stream: "bslice input 0 n =
        replicate (tap_index t) False @ bslice data 0 bits @ replicate (n - (tap_index t + bits)) False"
    unfolding input_def by (rule padded_stream)
  obtain capture e conn' w' where scan: "jtag_ScanDR E conn octx input (int n) w = ((capture, e), conn', w')"
    by (metis surj_pair)
  have run: "TAP_ScanDR E c t octx data (int bits) w =
      (case e of Some x \<Rightarrow> (Inl x, Chain_complete c conn' (Some x), w')
       | None \<Rightarrow> (Inr (jtag_extract (case capture of None \<Rightarrow> [] | Some d \<Rightarrow> d) (tap_index t) bits),
           Chain_complete c conn' None, w'))"
    using assms(1,2,4-6) True scan
    by (simp add: TAP_ScanDR_def Let_def input_def assms(7) split: option.split)
  have some: "capture \<noteq> None" if "e = None"
    using scan that by (auto simp: jtag_ScanDR_def elim: jtag_scan_None)
  have result: "case ((capture, e), conn', w') of
         ((Some capture, None), conn', w') \<Rightarrow>
           (\<exists>c'. TAP_ScanDR E c t octx data (int bits) w =
              (Inr (pack (bslice capture (tap_index t) (tap_index t + bits))), c', w') \<and> TAP_valid c' t)
       | ((None, None), conn', w') \<Rightarrow> False
       | ((_, Some e), conn', w') \<Rightarrow>
           (\<exists>c'. TAP_ScanDR E c t octx data (int bits) w = (Inl e, c', w') \<and> \<not> TAP_valid c' t)"
    using some run assms(1)
    by (auto simp: jtag_extract_pack Chain_complete_def TAP_valid_def Chain_ready_def Let_def
        split: option.splits)
  show ?thesis using True stream result scan by (simp only: simp_thms if_False) (intro exI [of _ input] conjI; simp)
qed

section \<open>A chain of two TAPs\<close>

definition two_TAPs :: "TAPSpec list" where
  "two_TAPs = [\<lparr>spec_ir = 4, spec_reset = \<lparr>obs_IDCODE = 0, obs_Bypass = True\<rparr>\<rparr>,
     \<lparr>spec_ir = 5, spec_reset = \<lparr>obs_IDCODE = 0x4BA00477, obs_Bypass = False\<rparr>\<rparr>]"

definition two_TAP_chain :: "State jtag_chain" where
  "two_TAP_chain = \<lparr>ch_conn = Some ((jtag_New (Some tap_wire) [])\<lparr>jc_state := Idle\<rparr>),
     ch_layout = two_TAPs, ch_irBits = 9, ch_serial = 0, ch_generation = 1, ch_valid = True,
     ch_released = False, ch_selected = 1\<rparr>"

lemma two_TAP_chain_wf:
  "chain_wf two_TAP_chain" "TAP_valid two_TAP_chain \<lparr>tap_index = 1, tap_generation = 1\<rparr>"
  by (simp_all add: two_TAP_chain_def two_TAPs_def chain_wf_def Layout_Validate_def TAP_valid_def
      Chain_ready_def jtag_New_def)

theorem Release_lifecycle_witness:
  "\<exists>e c1 w1. Chain_Release still_env two_TAP_chain (Some (Caller 0)) Idle = (e, c1, w1) \<and> \<not> Chain_ready c1"
proof -
  obtain e c1 w1 where r: "Chain_Release still_env two_TAP_chain (Some (Caller 0)) Idle = (e, c1, w1)"
    by (metis prod_cases3)
  have "Chain_CleanupPending two_TAP_chain" by (simp add: two_TAP_chain_def Chain_CleanupPending_def)
  with Release_lifecycle [OF two_TAP_chain_wf(1) r] r show ?thesis by blast
qed

theorem TAP_ScanIR_selects_witness:
  "\<exists>data c' w'. bslice data 0 9 = replicate 4 True @ bslice [0x0A] 0 5 \<and>
     TAP_ScanIR still_env two_TAP_chain \<lparr>tap_index = 1, tap_generation = 1\<rparr> (Some (Caller 0)) [0x0A] Idle = (Inr [0], c', w') \<and>
     TAP_valid c' \<lparr>tap_index = 1, tap_generation = 1\<rparr> \<and> ch_selected c' = 1"
proof -
  let ?t = "\<lparr>tap_index = 1, tap_generation = 1\<rparr>"
  have c: "ch_conn two_TAP_chain = Some ((jtag_New (Some tap_wire) [])\<lparr>jc_state := Idle\<rparr>)"
    "tap_index ?t < length (ch_layout two_TAP_chain)" "5 = spec_ir (ch_layout two_TAP_chain ! tap_index ?t)"
    "4 = ir_offset two_TAP_chain (tap_index ?t)" "length [0x0A :: byte] = bytes_for 5"
    "drop_bit (5 mod 8) (last [0x0A :: byte]) = 0" "ch_irBits two_TAP_chain = 9"
    by (simp_all add: two_TAP_chain_def two_TAPs_def ir_offset_def bytes_for_def drop_bit_eq_div)
  have run: "fst (TAP_ScanIR still_env two_TAP_chain ?t (Some (Caller 0)) [0x0A] Idle) = Inr [0]" by code_simp
  from TAP_ScanIR_selects [OF two_TAP_chain_wf c(1-6), of still_env "Some (Caller 0)" Idle] obtain data where
    stream: "bslice data 0 9 = replicate 4 True @ bslice [0x0A] 0 5 @ replicate (9 - (4 + 5)) True" and
    result: "case jtag_ScanIR still_env ((jtag_New (Some tap_wire) [])\<lparr>jc_state := Idle\<rparr>) (Some (Caller 0)) data (int 9) Idle of
       ((Some capture, None), conn', w') \<Rightarrow>
         (\<exists>c'. TAP_ScanIR still_env two_TAP_chain ?t (Some (Caller 0)) [0x0A] Idle =
            (Inr (pack (bslice capture 4 (4 + 5))), c', w') \<and>
           TAP_valid c' ?t \<and> ch_selected c' = int (tap_index ?t) \<and> ch_conn c' = Some conn')
     | ((None, None), conn', w') \<Rightarrow> False
     | ((_, Some e), conn', w') \<Rightarrow>
         (\<exists>c'. TAP_ScanIR still_env two_TAP_chain ?t (Some (Caller 0)) [0x0A] Idle = (Inl e, c', w') \<and> \<not> TAP_valid c' ?t)"
    unfolding c(7) by (elim exE conjE)
  from result run have "\<exists>c' w'. TAP_ScanIR still_env two_TAP_chain ?t (Some (Caller 0)) [0x0A] Idle = (Inr [0], c', w') \<and>
      TAP_valid c' ?t \<and> ch_selected c' = 1"
    by (auto split: prod.splits option.splits)
  with stream show ?thesis by auto
qed

theorem TAP_ScanDR_pads_witness:
  "\<exists>input c' w'. bslice input 0 9 = [False] @ bslice [0xA5] 0 8 \<and>
     TAP_ScanDR still_env two_TAP_chain \<lparr>tap_index = 1, tap_generation = 1\<rparr> (Some (Caller 0)) [0xA5] 8 Idle = (Inr [0], c', w') \<and>
     TAP_valid c' \<lparr>tap_index = 1, tap_generation = 1\<rparr>"
proof -
  let ?t = "\<lparr>tap_index = 1, tap_generation = 1\<rparr>"
  have c: "ch_conn two_TAP_chain = Some ((jtag_New (Some tap_wire) [])\<lparr>jc_state := Idle\<rparr>)"
    "tap_index ?t < length (ch_layout two_TAP_chain)" "0 < (8 :: nat)"
    "int 8 \<le> MaxScanBits - int (length (ch_layout two_TAP_chain)) + 1"
    "bytes_for 8 \<le> length [0xA5 :: byte]" "9 = 8 + length (ch_layout two_TAP_chain) - 1"
    by (simp_all add: two_TAP_chain_def two_TAPs_def bytes_for_def MaxScanBits_def)
  have sel: "(ch_selected two_TAP_chain \<noteq> int (tap_index ?t)) = False" by (simp add: two_TAP_chain_def)
  have run: "fst (TAP_ScanDR still_env two_TAP_chain ?t (Some (Caller 0)) [0xA5] 8 Idle) = Inr [0]" by code_simp
  from TAP_ScanDR_pads [OF two_TAP_chain_wf(2) c, of still_env "Some (Caller 0)" Idle] obtain input where
    stream: "bslice input 0 9 = replicate (tap_index ?t) False @ bslice [0xA5] 0 8 @ replicate (9 - (tap_index ?t + 8)) False" and
    result: "case jtag_ScanDR still_env ((jtag_New (Some tap_wire) [])\<lparr>jc_state := Idle\<rparr>) (Some (Caller 0)) input (int 9) Idle of
         ((Some capture, None), conn', w') \<Rightarrow>
           (\<exists>c'. TAP_ScanDR still_env two_TAP_chain ?t (Some (Caller 0)) [0xA5] (int 8) Idle =
              (Inr (pack (bslice capture (tap_index ?t) (tap_index ?t + 8))), c', w') \<and> TAP_valid c' ?t)
       | ((None, None), conn', w') \<Rightarrow> False
       | ((_, Some e), conn', w') \<Rightarrow>
           (\<exists>c'. TAP_ScanDR still_env two_TAP_chain ?t (Some (Caller 0)) [0xA5] (int 8) Idle = (Inl e, c', w') \<and> \<not> TAP_valid c' ?t)"
    unfolding sel if_False by (elim exE conjE)
  from result run have "\<exists>c' w'. TAP_ScanDR still_env two_TAP_chain ?t (Some (Caller 0)) [0xA5] 8 Idle = (Inr [0], c', w') \<and>
      TAP_valid c' ?t"
    by (auto split: prod.splits option.splits)
  with stream show ?thesis by auto
qed

end
