(* ===== verification/Jtag_Device.thy ===== *)
theory Jtag_Device
  imports Jtag_Chain
begin

text \<open>
  The host code of \<open>src/jtag\<close> against a scan chain. The device is the boundary-scan standard's: a
  TAP controller, an instruction path and a data path that capture, shift from TDI towards TDO and
  update, and reset registers after Test-Logic-Reset. Over a wire that clocks such a device,
  \<open>Discover\<close> returns its reset registers, \<open>MeasureIR\<close> the length of its instruction path, and
  \<open>Connect\<close> accepts a layout exactly when the device has it.
\<close>

section \<open>The device\<close>

record chain_dev =
  cd_tap :: State
  cd_ir :: "bool list"
  cd_dr :: "bool list"
  cd_instr :: "bool list option"

text \<open>
  \<open>taps\<close> are the reset registers, \<open>irs\<close> the bits the instruction path captures, \<open>drs\<close> the data
  path an instruction selects. \<open>cd_instr\<close> is \<open>None\<close> after reset.
\<close>

definition dev_step ::
  "ObservedTAP list \<Rightarrow> bool list \<Rightarrow> (bool list \<Rightarrow> bool list) \<Rightarrow> chain_dev \<Rightarrow> bool \<Rightarrow> bool \<Rightarrow> bool \<times> chain_dev" where
  "dev_step taps irs drs d tms tdi =
     (let s = cd_tap d;
          tdo = (if s = ShiftDR then hd (cd_dr d @ [tdi])
                 else if s = ShiftIR then hd (cd_ir d @ [tdi]) else True);
          d1 = (case s of
                  CaptureDR \<Rightarrow> d\<lparr>cd_dr := (case cd_instr d of None \<Rightarrow> concat (map reset_bits taps) | Some i \<Rightarrow> drs i)\<rparr>
                | ShiftDR \<Rightarrow> d\<lparr>cd_dr := tl (cd_dr d @ [tdi])\<rparr>
                | CaptureIR \<Rightarrow> d\<lparr>cd_ir := irs\<rparr>
                | ShiftIR \<Rightarrow> d\<lparr>cd_ir := tl (cd_ir d @ [tdi])\<rparr>
                | UpdateIR \<Rightarrow> d\<lparr>cd_instr := Some (cd_ir d)\<rparr>
                | _ \<Rightarrow> d);
          s' = transitions s tms in
      (tdo, (if s' = Reset then d1\<lparr>cd_instr := None\<rparr> else d1)\<lparr>cd_tap := s'\<rparr>))"

lemma dev_step_tap: "cd_tap (snd (dev_step taps irs drs d tms tdi)) = transitions (cd_tap d) tms"
  by (simp add: dev_step_def Let_def split: State.splits)

lemma serial_run_tap:
  "serial_run (dev_step taps irs drs) d xs = (os, d') \<Longrightarrow> cd_tap d' = tap_run (cd_tap d) (map fst xs)"
proof (induction xs arbitrary: d os d')
  case (Cons x xs)
  obtain o1 d1 where 1: "dev_step taps irs drs d (fst x) (snd x) = (o1, d1)" by fastforce
  obtain os2 d2 where 2: "serial_run (dev_step taps irs drs) d1 xs = (os2, d2)" by fastforce
  from Cons.prems 1 2 have "d' = d2" by simp
  with Cons.IH [OF 2] dev_step_tap [of taps irs drs d "fst x" "snd x"] 1 show ?case by simp
qed simp

section \<open>Shifting\<close>

lemma shift_dr_low:
  "cd_tap d = ShiftDR \<Longrightarrow>
   serial_run (dev_step taps irs drs) d (map (Pair False) bs) =
     (take (length bs) (cd_dr d @ bs), d\<lparr>cd_dr := drop (length bs) (cd_dr d @ bs)\<rparr>)"
proof (induction bs arbitrary: d)
  case (Cons b bs)
  have "dev_step taps irs drs d False b = (hd (cd_dr d @ [b]), d\<lparr>cd_dr := tl (cd_dr d @ [b])\<rparr>)"
    using Cons.prems by (simp add: dev_step_def Let_def)
  moreover have "serial_run (dev_step taps irs drs) (d\<lparr>cd_dr := tl (cd_dr d @ [b])\<rparr>) (map (Pair False) bs) =
     (take (length bs) (tl (cd_dr d @ [b]) @ bs), d\<lparr>cd_dr := drop (length bs) (tl (cd_dr d @ [b]) @ bs)\<rparr>)"
    using Cons.IH [of "d\<lparr>cd_dr := tl (cd_dr d @ [b])\<rparr>"] Cons.prems by simp
  ultimately show ?case by (cases "cd_dr d") simp_all
qed simp

lemma shift_ir_low:
  "cd_tap d = ShiftIR \<Longrightarrow>
   serial_run (dev_step taps irs drs) d (map (Pair False) bs) =
     (take (length bs) (cd_ir d @ bs), d\<lparr>cd_ir := drop (length bs) (cd_ir d @ bs)\<rparr>)"
proof (induction bs arbitrary: d)
  case (Cons b bs)
  have "dev_step taps irs drs d False b = (hd (cd_ir d @ [b]), d\<lparr>cd_ir := tl (cd_ir d @ [b])\<rparr>)"
    using Cons.prems by (simp add: dev_step_def Let_def)
  moreover have "serial_run (dev_step taps irs drs) (d\<lparr>cd_ir := tl (cd_ir d @ [b])\<rparr>) (map (Pair False) bs) =
     (take (length bs) (tl (cd_ir d @ [b]) @ bs), d\<lparr>cd_ir := drop (length bs) (tl (cd_ir d @ [b]) @ bs)\<rparr>)"
    using Cons.IH [of "d\<lparr>cd_ir := tl (cd_ir d @ [b])\<rparr>"] Cons.prems by simp
  ultimately show ?case by (cases "cd_ir d") simp_all
qed simp

lemma last_high_zip:
  assumes "length bs = n" "0 < n"
  shows "zip (replicate (n - 1) False @ [True]) bs = map (Pair False) (butlast bs) @ [(True, last bs)]"
proof -
  from assms have "bs = butlast bs @ [last bs]" by (intro append_butlast_last_id [symmetric]) auto
  moreover have "zip (replicate (n - 1) False @ [True]) (butlast bs @ [last bs]) =
      map (Pair False) (butlast bs) @ [(True, last bs)]"
    using assms by (simp add: zip_replicate1)
  ultimately show ?thesis by metis
qed

lemma shift_last:
  assumes "m \<le> length xs"
  shows "take (Suc m) (xs @ [b]) = take m xs @ [hd (drop m xs @ [b])]"
    and "drop (Suc m) (xs @ [b]) = tl (drop m xs @ [b])"
proof -
  have d: "drop m xs @ [b] = drop m (xs @ [b])" using assms by simp
  have "(xs @ [b]) ! m = hd (drop m (xs @ [b]))" using assms by (intro hd_drop_conv_nth [symmetric]) simp
  then show "take (Suc m) (xs @ [b]) = take m xs @ [hd (drop m xs @ [b])]"
    using assms take_Suc_conv_app_nth [of m "xs @ [b]"] unfolding d by simp
  show "drop (Suc m) (xs @ [b]) = tl (drop m xs @ [b])"
    unfolding d by (simp only: drop_Suc tl_drop)
qed

lemma shift_dr:
  assumes "cd_tap d = ShiftDR" "length bs = n" "0 < n"
  shows "serial_run (dev_step taps irs drs) d (zip (replicate (n - 1) False @ [True]) bs) =
     (take n (cd_dr d @ bs), d\<lparr>cd_dr := drop n (cd_dr d @ bs), cd_tap := Exit1DR\<rparr>)"
proof -
  define m where "m = length (butlast bs)"
  have n: "n = Suc m" using assms(2,3) by (simp add: m_def)
  have bs: "bs = butlast bs @ [last bs]" using assms(2,3) by (intro append_butlast_last_id [symmetric]) auto
  let ?xs = "cd_dr d @ butlast bs"
  have "dev_step taps irs drs (d\<lparr>cd_dr := drop m ?xs\<rparr>) True (last bs) =
      (hd (drop m ?xs @ [last bs]), d\<lparr>cd_dr := tl (drop m ?xs @ [last bs]), cd_tap := Exit1DR\<rparr>)"
    using assms(1) by (simp add: dev_step_def Let_def)
  then have "serial_run (dev_step taps irs drs) d (map (Pair False) (butlast bs) @ [(True, last bs)]) =
      (take m ?xs @ [hd (drop m ?xs @ [last bs])],
       d\<lparr>cd_dr := tl (drop m ?xs @ [last bs]), cd_tap := Exit1DR\<rparr>)"
    using shift_dr_low [OF assms(1), of taps irs drs "butlast bs"]
    by (simp only: serial_run_append prod.case serial_run.simps fst_conv snd_conv m_def)
  moreover have "take m ?xs @ [hd (drop m ?xs @ [last bs])] = take n (cd_dr d @ bs)"
    "tl (drop m ?xs @ [last bs]) = drop n (cd_dr d @ bs)"
    using shift_last [of m ?xs "last bs"] bs by (simp_all add: n m_def)
  ultimately show ?thesis unfolding last_high_zip [OF assms(2,3)] by simp
qed

lemma shift_ir:
  assumes "cd_tap d = ShiftIR" "length bs = n" "0 < n"
  shows "serial_run (dev_step taps irs drs) d (zip (replicate (n - 1) False @ [True]) bs) =
     (take n (cd_ir d @ bs), d\<lparr>cd_ir := drop n (cd_ir d @ bs), cd_tap := Exit1IR\<rparr>)"
proof -
  define m where "m = length (butlast bs)"
  have n: "n = Suc m" using assms(2,3) by (simp add: m_def)
  have bs: "bs = butlast bs @ [last bs]" using assms(2,3) by (intro append_butlast_last_id [symmetric]) auto
  let ?xs = "cd_ir d @ butlast bs"
  have "dev_step taps irs drs (d\<lparr>cd_ir := drop m ?xs\<rparr>) True (last bs) =
      (hd (drop m ?xs @ [last bs]), d\<lparr>cd_ir := tl (drop m ?xs @ [last bs]), cd_tap := Exit1IR\<rparr>)"
    using assms(1) by (simp add: dev_step_def Let_def)
  then have "serial_run (dev_step taps irs drs) d (map (Pair False) (butlast bs) @ [(True, last bs)]) =
      (take m ?xs @ [hd (drop m ?xs @ [last bs])],
       d\<lparr>cd_ir := tl (drop m ?xs @ [last bs]), cd_tap := Exit1IR\<rparr>)"
    using shift_ir_low [OF assms(1), of taps irs drs "butlast bs"]
    by (simp only: serial_run_append prod.case serial_run.simps fst_conv snd_conv m_def)
  moreover have "take m ?xs @ [hd (drop m ?xs @ [last bs])] = take n (cd_ir d @ bs)"
    "tl (drop m ?xs @ [last bs]) = drop n (cd_ir d @ bs)"
    using shift_last [of m ?xs "last bs"] bs by (simp_all add: n m_def)
  ultimately show ?thesis unfolding last_high_zip [OF assms(2,3)] by simp
qed

section \<open>Reset over a bit-serial wire\<close>

lemma jtag_Reset_serial:
  assumes "serial_wire W step" and "usable c W" and "live E ctx"
    and "serial_run step w [(True, False), (True, False), (True, False), (True, False), (True, False)] = (os, w')"
  shows "\<exists>n. jtag_Reset E c (Some ctx) w = (None, c\<lparr>jc_serial := n, jc_state := Reset\<rparr>, w')"
proof -
  from assms(2,3) obtain limit where
    v: "jtag_validate E c (Some ctx) w = (Inr (ctx, W, limit), w)" by (rule jtag_validate_usable)
  have z: "zip (bslice [31] 0 5) (bslice [0] 0 5) =
      [(True, False), (True, False), (True, False), (True, False), (True, False)]"
    by code_simp
  from jtag_clock_serial [OF assms(1-3), of w "[31]" 5 "[0]" os w'] assms(4) obtain k where
    "jtag_clock E c (Some ctx) [31] [0] 5 w =
      (Inr (pack os), c\<lparr>jc_serial := jc_serial c + of_nat k, jc_state := tap_run (jc_state c) (bslice [31] 0 5)\<rparr>, w')"
    by (auto simp: z)
  with v show ?thesis by (auto simp: jtag_Reset_def)
qed

lemma dev_step_reset:
  "dev_step taps irs drs d tms tdi = (b, d') \<Longrightarrow> cd_tap d' = Reset \<Longrightarrow> cd_instr d' = None"
  by (auto simp: dev_step_def Let_def split: if_splits)

lemma reset_run:
  assumes "cd_tap d \<noteq> Unknown"
  obtains os d' where "serial_run (dev_step taps irs drs) d
      [(True, False), (True, False), (True, False), (True, False), (True, False)] = (os, d')"
    "cd_tap d' = Reset" "cd_instr d' = None"
proof -
  let ?four = "[(True, False), (True, False), (True, False), (True, False)]"
  obtain os1 d1 where r1: "serial_run (dev_step taps irs drs) d ?four = (os1, d1)" by fastforce
  obtain b d' where r2: "dev_step taps irs drs d1 True False = (b, d')" by fastforce
  have run: "serial_run (dev_step taps irs drs) d (?four @ [(True, False)]) = (os1 @ [b], d')"
    unfolding serial_run_append r1 prod.case by (simp add: r2)
  have "cd_tap d' = Reset"
    using serial_run_tap [OF run] five_high_clocks_reset [OF assms] by simp
  moreover from this have "cd_instr d' = None" by (rule dev_step_reset [OF r2])
  ultimately show ?thesis using that [of "os1 @ [b]" d'] run by simp
qed

section \<open>Discovery of a device\<close>

text \<open>No deadline passes while a scan runs.\<close>

definition timely :: "'w go_env \<Rightarrow> 'w jtag_conn \<Rightarrow> bool" where
  "timely E c \<longleftrightarrow> (\<forall>v v'. now E v < now E v' + jc_completionTimeout c)"

lemma paths [simp]:
  "path Reset Idle = [False]" "path Idle Idle = []" "path Idle ShiftDR = [True, False, False]"
  "path Idle ShiftIR = [True, True, False, False]"
  by code_simp+

lemma enter_dr:
  assumes "cd_tap d = Reset" "cd_instr d = None"
  shows "serial_run (dev_step taps irs drs) d
      [(False, False), (True, False), (False, False), (False, False)] =
    ([True, True, True, True], d\<lparr>cd_dr := concat (map reset_bits taps), cd_tap := ShiftDR\<rparr>)"
  using assms by (simp add: dev_step_def Let_def)

lemma enter_ir:
  assumes "cd_tap d = Idle"
  shows "serial_run (dev_step taps irs drs) d
      [(True, False), (True, False), (False, False), (False, False)] =
    ([True, True, True, True], d\<lparr>cd_ir := irs, cd_tap := ShiftIR\<rparr>)"
  using assms by (simp add: dev_step_def Let_def)

lemma leave_dr:
  assumes "cd_tap d = Exit1DR"
  shows "serial_run (dev_step taps irs drs) d [(True, False), (False, False)] = ([True, True], d\<lparr>cd_tap := Idle\<rparr>)"
  using assms by (simp add: dev_step_def Let_def)

lemma leave_ir:
  assumes "cd_tap d = Exit1IR"
  shows "serial_run (dev_step taps irs drs) d [(True, False), (False, False)] =
    ([True, True], d\<lparr>cd_tap := Idle, cd_instr := Some (cd_ir d)\<rparr>)"
  using assms by (simp add: dev_step_def Let_def)

lemma bslice_ones [simp]: "n \<le> 8 * k \<Longrightarrow> bslice (replicate k 0xFF) 0 n = replicate n True"
  by (rule nth_equalityI) simp_all

lemma bslice_ones' [simp]: "bslice (ones n) 0 n = replicate n True"
  by (simp add: ones_def bytes_for_le(1))

text \<open>A data scan right after reset sees the reset registers and then its own TDI bits.\<close>

lemma scan_resets:
  assumes "serial_wire W (dev_step taps irs drs)" and "usable c W" and "live E ctx" and "timely E c"
    and "jc_state c = Reset" and "cd_tap d = Reset" and "cd_instr d = None"
    and "0 < n" and "n \<le> 2 ^ 20" and "n \<le> 8 * k"
  shows "\<exists>m d'. jtag_scan E c (Some ctx) (replicate k 0xFF) (int n) ShiftDR d =
      ((Some (pack (take n (concat (map reset_bits taps) @ replicate n True))), None),
       c\<lparr>jc_serial := m, jc_state := Idle\<rparr>, d') \<and> cd_tap d' = Idle"
proof -
  let ?step = "dev_step taps irs drs" and ?bits = "concat (map reset_bits taps)"
  let ?d1 = "d\<lparr>cd_dr := ?bits, cd_tap := ShiftDR\<rparr>"
  let ?d2 = "?d1\<lparr>cd_dr := drop n (?bits @ replicate n True), cd_tap := Exit1DR\<rparr>"
  have r0: "serial_run ?step d (map (\<lambda>b. (b, False)) (path (jc_state c) Idle @ path Idle ShiftDR)) =
      ([True, True, True, True], ?d1)"
    using enter_dr [OF assms(6,7)] assms(5) by simp
  have r1: "serial_run ?step ?d1 (zip (replicate (n - 1) False @ [True]) (bslice (replicate k 0xFF) 0 n)) =
      (take n (?bits @ replicate n True), ?d2)"
    using shift_dr [of ?d1 "replicate n True" n] assms(8,10) by simp
  have r2: "serial_run ?step ?d2 [(True, False), (False, False)] = ([True, True], ?d2\<lparr>cd_tap := Idle\<rparr>)"
    by (rule leave_dr) simp
  have "bytes_for n \<le> length (replicate k (0xFF :: byte))" using assms(10) by (simp add: bytes_for_def)
  from jtag_scan_serial [OF assms(1-3) _ _ assms(8,9) this _ r0 r1 r2] assms(4,5) show ?thesis
    by (auto simp: timely_def)
qed

definition discovered :: "nat \<Rightarrow> ObservedTAP list \<Rightarrow> ObservedTAP list \<times> go_error" where
  "discovered n taps =
     (if taps = [] then ([], Some (Sentinel JtagErrNoChain))
      else if length taps \<le> n then (taps, None)
      else (take n taps, Some (Sentinel JtagErrDiscoveryLimit)))"

lemma shows_at_pack: "shows_at (pack bs) 0 bs"
  by (simp add: shows_at_def tbit_pack bytes_for_le(1) bytes_for_bound)

lemma observations_device:
  assumes "\<forall>t \<in> set taps. reset_register t" and "N = 32 * (n + 1)"
  shows "observations (pack (take N (concat (map reset_bits taps) @ replicate N True))) n = Some (discovered n taps)"
proof -
  let ?bits = "take N (concat (map reset_bits taps) @ replicate N True)"
  have len: "4 * (n + 1) \<le> length (pack ?bits)" by (simp add: assms(2) bytes_for_def)
  show ?thesis
  proof (cases "length taps \<le> n")
    case True
    let ?s = "concat (map reset_bits taps)"
    have "length ?s \<le> 32 * length taps" by (rule concat_reset_length)
    with True have l: "length ?s + 32 \<le> N" by (simp add: assms(2))
    then have "?bits = ?s @ replicate (N - length ?s) True" by simp
    also have "N - length ?s = 32 + (N - length ?s - 32)" using l by simp
    finally have bits: "?bits = ?s @ (replicate 32 True @ replicate (N - length ?s - 32) True)"
      by (simp only: replicate_add)
    have at: "shows_at (pack ?bits) 0 (?s @ (replicate 32 True @ replicate (N - length ?s - 32) True))"
      using shows_at_pack [of ?bits] unfolding bits .
    show ?thesis
      using observations_decodes [OF len at assms(1)] True by (simp add: discovered_def)
  next
    case False
    let ?ts = "take (Suc n) taps"
    let ?s = "concat (map reset_bits ?ts)" and ?r = "concat (map reset_bits (drop (Suc n) taps))"
    have split: "concat (map reset_bits taps) = ?s @ ?r"
      by (metis append_take_drop_id concat_append map_append)
    have "length ?s \<le> 32 * length ?ts" by (rule concat_reset_length)
    also have "\<dots> \<le> N" by (simp add: assms(2) min_def)
    finally have bits: "?bits = ?s @ take (N - length ?s) (?r @ replicate N True)"
      unfolding split by simp
    have at: "shows_at (pack ?bits) 0 (?s @ take (N - length ?s) (?r @ replicate N True))"
      using shows_at_pack [of ?bits] unfolding bits .
    have wf: "\<forall>t \<in> set ?ts. reset_register t" using assms(1) by (auto dest: in_set_takeD)
    have "\<not> length ?ts \<le> n" "?ts \<noteq> []" "take n ?ts = take n taps" using False by (auto simp: min_def)
    with observations_decodes [OF len at wf] False show ?thesis by (auto simp: discovered_def)
  qed
qed

lemma Discover_device:
  assumes "serial_wire W (dev_step taps irs drs)" and "usable c W" and "live E ctx" and "timely E c"
    and "cd_tap d \<noteq> Unknown" and "1 \<le> n" and "n \<le> 1024" and "\<forall>t \<in> set taps. reset_register t"
  shows "\<exists>m d'. jtag_Discover E c (Some ctx) (int n) d =
      (discovered n taps, c\<lparr>jc_serial := m, jc_state := Idle\<rparr>, d') \<and> cd_tap d' = Idle"
proof -
  from assms(2,3) obtain limit where
    v: "jtag_validate E c (Some ctx) d = (Inr (ctx, W, limit), d)" by (rule jtag_validate_usable)
  from assms(5) obtain os d1 where
    "serial_run (dev_step taps irs drs) d
      [(True, False), (True, False), (True, False), (True, False), (True, False)] = (os, d1)"
    and d1: "cd_tap d1 = Reset" "cd_instr d1 = None" by (rule reset_run)
  from jtag_Reset_serial [OF assms(1-3) this(1)] obtain m1 where
    reset: "jtag_Reset E c (Some ctx) d = (None, c\<lparr>jc_serial := m1, jc_state := Reset\<rparr>, d1)" by blast
  define c1 where "c1 = c\<lparr>jc_serial := m1, jc_state := Reset\<rparr>"
  define N where "N = 32 * (n + 1)"
  have c1: "usable c1 W" "timely E c1" "jc_state c1 = Reset"
    using assms(2,4) by (simp_all add: c1_def usable_def timely_def)
  have N: "0 < N" "N \<le> 2 ^ 20" "N \<le> 8 * (nat (int N) div 8)" "int N = 32 * (int n + 1)"
    using assms(6,7) unfolding nat_int by (simp_all add: N_def)
  from scan_resets [OF assms(1) c1(1) assms(3) c1(2,3) d1 N(1-3)] obtain m d' where
    scan: "jtag_scan E c1 (Some ctx) (replicate (nat (int N) div 8) 0xFF) (int N) ShiftDR d1 =
      ((Some (pack (take N (concat (map reset_bits taps) @ replicate N True))), None),
       c1\<lparr>jc_serial := m, jc_state := Idle\<rparr>, d')" and d': "cd_tap d' = Idle" by blast
  have "jtag_Discover E c (Some ctx) (int n) d = (discovered n taps, c1\<lparr>jc_serial := m, jc_state := Idle\<rparr>, d')"
    using assms(6,7) scan observations_device [OF assms(8) N_def]
    unfolding jtag_Discover_def v prod.case sum.case reset jtag_ScanDR_def Let_def N(4) c1_def [symmetric]
    by simp
  with d' show ?thesis by (auto simp: c1_def)
qed

section \<open>Measuring a device\<close>

lemma serial_replicate_ones:
  "zip (bslice (replicate (bytes_for n) 0) 0 n) (bslice (ones n) 0 n) = map (Pair False) (replicate n True)"
  by (rule nth_equalityI) simp_all

lemma marker_input:
  "bslice ((ones (n + 1))[0 := ones (n + 1) ! 0 AND NOT 1]) 0 (n + 1) = False # replicate n True"
proof (rule nth_equalityI)
  fix i assume "i < length (bslice ((ones (n + 1))[0 := ones (n + 1) ! 0 AND NOT 1]) 0 (n + 1))"
  then have i: "i < n + 1" by simp
  have o: "tbit (ones (n + 1)) i" using i by (simp add: ones_def)
  define x where "x = ones (n + 1) ! 0"
  have "tbit ((ones (n + 1))[0 := x AND NOT 1]) i = (i \<noteq> 0)"
  proof (cases "i < 8")
    case True
    then have 0: "i div 8 = 0" "i mod 8 = i" by simp_all
    moreover have "0 < length (ones (n + 1))" by (simp add: ones_def bytes_for_def)
    moreover have "bit (x AND NOT 1) i = (bit x i \<and> i \<noteq> 0)"
      using True by (auto simp: bit_and_iff bit_not_iff bit_1_iff)
    moreover have "bit x i" using o 0 by (simp add: tbit_def x_def)
    ultimately show ?thesis by (simp add: tbit_def)
  next
    case False
    then have "i div 8 \<noteq> 0" by simp
    with o False show ?thesis by (simp add: tbit_def)
  qed
  with i show "bslice ((ones (n + 1))[0 := ones (n + 1) ! 0 AND NOT 1]) 0 (n + 1) ! i = (False # replicate n True) ! i"
    unfolding x_def by (cases i) auto
qed simp

lemma marker_tms: "put (replicate ((n + 8) div 8) 0) n 1 = pack (replicate n False @ [True])"
proof -
  have "(n + 8) div 8 = bytes_for (n + 1)" by (simp add: bytes_for_def)
  then show ?thesis using last_tms_pack [of "n + 1"] by simp
qed

text \<open>After the flush the instruction path holds ones; the marker comes out behind all of them.\<close>

lemma marker_output:
  assumes "length irs = l" "2 \<le> l" "l \<le> n"
  shows "markerLength (pack (take (n + 1) (replicate l True @ False # replicate n True))) n = Inr l"
proof -
  have "tbit (pack (take (n + 1) (replicate l True @ False # replicate n True))) i = (i \<noteq> l)" if "i \<le> n" for i
  proof -
    have "i < 8 * bytes_for (length (take (n + 1) (replicate l True @ False # replicate n True)))"
      using that assms(3) by (intro bytes_for_bound) simp
    then show ?thesis using that assms(3)
      by (auto simp: tbit_pack nth_append nth_Cons split: nat.splits)
  qed
  with assms show ?thesis by (simp add: markerLength_iff)
qed

lemma shift_stays: "tap_run ShiftIR (replicate n False) = ShiftIR"
  by (induction n) simp_all

lemma MeasureIR_device:
  assumes "serial_wire W (dev_step taps irs drs)" and "usable c W" and "live E ctx"
    and "jc_state c = Idle" and "cd_tap d = Idle" and "2 \<le> length irs" and "length irs \<le> n" and "n \<le> 65536"
  shows "\<exists>m d'. jtag_MeasureIR E c (Some ctx) (int n) d =
      (Inr (length irs), c\<lparr>jc_serial := m, jc_state := Idle\<rparr>, d') \<and> cd_tap d' = Idle"
proof -
  let ?step = "dev_step taps irs drs" and ?l = "length irs"
  from assms(2,3) obtain limit where
    v: "jtag_validate E c (Some ctx) d = (Inr (ctx, W, limit), d)" by (rule jtag_validate_usable)
  have "serial_run ?step d (map (\<lambda>b. (b, False)) (path (jc_state c) Idle)) = ([], d)"
    using assms(4) by simp
  from jtag_Move_serial [OF assms(1-3) _ _ this] assms(4) obtain k1 where
    m1: "jtag_Move E c (Some ctx) Idle d = (None, c\<lparr>jc_serial := jc_serial c + of_nat k1, jc_state := Idle\<rparr>, d)"
    by auto
  define c1 where "c1 = c\<lparr>jc_serial := jc_serial c + of_nat k1, jc_state := Idle\<rparr>"
  have u1: "usable c1 W" "jc_state c1 = Idle" using assms(2) by (simp_all add: c1_def usable_def)
  let ?d2 = "d\<lparr>cd_ir := irs, cd_tap := ShiftIR\<rparr>"
  have "serial_run ?step d (map (\<lambda>b. (b, False)) (path (jc_state c1) ShiftIR)) = ([True, True, True, True], ?d2)"
    using u1(2) enter_ir [OF assms(5)] by simp
  from jtag_Move_serial [OF assms(1) u1(1) assms(3) _ _ this] u1(2) obtain k2 where
    m2: "jtag_Move E c1 (Some ctx) ShiftIR d =
      (None, c1\<lparr>jc_serial := jc_serial c1 + of_nat k2, jc_state := ShiftIR\<rparr>, ?d2)" by auto
  define c2 where "c2 = c1\<lparr>jc_serial := jc_serial c1 + of_nat k2, jc_state := ShiftIR\<rparr>"
  have u2: "usable c2 W" "jc_state c2 = ShiftIR" using u1 by (simp_all add: c2_def usable_def)
  let ?d3 = "?d2\<lparr>cd_ir := replicate ?l True\<rparr>"
  have "drop n (irs @ replicate n True) = replicate ?l True" using assms(7) by simp
  then have "serial_run ?step ?d2 (zip (bslice (replicate (bytes_for n) 0) 0 n) (bslice (ones n) 0 n)) =
      (take n (irs @ replicate n True), ?d3)"
    using shift_ir_low [of ?d2 taps irs drs "replicate n True"] unfolding serial_replicate_ones by simp
  from jtag_clock_serial [OF assms(1) u2(1) assms(3) this] obtain k3 where
    m3: "jtag_clock E c2 (Some ctx) (replicate (bytes_for n) 0) (ones n) n ?d2 =
      (Inr (pack (take n (irs @ replicate n True))),
       c2\<lparr>jc_serial := jc_serial c2 + of_nat k3,
          jc_state := tap_run (jc_state c2) (bslice (replicate (bytes_for n) 0) 0 n)\<rparr>, ?d3)" by blast
  define c3 where "c3 = c2\<lparr>jc_serial := jc_serial c2 + of_nat k3,
          jc_state := tap_run (jc_state c2) (bslice (replicate (bytes_for n) 0) 0 n)\<rparr>"
  have "bslice (replicate (bytes_for n) 0) 0 n = replicate n False" by (rule nth_equalityI) simp_all
  then have u3: "usable c3 W" "jc_state c3 = ShiftIR" using u2 by (simp_all add: c3_def usable_def shift_stays)
  let ?tms = "put (replicate ((n + 8) div 8) 0) n 1"
  let ?in = "(ones (n + 1))[0 := ones (n + 1) ! 0 AND NOT 1]"
  let ?out = "take (n + 1) (replicate ?l True @ False # replicate n True)"
  let ?d4 = "?d3\<lparr>cd_ir := drop (n + 1) (replicate ?l True @ False # replicate n True), cd_tap := Exit1IR\<rparr>"
  have tms: "bslice ?tms 0 (n + 1) = replicate (n + 1 - 1) False @ [True]"
    unfolding marker_tms by (subst bslice_pack) simp_all
  have "serial_run ?step ?d3 (zip (bslice ?tms 0 (n + 1)) (bslice ?in 0 (n + 1))) = (?out, ?d4)"
    using shift_ir [of ?d3 "False # replicate n True" "n + 1"] unfolding tms marker_input by simp
  from jtag_clock_serial [OF assms(1) u3(1) assms(3) this] obtain k4 where
    m4: "jtag_clock E c3 (Some ctx) ?tms ?in (n + 1) ?d3 = (Inr (pack ?out),
       c3\<lparr>jc_serial := jc_serial c3 + of_nat k4, jc_state := tap_run (jc_state c3) (bslice ?tms 0 (n + 1))\<rparr>, ?d4)"
    by blast
  define c4 where "c4 = c3\<lparr>jc_serial := jc_serial c3 + of_nat k4,
      jc_state := tap_run (jc_state c3) (bslice ?tms 0 (n + 1))\<rparr>"
  have u4: "usable c4 W" "jc_state c4 = Exit1IR"
    using u3 unfolding c4_def tms by (simp_all add: usable_def shift_stays)
  have "serial_run ?step ?d4 (map (\<lambda>b. (b, False)) (path (jc_state c4) Idle)) =
      ([True, True], ?d4\<lparr>cd_tap := Idle, cd_instr := Some (cd_ir ?d4)\<rparr>)"
    using u4(2) leave_ir [of ?d4] by simp
  from jtag_Move_serial [OF assms(1) u4(1) assms(3) _ _ this] u4(2) obtain k5 where
    m5: "jtag_Move E c4 (Some ctx) Idle ?d4 =
      (None, c4\<lparr>jc_serial := jc_serial c4 + of_nat k5, jc_state := Idle\<rparr>,
       ?d4\<lparr>cd_tap := Idle, cd_instr := Some (cd_ir ?d4)\<rparr>)" by auto
  have out: "markerLength (pack ?out) n = Inr ?l" using assms(6,7) by (intro marker_output) simp_all
  have "jtag_MeasureIR E c (Some ctx) (int n) d =
      (Inr ?l, c4\<lparr>jc_serial := jc_serial c4 + of_nat k5, jc_state := Idle\<rparr>,
       ?d4\<lparr>cd_tap := Idle, cd_instr := Some (cd_ir ?d4)\<rparr>)"
    using assms(6-8)
    unfolding jtag_MeasureIR_def v prod.case sum.case Let_def nat_int m1 c1_def [symmetric] option.case m2
      c2_def [symmetric] m3 c3_def [symmetric] m4 c4_def [symmetric] m5 out
    by simp
  then show ?thesis by (auto simp: c4_def c3_def c2_def c1_def)
qed

section \<open>Validating a layout against a device\<close>

lemma scan_ir_device:
  assumes "serial_wire W (dev_step taps irs drs)" and "usable c W" and "live E ctx" and "timely E c"
    and "jc_state c = Idle" and "cd_tap d = Idle" and "0 < n" and "n \<le> 2 ^ 20"
    and "length bs = n" and "bslice data 0 n = bs" and "bytes_for n \<le> length data"
  shows "\<exists>m d'. jtag_scan E c (Some ctx) data (int n) ShiftIR d =
      ((Some (pack (take n (irs @ bs))), None), c\<lparr>jc_serial := m, jc_state := Idle\<rparr>, d') \<and>
      cd_tap d' = Idle \<and> cd_instr d' = Some (drop n (irs @ bs))"
proof -
  let ?step = "dev_step taps irs drs"
  let ?d1 = "d\<lparr>cd_ir := irs, cd_tap := ShiftIR\<rparr>"
  let ?d2 = "?d1\<lparr>cd_ir := drop n (irs @ bs), cd_tap := Exit1IR\<rparr>"
  have r0: "serial_run ?step d (map (\<lambda>b. (b, False)) (path (jc_state c) Idle @ path Idle ShiftIR)) =
      ([True, True, True, True], ?d1)"
    using enter_ir [OF assms(6)] assms(5) by simp
  have r1: "serial_run ?step ?d1 (zip (replicate (n - 1) False @ [True]) (bslice data 0 n)) =
      (take n (irs @ bs), ?d2)"
    using shift_ir [of ?d1 bs n] assms(7,9,10) by simp
  have r2: "serial_run ?step ?d2 [(True, False), (False, False)] =
      ([True, True], ?d2\<lparr>cd_tap := Idle, cd_instr := Some (cd_ir ?d2)\<rparr>)"
    by (rule leave_ir) simp
  from jtag_scan_serial [OF assms(1-3) _ _ assms(7,8,11) _ r0 r1 r2] assms(4,5) show ?thesis
    by (auto simp: timely_def)
qed

text \<open>The instruction captures mark every TAP of the layout: a one and then a zero at its place.\<close>

fun ir_marks :: "TAPSpec list \<Rightarrow> bool list \<Rightarrow> bool" where
  "ir_marks [] bs = True"
| "ir_marks (spec # specs) bs = (bs ! 0 \<and> \<not> bs ! 1 \<and> ir_marks specs (drop (spec_ir spec) bs))"

lemma checkIR_loop_device:
  assumes "shows_at capture 0 (irs @ replicate 32 True)" and "offset \<le> length irs"
    and "length irs = offset + sum_list (map spec_ir specs)" and "\<forall>spec \<in> set specs. 2 \<le> spec_ir spec"
  shows "checkIR_loop capture i offset specs = None \<longleftrightarrow> ir_marks specs (drop offset irs)"
  using assms(2-)
proof (induction specs arbitrary: i offset)
  case Nil
  then have "shows_at capture offset (replicate 32 True)" using assms(1) by (simp add: shows_at_append)
  then have "jtag_word capture offset = Some (- 1)"
    by (subst jtag_word_ones) (simp_all add: shows_at_def)
  then show ?case by simp
next
  case (Cons spec specs)
  then have l: "offset + 2 \<le> length irs" by simp
  then have "tbit capture offset = irs ! offset" "tbit capture (offset + 1) = irs ! (offset + 1)"
    using assms(1) by (auto simp: shows_at_append shows_at_def [of _ _ irs])
  moreover have "drop offset irs ! 0 = irs ! offset" "drop offset irs ! 1 = irs ! (offset + 1)"
    using l by simp_all
  moreover have "checkIR_loop capture (i + 1) (offset + spec_ir spec) specs = None \<longleftrightarrow>
      ir_marks specs (drop (offset + spec_ir spec) irs)"
    using Cons.prems by (intro Cons.IH) auto
  moreover have "drop (offset + spec_ir spec) irs = drop (spec_ir spec) (drop offset irs)"
    by (simp add: add.commute)
  ultimately show ?case by (simp add: get_tbit)
qed

text \<open>The device has the layout.\<close>

definition has_layout :: "ObservedTAP list \<Rightarrow> bool list \<Rightarrow> TAPSpec list \<Rightarrow> bool" where
  "has_layout taps irs layout \<longleftrightarrow> taps = map spec_reset layout \<and>
     length irs = sum_list (map spec_ir layout) \<and> ir_marks layout irs"

lemma layout_bounds:
  assumes "Layout_Validate layout = None"
  shows "1 \<le> length layout" "length layout \<le> 1024" "\<forall>spec \<in> set layout. 2 \<le> spec_ir spec"
    "2 \<le> sum_list (map spec_ir layout)" "sum_list (map spec_ir layout) \<le> 65536"
proof -
  show l: "1 \<le> length layout" "length layout \<le> 1024" and m: "\<forall>spec \<in> set layout. 2 \<le> spec_ir spec"
    using assms by (auto simp: Layout_Validate_def list_ex_iff Suc_le_eq split: if_splits)
  have M: "\<forall>spec \<in> set layout. spec_ir spec \<le> 64"
    using assms by (auto simp: Layout_Validate_def list_ex_iff split: if_splits)
  from l m show "2 \<le> sum_list (map spec_ir layout)" by (cases layout) auto
  have "sum_list (map spec_ir layout) \<le> 64 * length layout" using M by (induction layout) auto
  with l show "sum_list (map spec_ir layout) \<le> 65536" by linarith
qed

lemma Connect_body_device:
  assumes W: "serial_wire W (dev_step taps irs drs)" and use: "usable conn W" and live: "live E ctx"
    and time: "timely E conn" and wf: "Layout_Validate (ch_layout c) = None"
    and ir: "ch_irBits c = sum_list (map spec_ir (ch_layout c))"
    and d: "cd_tap d \<noteq> Unknown" and regs: "\<forall>t \<in> set taps. reset_register t"
    and irs: "2 \<le> length irs" "length irs \<le> 65536"
  shows "\<exists>e c' conn' d'. Chain_Connect_body E c conn (Some ctx) d = (e, c', conn', d') \<and>
    (e = None \<longleftrightarrow> has_layout taps irs (ch_layout c)) \<and>
    (e = None \<longrightarrow> cd_tap d' = Idle \<and> cd_instr d' = Some (replicate (ch_irBits c) True))"
proof -
  note bounds = layout_bounds [OF wf]
  let ?n = "length (ch_layout c)" and ?l = "ch_irBits c"
  from Discover_device [OF W use live time d bounds(1,2) regs] obtain m1 d1 where
    disc: "jtag_Discover E conn (Some ctx) (int ?n) d =
      (discovered ?n taps, conn\<lparr>jc_serial := m1, jc_state := Idle\<rparr>, d1)" and d1: "cd_tap d1 = Idle" by blast
  define conn1 where "conn1 = conn\<lparr>jc_serial := m1, jc_state := Idle\<rparr>"
  have c1: "usable conn1 W" "timely E conn1" "jc_state conn1 = Idle"
    using use time by (simp_all add: conn1_def usable_def timely_def)
  from MeasureIR_device [OF W c1(1) live c1(3) d1 irs order_refl] obtain m2 d2 where
    meas: "jtag_MeasureIR E conn1 (Some ctx) 65536 d1 =
      (Inr (length irs), conn1\<lparr>jc_serial := m2, jc_state := Idle\<rparr>, d2)" and d2: "cd_tap d2 = Idle" by auto
  define conn2 where "conn2 = conn1\<lparr>jc_serial := m2, jc_state := Idle\<rparr>"
  have c2: "usable conn2 W" "timely E conn2" "jc_state conn2 = Idle"
    using c1 by (simp_all add: conn2_def usable_def timely_def)
  have l: "0 < ?l + 32" "?l + 32 \<le> 2 ^ 20" using bounds(5) ir by simp_all
  from scan_ir_device [OF W c2(1) live c2(2,3) d2 l _ bslice_ones'] obtain m3 d3 where
    scan: "jtag_ScanIR E conn2 (Some ctx) (ones (?l + 32)) (int (?l + 32)) d2 =
      ((Some (pack (take (?l + 32) (irs @ replicate (?l + 32) True))), None),
       conn2\<lparr>jc_serial := m3, jc_state := Idle\<rparr>, d3)"
    and d3: "cd_tap d3 = Idle" "cd_instr d3 = Some (drop (?l + 32) (irs @ replicate (?l + 32) True))"
    by (auto simp: jtag_ScanIR_def ones_def)
  note run = Chain_Connect_body_def [of E c conn "Some ctx" d] disc conn1_def [symmetric] meas
    conn2_def [symmetric]
  show ?thesis
  proof (cases "taps = map spec_reset (ch_layout c)")
    case False
    show ?thesis
      using False bounds(1) match_resets_None [of "ch_layout c" taps 0]
      by (auto simp: run discovered_def has_layout_def split: option.splits)
  next
    case True
    then have ds: "discovered ?n taps = (taps, None)" "length taps = ?n" "match_resets 0 (ch_layout c) taps = None"
      using bounds(1) by (auto simp: discovered_def match_resets_None)
    show ?thesis
    proof (cases "length irs = ?l")
      case False
      then show ?thesis using ds ir by (auto simp: run has_layout_def)
    next
      case len: True
      have cap: "take (?l + 32) (irs @ replicate (?l + 32) True) = irs @ replicate 32 True" using len by simp
      have "checkIR_loop (pack (irs @ replicate 32 True)) 0 0 (ch_layout c) = None \<longleftrightarrow> ir_marks (ch_layout c) (drop 0 irs)"
        using shows_at_pack len ir bounds(3) by (intro checkIR_loop_device) simp_all
      then have chk: "Chain_checkIR c (pack (irs @ replicate 32 True)) = None \<longleftrightarrow> has_layout taps irs (ch_layout c)"
        using True len ir by (simp add: Chain_checkIR_def has_layout_def)
      show ?thesis
        using ds len chk d3 by (cases "Chain_checkIR c (pack (irs @ replicate 32 True))") (auto simp: run scan [unfolded cap of_nat_add of_nat_numeral])
    qed
  qed
qed

lemma Connect_device:
  assumes "serial_wire W (dev_step taps irs drs)" and "ch_conn c = Some conn" and "usable conn W"
    and "live E ctx" and "timely E conn" and "chain_wf c" and "cd_tap d \<noteq> Unknown"
    and "\<forall>t \<in> set taps. reset_register t" and "2 \<le> length irs" and "length irs \<le> 65536"
  shows "\<exists>e c' d'. Chain_Connect E c (Some ctx) d = (e, c', d') \<and>
    (e = None \<longleftrightarrow> has_layout taps irs (ch_layout c)) \<and>
    (e = None \<longrightarrow> Chain_ready c' \<and> cd_tap d' = Idle \<and> cd_instr d' = Some (replicate (ch_irBits c) True))"
proof -
  let ?c1 = "c\<lparr>ch_valid := False, ch_selected := - 1, ch_generation := ch_generation c + 1\<rparr>"
  have "Layout_Validate (ch_layout ?c1) = None" "ch_irBits ?c1 = sum_list (map spec_ir (ch_layout ?c1))"
    using assms(6) by (simp_all add: chain_wf_def)
  from Connect_body_device [OF assms(1,3,4,5) this assms(7-10)] obtain e c2 conn' d' where
    b: "Chain_Connect_body E ?c1 conn (Some ctx) d = (e, c2, conn', d')" and
    r: "e = None \<longleftrightarrow> has_layout taps irs (ch_layout c)"
      "e = None \<longrightarrow> cd_tap d' = Idle \<and> cd_instr d' = Some (replicate (ch_irBits c) True)"
    by auto
  have "Chain_ready (c2\<lparr>ch_conn := Some conn', ch_released := x\<rparr>)" if "e = None" for x
    using Chain_Connect_body_None(1) [of E ?c1 conn "Some ctx" d c2 conn' d'] b that
    by (simp add: Chain_ready_def)
  with b r assms(2) show ?thesis by (simp add: Chain_Connect_def)
qed

text \<open>
  C10: over a wire that clocks a scan chain, with no cancellation and no deadline, \<open>Connect\<close> always
  returns, and it accepts its layout exactly when the chain has it: the same reset registers in the
  same order, the same total instruction length, and the standard's capture bits at every supplied
  boundary. On acceptance the chain lends TAPs, every TAP holds the BYPASS instruction and the
  controller is in Idle.
\<close>

theorem Connect_validates_device:
  assumes "serial_wire W (dev_step taps irs drs)" and "ch_conn c = Some conn" and "usable conn W"
    and "live E ctx" and "timely E conn" and "chain_wf c" and "cd_tap d \<noteq> Unknown"
    and "\<forall>t \<in> set taps. reset_register t" and "2 \<le> length irs" and "length irs \<le> 65536"
  shows "\<exists>e c' d'. Chain_Connect E c (Some ctx) d = (e, c', d') \<and>
    (e = None \<longleftrightarrow> has_layout taps irs (ch_layout c)) \<and>
    (e = None \<longrightarrow> Chain_ready c' \<and> cd_tap d' = Idle \<and> cd_instr d' = Some (replicate (ch_irBits c) True))"
  by (rule Connect_device [OF assms])

section \<open>A concrete chain\<close>

definition two_dev_step :: "chain_dev \<Rightarrow> bool \<Rightarrow> bool \<Rightarrow> bool \<times> chain_dev" where
  "two_dev_step = dev_step (map spec_reset two_TAPs)
     [True, False, False, False, True, False, False, False, False] (\<lambda>_. [False, False])"

definition two_dev_wire :: "chain_dev jtag_wire" where
  "two_dev_wire = \<lparr>JTAGIO = (\<lambda>ctx ms di n w.
       case serial_run two_dev_step w (zip (bslice ms 0 n) (bslice di 0 n)) of
         (tdos, w') \<Rightarrow> (pack tdos, None, w')),
     MaxTransferBits = None\<rparr>"

definition two_dev :: chain_dev where
  "two_dev = \<lparr>cd_tap = PauseDR, cd_ir = [], cd_dr = [], cd_instr = None\<rparr>"

definition two_dev_chain :: "chain_dev jtag_chain" where
  "two_dev_chain = \<lparr>ch_conn = Some (jtag_New (Some two_dev_wire) []), ch_layout = two_TAPs,
     ch_irBits = 9, ch_serial = 0, ch_generation = 0, ch_valid = False, ch_released = True,
     ch_selected = - 1\<rparr>"

lemma two_dev_chain_new: "jtag_NewChain (Some (jtag_New (Some two_dev_wire) [])) two_TAPs = Inr two_dev_chain"
  by (simp add: jtag_NewChain_def two_TAPs_def Layout_Validate_def two_dev_chain_def)

lemma two_dev_wire_serial:
  "serial_wire two_dev_wire (dev_step (map spec_reset two_TAPs)
     [True, False, False, False, True, False, False, False, False] (\<lambda>_. [False, False]))"
  by (simp add: serial_wire_def two_dev_wire_def two_dev_step_def)

lemma two_dev_has_layout:
  "has_layout (map spec_reset two_TAPs) [True, False, False, False, True, False, False, False, False]
     (ch_layout two_dev_chain)"
  by (simp add: has_layout_def two_dev_chain_def two_TAPs_def)

lemma two_dev_conn:
  "ch_conn two_dev_chain = Some (jtag_New (Some two_dev_wire) [])"
  "usable (jtag_New (Some two_dev_wire) []) two_dev_wire" "timely still_env (jtag_New (Some two_dev_wire) [])"
  "chain_wf two_dev_chain" "cd_tap two_dev \<noteq> Unknown"
  "\<forall>t \<in> set (map spec_reset two_TAPs). reset_register t"
  using jtag_NewChain_wf [OF two_dev_chain_new]
  by (simp_all add: two_dev_chain_def usable_def jtag_New_def two_dev_wire_def seconds_def timely_def
      still_env_def two_dev_def two_TAPs_def reset_register_def)

theorem Connect_validates_device_witness:
  "\<exists>c' d'. Chain_Connect still_env two_dev_chain (Some (Caller 0)) two_dev = (None, c', d') \<and>
     Chain_ready c' \<and> cd_tap d' = Idle"
proof -
  from Connect_validates_device [OF two_dev_wire_serial two_dev_conn(1,2) live_still(1) two_dev_conn(3-6), of 0]
  obtain e c' d' where "Chain_Connect still_env two_dev_chain (Some (Caller 0)) two_dev = (e, c', d')"
    "e = None" "Chain_ready c' \<and> cd_tap d' = Idle"
    using two_dev_has_layout by auto
  then show ?thesis by auto
qed

text \<open>
  C12: in every state a chain can reach from \<open>NewChain\<close>, a chain that lends TAPs reports pending
  cleanup, so its owner is told to release it.
\<close>

theorem ready_chain_is_pending:
  assumes "jtag_NewChain conn layout = Inr c" and "(chain_step E)\<^sup>*\<^sup>* (c, w) (c', w')"
    and "Chain_ready c'"
  shows "Chain_CleanupPending c'"
  using reachable_chain_wf [OF assms(1,2)] assms(3)
  by (auto simp: chain_wf_def Chain_ready_def Chain_CleanupPending_def split: option.splits)

theorem ready_chain_is_pending_witness:
  "\<exists>c' d'. (chain_step still_env)\<^sup>*\<^sup>* (two_dev_chain, two_dev) (c', d') \<and> Chain_ready c' \<and> Chain_CleanupPending c'"
proof -
  have "\<exists>e c' d'. Chain_Connect still_env two_dev_chain (Some (Caller 0)) two_dev = (e, c', d') \<and> Chain_ready c'"
    using Connect_device [OF two_dev_wire_serial two_dev_conn(1,2) live_still(1) two_dev_conn(3-6), of 0]
      two_dev_has_layout by auto
  then obtain e c' d' where r: "Chain_Connect still_env two_dev_chain (Some (Caller 0)) two_dev = (e, c', d')"
    and ready: "Chain_ready c'" by blast
  have steps: "(chain_step still_env)\<^sup>*\<^sup>* (two_dev_chain, two_dev) (c', d')"
    by (rule r_into_rtranclp) (rule chain_Connect [OF r])
  from ready_chain_is_pending [OF two_dev_chain_new steps ready] steps ready show ?thesis by blast
qed

end
