(* ===== verification/Jtag_Borrow.thy ===== *)
theory Jtag_Borrow
  imports Jtag_Device
begin

text \<open>
  Borrowed TAPs and the two counters that invalidate them: the generation of a chain, which \<open>Connect\<close> and \<open>Release\<close>
  move, and the serial number of its connection, which every wire call moves. A TAP that is lost stays lost.
\<close>

section \<open>Wire calls of raw use\<close>

lemma jtag_Idle_calls:
  assumes "jtag_Idle E c octx cycles w = (e, c', w')"
  shows "calls 0 (2 ^ 22) c c'"
proof -
  have step: "calls 0 (2 ^ 22) c c2"
    if "jtag_Move E c octx Idle w1 = (e1, c1, w2)" "jtag_clock E c1 octx tms tdi (nat cycles) w2 = (r, c2, w3)"
      "cycles \<le> MaxScanBits" for w1 e1 c1 w2 tms tdi r c2 w3
  proof -
    have "16 + nat cycles \<le> 2 ^ 22" using that(3) by (simp add: MaxScanBits_def)
    then show ?thesis
      using calls_trans [OF jtag_Move_calls [OF that(1)] jtag_clock_calls [OF that(2)]] by (auto elim: calls_mono)
  qed
  have move: "calls 0 (2 ^ 22) c c1" if "jtag_Move E c octx Idle w1 = (e1, c1, w2)" for w1 e1 c1 w2
    using jtag_Move_calls [OF that] by (auto elim: calls_mono)
  from assms step move show ?thesis
    by (auto simp: jtag_Idle_def Let_def split: prod.splits sum.splits option.splits if_splits)
qed

lemma jtag_step_calls:
  assumes "jtag_step E (c, w) (c', w')"
  shows "calls 0 (2 ^ 22) c c'"
  using assms
proof (cases rule: jtag_step.cases)
  case (step_Reset octx e)
  from jtag_Reset_calls [OF this] show ?thesis by (rule calls_mono) simp_all
next
  case (step_Move octx t e)
  from jtag_Move_calls [OF this] show ?thesis by (rule calls_mono) simp_all
next
  case (step_ScanIR octx data bits r)
  from jtag_scan_calls [OF this [unfolded jtag_ScanIR_def]] show ?thesis by (rule calls_mono) simp_all
next
  case (step_ScanDR octx data bits r)
  from jtag_scan_calls [OF this [unfolded jtag_ScanDR_def]] show ?thesis by (rule calls_mono) simp_all
next
  case (step_Idle octx cycles e)
  then show ?thesis by (rule jtag_Idle_calls)
next
  case (step_Discover octx n r)
  then obtain found e where "jtag_Discover E c octx n w = ((found, e), c', w')" by (cases r) simp
  from jtag_Discover_calls [OF this] show ?thesis by (rule calls_mono) simp_all
next
  case (step_MeasureIR octx n m)
  then show ?thesis by (rule jtag_MeasureIR_calls)
next
  case step_time
  then show ?thesis by simp
qed

section \<open>A borrowed TAP and the calls since\<close>

text \<open>
  A TAP some public calls after it was borrowed: the generation moved by \<open>j\<close>, or it is still the TAP's and the serial
  number of the connection is \<open>k\<close> wire calls ahead of the chain's. A lost TAP is one that is not valid any more.
\<close>

definition borrowed_since :: "bool \<Rightarrow> nat \<Rightarrow> jtag_TAP \<Rightarrow> 'w jtag_chain \<Rightarrow> bool" where
  "borrowed_since lost n t c \<longleftrightarrow> chain_wf c \<and>
     (\<exists>j. ch_generation c = tap_generation t + of_nat j \<and> j \<le> 2 * n \<and>
       (j = 0 \<and> ch_valid c \<longrightarrow> (\<exists>conn k. ch_conn c = Some conn \<and> jc_serial conn = ch_serial c + of_nat k \<and>
          k \<le> 2 ^ 22 * n \<and> (lost \<longrightarrow> 0 < k))))"

lemma of_nat_uint64_eq_0: "k < 2 ^ 64 \<Longrightarrow> of_nat k = (0 :: uint64) \<longleftrightarrow> k = 0"
  by (auto simp: word_of_nat_eq_0_iff dest: dvd_imp_le)

lemma counters_fit: "n < 2 ^ 42 \<Longrightarrow> 2 * n < (2 :: nat) ^ 64" "n < 2 ^ 42 \<Longrightarrow> 2 ^ 22 * n < (2 :: nat) ^ 64"
  by simp_all

lemma lost_invalid:
  assumes "borrowed_since True n t c" "n < 2 ^ 42"
  shows "\<not> TAP_valid c t"
proof
  assume v: "TAP_valid c t"
  from assms(1) obtain j where j: "ch_generation c = tap_generation t + of_nat j" "j \<le> 2 * n"
    "j = 0 \<and> ch_valid c \<longrightarrow> (\<exists>conn k. ch_conn c = Some conn \<and> jc_serial conn = ch_serial c + of_nat k \<and>
       k \<le> 2 ^ 22 * n \<and> 0 < k)"
    by (auto simp: borrowed_since_def)
  from v j(1) have "of_nat j = (0 :: uint64)" by (simp add: TAP_valid_def)
  then have "j = 0" using j(2) counters_fit(1) [OF assms(2)] of_nat_uint64_eq_0 [of j] by simp
  moreover from v have "ch_valid c" by (auto simp: TAP_valid_def Chain_ready_def split: option.splits)
  ultimately obtain conn k where k: "ch_conn c = Some conn" "jc_serial conn = ch_serial c + of_nat k"
    "k \<le> 2 ^ 22 * n" "0 < k"
    using j(3) by blast
  from v k(1,2) have "of_nat k = (0 :: uint64)" by (simp add: TAP_valid_def Chain_ready_def)
  then show False using k(3,4) counters_fit(2) [OF assms(2)] of_nat_uint64_eq_0 [of k] by simp
qed

lemma invalid_lost:
  assumes "borrowed_since False n t c" "\<not> TAP_valid c t"
  shows "borrowed_since True n t c"
proof -
  from assms(1) obtain j where j: "chain_wf c" "ch_generation c = tap_generation t + of_nat j" "j \<le> 2 * n"
    "j = 0 \<and> ch_valid c \<longrightarrow> (\<exists>conn k. ch_conn c = Some conn \<and> jc_serial conn = ch_serial c + of_nat k \<and> k \<le> 2 ^ 22 * n)"
    by (auto simp: borrowed_since_def)
  have "0 < k" if "j = 0" "ch_valid c" "ch_conn c = Some conn" "jc_serial conn = ch_serial c + of_nat k" for conn k
    using that assms(2) j(2) by (cases k) (auto simp: TAP_valid_def Chain_ready_def)
  with j show ?thesis unfolding borrowed_since_def by blast
qed

definition resynced :: "'w jtag_chain \<Rightarrow> 'w jtag_chain \<Rightarrow> bool" where
  "resynced c c' \<longleftrightarrow> Chain_ready c \<and> ch_generation c' = ch_generation c \<and>
     (\<exists>conn. ch_conn c' = Some conn \<and> jc_serial conn = ch_serial c')"

lemma resynced_complete:
  "Chain_ready c \<Longrightarrow> resynced c (Chain_complete c conn e)"
  "Chain_ready c \<Longrightarrow> resynced c ((Chain_complete c conn e)\<lparr>ch_selected := i\<rparr>)"
  by (simp_all add: resynced_def Chain_complete_def Let_def)

lemma TAP_ops_resync:
  "TAP_ScanIR E c t octx d w = (r, c', w') \<Longrightarrow> c' = c \<or> resynced c c'"
  "TAP_ScanDR E c t octx d n w = (r, c', w') \<Longrightarrow> c' = c \<or> resynced c c'"
  "TAP_Idle E c t octx n w = (e, c', w') \<Longrightarrow> c' = c \<or> resynced c c'"
  by (auto simp: TAP_ScanIR_def TAP_ScanDR_def TAP_Idle_def TAP_valid_def Let_def
      intro: resynced_complete split: option.splits if_splits prod.splits)

lemma borrowed_same: "borrowed_since lost n t c \<Longrightarrow> borrowed_since lost (Suc n) t c"
  unfolding borrowed_since_def by (fastforce intro: order_trans)

lemma borrowed_grown:
  assumes "borrowed_since lost n t c" "chain_grows 1 2 c c'"
  shows "borrowed_since lost (Suc n) t c'"
proof -
  from assms(1) obtain j where j: "ch_generation c = tap_generation t + of_nat j" "j \<le> 2 * n"
    by (auto simp: borrowed_since_def)
  from assms(2) obtain k where k: "ch_generation c' = ch_generation c + of_nat k" "1 \<le> k" "k \<le> 2" "chain_wf c'"
    by (auto simp: chain_grows_def)
  have "ch_generation c' = tap_generation t + of_nat (j + k)" "j + k \<le> 2 * Suc n" "j + k \<noteq> 0"
    using j k by simp_all
  then show ?thesis using k(4) unfolding borrowed_since_def by blast
qed

lemma generation_invalid:
  assumes "borrowed_since False n t c" "chain_grows 1 2 c c'" "Suc n < 2 ^ 42"
  shows "\<not> TAP_valid c' t"
proof
  assume "TAP_valid c' t"
  then have same: "ch_generation c' = tap_generation t" by (simp add: TAP_valid_def)
  from assms(1) obtain j where j: "ch_generation c = tap_generation t + of_nat j" "j \<le> 2 * n"
    by (auto simp: borrowed_since_def)
  from assms(2) obtain k where k: "ch_generation c' = ch_generation c + of_nat k" "1 \<le> k" "k \<le> 2"
    by (auto simp: chain_grows_def)
  have "of_nat (j + k) = (0 :: uint64)" using same j(1) k(1) by simp
  then show False using of_nat_uint64_eq_0 [of "j + k"] j(2) k(2,3) assms(3) by simp
qed

lemma borrowed_resynced:
  assumes "borrowed_since lost n t c" "resynced c c'" "chain_wf c'" "n < 2 ^ 42"
  shows "borrowed_since lost (Suc n) t c'"
proof -
  from assms(1) obtain j where j: "ch_generation c = tap_generation t + of_nat j" "j \<le> 2 * n"
    by (auto simp: borrowed_since_def)
  have "\<not> lost" if "j = 0"
    using lost_invalid [of n t c] assms(1,2,4) that j(1) by (cases lost) (auto simp: resynced_def TAP_valid_def)
  moreover obtain conn where "ch_conn c' = Some conn" "jc_serial conn = ch_serial c' + of_nat 0"
    using assms(2) by (auto simp: resynced_def)
  ultimately show ?thesis
    using assms(2,3) j unfolding borrowed_since_def resynced_def
    by (intro conjI exI [of _ j] impI exI [of _ conn] exI [of _ 0]) auto
qed

lemma borrowed_raw:
  assumes "borrowed_since lost n t c" "ch_conn c = Some conn" "calls 0 (2 ^ 22) conn conn'"
  shows "borrowed_since lost (Suc n) t (c\<lparr>ch_conn := Some conn'\<rparr>)"
proof -
  from assms(1,2) obtain j where j: "chain_wf c" "ch_generation c = tap_generation t + of_nat j" "j \<le> 2 * n"
    "j = 0 \<and> ch_valid c \<longrightarrow> (\<exists>k. jc_serial conn = ch_serial c + of_nat k \<and> k \<le> 2 ^ 22 * n \<and> (lost \<longrightarrow> 0 < k))"
    by (auto simp: borrowed_since_def)
  from assms(3) obtain l where l: "jc_serial conn' = jc_serial conn + of_nat l" "l \<le> 2 ^ 22"
    by (auto simp: calls_def)
  have "\<exists>k. jc_serial conn' = ch_serial c + of_nat k \<and> k \<le> 2 ^ 22 * Suc n \<and> (lost \<longrightarrow> 0 < k)" if "j = 0" "ch_valid c"
  proof -
    from j(4) that obtain k where "jc_serial conn = ch_serial c + of_nat k" "k \<le> 2 ^ 22 * n" "lost \<longrightarrow> 0 < k" by blast
    then show ?thesis using l by (intro exI [of _ "k + l"]) (simp add: add.assoc)
  qed
  moreover have "chain_wf (c\<lparr>ch_conn := Some conn'\<rparr>)" using j(1) by (simp add: chain_wf_def)
  ultimately show ?thesis
    using j(2,3) unfolding borrowed_since_def by (intro conjI exI [of _ j]) auto
qed

lemma chain_step_borrowed:
  assumes "chain_step E (c, w) (c', w')" "borrowed_since lost n t c" "n < 2 ^ 42"
  shows "borrowed_since lost (Suc n) t c'"
proof -
  have wf: "chain_wf c" "chain_wf c'"
    using assms(2) chain_step_grows [OF assms(1)] by (auto simp: borrowed_since_def chain_grows_def)
  note same = borrowed_same [OF assms(2)] and grown = borrowed_grown [OF assms(2)]
  have tap: "borrowed_since lost (Suc n) t c'" if "c' = c \<or> resynced c c'"
    using that same borrowed_resynced [OF assms(2) _ wf(2) assms(3)] by blast
  from assms(1) show ?thesis
  proof (cases rule: chain_step.cases)
    case (chain_Connect octx e)
    have "chain_grows 1 2 c c'" by (rule chain_grows_mono [OF Chain_Connect_grows [OF chain_Connect wf(1)]]) simp_all
    then show ?thesis by (rule grown)
  next
    case (chain_Release octx e)
    show ?thesis
    proof (cases "ch_released c")
      case True
      with chain_Release have "c' = c" by (simp add: Chain_Release_def)
      with same show ?thesis by simp
    next
      case False
      with Chain_Release_grows [OF chain_Release wf(1)] have "chain_grows 1 2 c c'" by simp
      then show ?thesis by (rule grown)
    qed
  next
    case (chain_raw conn conn')
    from borrowed_raw [OF assms(2) chain_raw(2) jtag_step_calls [OF chain_raw(3)]] show ?thesis
      unfolding chain_raw(1) .
  qed (rule tap, erule TAP_ops_resync)+
qed

lemma chain_steps_borrowed:
  assumes "(chain_step E ^^ n) (c, w) (c', w')" "borrowed_since lost m t c" "m + n < 2 ^ 42"
  shows "borrowed_since lost (m + n) t c'"
  using assms
proof (induction n arbitrary: c' w')
  case (Suc n)
  from Suc.prems(1) obtain c1 w1 where r: "(chain_step E ^^ n) (c, w) (c1, w1)" "chain_step E (c1, w1) (c', w')"
    by (auto elim: relpowp_Suc_E)
  have "borrowed_since lost (m + n) t c1" using Suc.prems by (intro Suc.IH [OF r(1)]) simp_all
  from chain_step_borrowed [OF r(2) this] Suc.prems(3) show ?case by simp
qed simp

lemma borrow:
  assumes "chain_wf c" "Chain_TAP c i = Inr t"
  shows "borrowed_since False 0 t c"
proof -
  from assms have "ch_generation c = tap_generation t + of_nat 0" "Chain_ready c"
    by (auto simp: Chain_TAP_def split: if_splits)
  then show ?thesis using assms(1) by (auto simp: borrowed_since_def Chain_ready_def split: option.splits)
qed


text \<open>
  C11: a TAP that was borrowed from a chain is lost for good once it is not valid any more, whatever made it invalid
  (a failed operation, raw use of the connection, \<open>Connect\<close> or \<open>Release\<close>) and whatever public calls of the chain, its TAPs
  and its connection follow, successful \<open>Connect\<close> calls included. Every \<open>Connect\<close> makes it invalid, and so does
  every \<open>Release\<close> with cleanup pending, whether the TAP was still valid or not and whatever the outcome of the call.
  Generation and serial number have 64 bits and a call makes at most \<open>2 ^ 22\<close> wire calls, which bounds the number of calls
  by \<open>2 ^ 42\<close>.
\<close>

theorem stale_TAP_stays_invalid:
  assumes "chain_wf c" and "Chain_TAP c i = Inr t"
    and "(chain_step E ^^ m) (c, w) (c1, w1)" and "(chain_step E ^^ n) (c1, w1) (c', w')" and "m + n + 1 < 2 ^ 42"
  shows "(\<not> TAP_valid c1 t \<longrightarrow> \<not> TAP_valid c' t) \<and>
    (\<forall>octx e c2 w2. Chain_Connect E c1 octx w1 = (e, c2, w2) \<longrightarrow> \<not> TAP_valid c2 t) \<and>
    (\<forall>octx e c2 w2. Chain_CleanupPending c1 \<and> Chain_Release E c1 octx w1 = (e, c2, w2) \<longrightarrow> \<not> TAP_valid c2 t)"
proof -
  have b: "borrowed_since False m t c1"
    using chain_steps_borrowed [OF assms(3) borrow [OF assms(1,2)]] assms(5) by simp
  then have wf: "chain_wf c1" by (simp add: borrowed_since_def)
  have grown: "\<not> TAP_valid c2 t" if "chain_grows 1 2 c1 c2" for c2
    by (rule generation_invalid [OF b that]) (use assms(5) in simp)
  have "\<not> TAP_valid c' t" if "\<not> TAP_valid c1 t"
    using lost_invalid [OF chain_steps_borrowed [OF assms(4) invalid_lost [OF b that]]] assms(5) by simp
  moreover have "\<not> TAP_valid c2 t" if "Chain_Connect E c1 octx w1 = (e, c2, w2)" for octx e c2 w2
    by (rule grown, rule chain_grows_mono [OF Chain_Connect_grows [OF that wf]]) simp_all
  moreover have "\<not> TAP_valid c2 t" if "Chain_CleanupPending c1" "Chain_Release E c1 octx w1 = (e, c2, w2)" for octx e c2 w2
    using grown Chain_Release_grows [OF that(2) wf] that(1) by (simp add: Chain_CleanupPending_def split: option.splits)
  ultimately show ?thesis by blast
qed

text \<open>A chain that lends TAPs, then raw use of its connection, then a successful \<open>Connect\<close>.\<close>

definition idle_conn :: "chain_dev jtag_conn" where
  "idle_conn = (jtag_New (Some two_dev_wire) [])\<lparr>jc_state := Idle\<rparr>"

definition lent_chain :: "chain_dev jtag_chain" where
  "lent_chain = two_dev_chain\<lparr>ch_conn := Some idle_conn, ch_generation := 1, ch_valid := True, ch_released := False\<rparr>"

lemma lent_chain_ok:
  "chain_wf lent_chain" "Chain_TAP lent_chain 1 = Inr \<lparr>tap_index = 1, tap_generation = 1\<rparr>"
  "ch_conn lent_chain = Some idle_conn" "usable idle_conn two_dev_wire" "jc_serial idle_conn = 0"
  using two_dev_conn(2,4)
  by (simp_all add: lent_chain_def chain_wf_def Chain_TAP_def Chain_ready_def two_dev_chain_def two_TAPs_def idle_conn_def
      usable_def jtag_New_def)

theorem stale_TAP_stays_invalid_witness:
  "\<exists>conn w1 c2 w2. jtag_Reset still_env idle_conn (Some (Caller 0)) two_dev = (None, conn, w1) \<and>
     Chain_Connect still_env (lent_chain\<lparr>ch_conn := Some conn\<rparr>) (Some (Caller 0)) w1 = (None, c2, w2) \<and>
     Chain_ready c2 \<and> \<not> TAP_valid c2 \<lparr>tap_index = 1, tap_generation = 1\<rparr>"
proof -
  let ?t = "\<lparr>tap_index = 1, tap_generation = 1\<rparr>"
  obtain os w1 where "serial_run (dev_step (map spec_reset two_TAPs)
      [True, False, False, False, True, False, False, False, False] (\<lambda>_. [False, False])) two_dev
      [(True, False), (True, False), (True, False), (True, False), (True, False)] = (os, w1)" and w1: "cd_tap w1 = Reset"
    using reset_run [OF two_dev_conn(5)] by metis
  from jtag_Reset_serial [OF two_dev_wire_serial lent_chain_ok(4) live_still(1) this(1)] obtain n where
    r: "jtag_Reset still_env idle_conn (Some (Caller 0)) two_dev = (None, idle_conn\<lparr>jc_serial := n, jc_state := Reset\<rparr>, w1)"
    by blast
  define conn where "conn = idle_conn\<lparr>jc_serial := n, jc_state := Reset\<rparr>"
  let ?c1 = "lent_chain\<lparr>ch_conn := Some conn\<rparr>"
  have calls: "calls 1 5 idle_conn (idle_conn\<lparr>jc_serial := n, jc_state := Reset\<rparr>)"
    using jtag_Reset_calls [OF r] by simp
  have "n \<noteq> 0" using calls_differ [OF calls] lent_chain_ok(5) by simp
  then have lost: "\<not> TAP_valid ?c1 ?t"
    by (simp add: TAP_valid_def Chain_ready_def conn_def lent_chain_def two_dev_chain_def)
  have "jtag_step still_env (idle_conn, two_dev) (conn, w1)" unfolding conn_def by (rule step_Reset [OF r])
  from chain_raw [OF lent_chain_ok(3) this] have step: "(chain_step still_env ^^ 1) (lent_chain, two_dev) (?c1, w1)"
    by (simp add: eq_OO)
  have conn: "ch_conn ?c1 = Some conn" "usable conn two_dev_wire" "timely still_env conn" "chain_wf ?c1" "cd_tap w1 \<noteq> Unknown"
    "has_layout (map spec_reset two_TAPs) [True, False, False, False, True, False, False, False, False] (ch_layout ?c1)"
    using lent_chain_ok(1,4) two_dev_conn(3) two_dev_has_layout w1
    by (simp_all add: conn_def usable_def timely_def chain_wf_def idle_conn_def lent_chain_def)
  from Connect_device [OF two_dev_wire_serial conn(1,2) live_still(1) conn(3-5) two_dev_conn(6), of 0] conn(6)
  obtain c2 w2 where c2: "Chain_Connect still_env ?c1 (Some (Caller 0)) w1 = (None, c2, w2)" "Chain_ready c2" by auto
  then have "(chain_step still_env ^^ 1) (?c1, w1) (c2, w2)"
    using chain_Connect [OF c2(1)] by (simp add: eq_OO)
  from stale_TAP_stays_invalid [OF lent_chain_ok(1,2) step this] lost have "\<not> TAP_valid c2 ?t" by simp
  with r c2 show ?thesis unfolding conn_def by blast
qed

end
