(* ===== verification/Swd_Frame.thy ===== *)
theory Swd_Frame
  imports Prelude
begin

text \<open>
  Serial Wire Debug framing, \<open>src/swd/sequence.go\<close> and the pure part of \<open>src/swd/transfer.go\<close> and
  \<open>src/swd/connection.go\<close>: direction-explicit bit sequences in packed buffers, request headers with
  their parity, the fixed 54-bit frame and its decoder. Sequences refine lists of bits; every frame
  is given bit by bit.
\<close>

section \<open>Sequences\<close>

record sequence =
  seq_direction :: "byte list"
  seq_output :: "byte list"
  seq_bits :: nat

definition seq_empty :: sequence where
  "seq_empty = \<lparr>seq_direction = [], seq_output = [], seq_bits = 0\<rparr>"

definition swd_setBit :: "byte list \<Rightarrow> nat \<Rightarrow> bool \<Rightarrow> byte list" where
  "swd_setBit buf i value =
     (if value then buf[i div 8 := (buf ! (i div 8)) OR push_bit (i mod 8) 1] else buf)"

definition seq_append :: "bool \<Rightarrow> bool \<Rightarrow> sequence \<Rightarrow> sequence" where
  "seq_append driven value s =
     (let s1 = (if seq_bits s mod 8 = 0
                then s\<lparr>seq_direction := seq_direction s @ [0], seq_output := seq_output s @ [0]\<rparr> else s) in
      s1\<lparr>seq_direction := swd_setBit (seq_direction s1) (seq_bits s) driven,
         seq_output := swd_setBit (seq_output s1) (seq_bits s) value,
         seq_bits := seq_bits s + 1\<rparr>)"

definition seq_appendN :: "nat \<Rightarrow> bool \<Rightarrow> bool \<Rightarrow> sequence \<Rightarrow> sequence" where
  "seq_appendN bits driven value s = fold (\<lambda>_. seq_append driven value) [0..<bits] s"

definition seq_appendByte :: "bool \<Rightarrow> byte \<Rightarrow> sequence \<Rightarrow> sequence" where
  "seq_appendByte driven value s =
     fold (\<lambda>i. seq_append driven (drop_bit i value AND 1 \<noteq> 0)) [0..<8] s"

definition bitAt :: "byte list \<Rightarrow> nat \<Rightarrow> bool" where
  "bitAt buf i = (drop_bit (i mod 8) (buf ! (i div 8)) AND 1 \<noteq> 0)"

definition seq_appendSequence :: "sequence \<Rightarrow> sequence \<Rightarrow> sequence" where
  "seq_appendSequence other s =
     fold (\<lambda>i. seq_append (bitAt (seq_direction other) i) (bitAt (seq_output other) i))
       [0..<seq_bits other] s"

section \<open>Requests, parity and frames\<close>

record request =
  req_ap :: bool
  req_read :: bool
  req_addr :: byte

definition bad_address :: "byte \<Rightarrow> err" where
  "bad_address addr = New ''swd: invalid register address %#02x'' [uint addr]"

definition newRequest :: "bool \<Rightarrow> bool \<Rightarrow> byte \<Rightarrow> err + request" where
  "newRequest ap read addr =
     (if addr \<noteq> 0x00 \<and> addr \<noteq> 0x04 \<and> addr \<noteq> 0x08 \<and> addr \<noteq> 0x0C then Inl (bad_address addr)
      else Inr \<lparr>req_ap = ap, req_read = read, req_addr = addr\<rparr>)"

function parity32_loop :: "uint32 \<Rightarrow> bool \<Rightarrow> bool" where
  "parity32_loop value parity =
     (if value \<noteq> 0 then parity32_loop (drop_bit 1 value) (parity \<noteq> (value AND 1 \<noteq> 0)) else parity)"
  by pat_completeness auto
termination
proof (relation "measure (unat \<circ> fst)")
  fix v :: uint32 and parity :: bool
  assume "v \<noteq> 0"
  then have "0 < unat v" by (simp add: unat_gt_0)
  moreover have "unat (drop_bit 1 v) = unat v div 2"
    unfolding unat_drop_bit_eq by (simp add: drop_bit_Suc)
  ultimately have "unat (drop_bit 1 v) < unat v" by simp
  then show "((drop_bit 1 v, parity \<noteq> (v AND 1 \<noteq> 0)), v, parity) \<in> measure (unat \<circ> fst)" by simp
qed simp

declare parity32_loop.simps [simp del]

definition parity32 :: "uint32 \<Rightarrow> bool" where
  "parity32 value = parity32_loop value False"

definition requestByte :: "request \<Rightarrow> byte" where
  "requestByte req =
     (let fields = req_addr req OR (if req_ap req then 1 else 0) OR (if req_read req then 2 else 0);
          header = 0x81 OR push_bit 1 fields in
      if parity32 (ucast fields) then header OR push_bit 5 1 else header)"

definition seq_value :: "uint32 \<Rightarrow> sequence \<Rightarrow> sequence" where
  "seq_value value s = fold (\<lambda>i. seq_append True (drop_bit i value AND 1 \<noteq> 0)) [0..<32] s"

definition fixedFrame :: "nat \<Rightarrow> nat \<Rightarrow> request \<Rightarrow> uint32 \<Rightarrow> sequence" where
  "fixedFrame turnaround idleCycles req value =
     (let header = seq_appendN (turnaround + 3) False False
                     (seq_appendByte True (requestByte req) seq_empty);
          body = (if req_read req then seq_appendN (33 + turnaround) False False header
                  else seq_append True (parity32 value)
                         (seq_value value (seq_appendN turnaround False False header))) in
      seq_appendN idleCycles True False body)"

definition readACK :: "byte list \<Rightarrow> nat \<Rightarrow> byte" where
  "readACK input offset =
     fold (\<lambda>i ack. if bitAt input (offset + i) then ack OR push_bit i 1 else ack) [0..<3] 0"

definition ackError :: "byte \<Rightarrow> go_error" where
  "ackError ack =
     (if ack = 1 then None
      else if ack = 2 then Some (Sentinel SwdErrWait)
      else if ack = 4 then Some (Sentinel SwdErrFault)
      else Some (Sentinel SwdErrProtocol))"

definition extractUint32At :: "byte list \<Rightarrow> nat \<Rightarrow> uint32" where
  "extractUint32At buf offset =
     fold (\<lambda>i value. if bitAt buf (offset + i) then value OR push_bit i 1 else value) [0..<32] 0"

definition decodeFixedFrame :: "byte list \<Rightarrow> nat \<Rightarrow> request \<Rightarrow> uint32 \<times> go_error" where
  "decodeFixedFrame input offset req =
     (case ackError (readACK input (offset + 9)) of
        Some e \<Rightarrow> (0, Some e)
      | None \<Rightarrow>
          if \<not> req_read req then (0, None)
          else
            (let dataOffset = offset + 12; data = extractUint32At input dataOffset in
             if bitAt input (dataOffset + 32) \<noteq> parity32 data then (0, Some (Sentinel SwdErrParity))
             else (data, None)))"

section \<open>Sequences refine lists of bits\<close>

text \<open>A list of (driven, value) bits and the sequence that holds it.\<close>

definition seq_of :: "(bool \<times> bool) list \<Rightarrow> sequence" where
  "seq_of xs = \<lparr>seq_direction = pack (map fst xs), seq_output = pack (map snd xs), seq_bits = length xs\<rparr>"

lemma seq_of_fields [simp]:
  "seq_direction (seq_of xs) = pack (map fst xs)" "seq_output (seq_of xs) = pack (map snd xs)"
  "seq_bits (seq_of xs) = length xs"
  by (simp_all add: seq_of_def)

lemma seq_empty_of: "seq_empty = seq_of []"
  by (simp add: seq_empty_def seq_of_def pack_def)

lemma swd_setBit_or_bit: "swd_setBit buf i v = or_bit buf i v"
  by (simp add: swd_setBit_def or_bit_def)

lemma bitAt_tbit: "bitAt buf i = tbit buf i"
  by (simp add: bitAt_def tbit_def bit_iff_odd_drop_bit and_one_eq odd_iff_mod_2_eq_one)

lemma bit_shift: "(drop_bit i v AND 1 \<noteq> 0) = bit (v :: 'a::len word) i"
  by (simp add: bit_iff_odd_drop_bit and_one_eq odd_iff_mod_2_eq_one)

lemma bytes_for_Suc: "bytes_for (Suc n) = (if n mod 8 = 0 then Suc (bytes_for n) else bytes_for n)"
proof -
  define q r where "q = n div 8" and "r = n mod 8"
  then have n: "n = 8 * q + r" and r: "r < 8" by simp_all
  have "(8 * q + r + 8) div 8 = q + 1" "(8 * q + r + 7) div 8 = q + (if r = 0 then 0 else 1)"
    using r by (cases "r = 0"; simp)+
  then show ?thesis unfolding bytes_for_def r_def [symmetric] by (simp add: n add.commute)
qed

lemma bytes_for_step:
  assumes "i < 8 * bytes_for (n + 1)" and "\<not> i < 8 * bytes_for n"
  shows "n mod 8 = 0 \<and> i div 8 = bytes_for n"
proof (cases "n mod 8 = 0")
  case True
  with assms have "8 * bytes_for n \<le> i" "i < 8 * Suc (bytes_for n)" by (simp_all add: bytes_for_Suc)
  with True show ?thesis by (simp add: div_nat_eqI)
next
  case False
  with assms show ?thesis by (simp add: bytes_for_Suc)
qed

lemma pack_snoc:
  "or_bit (if length bs mod 8 = 0 then pack bs @ [0] else pack bs) (length bs) b = pack (bs @ [b])"
proof -
  let ?buf = "if length bs mod 8 = 0 then pack bs @ [0] else pack bs"
  have len: "length ?buf = bytes_for (length bs + 1)"
    by (simp add: bytes_for_Suc)
  show ?thesis
  proof (rule buffer_eqI)
    show "length (or_bit ?buf (length bs) b) = length (pack (bs @ [b]))" using len by simp
  next
    fix i assume "i < 8 * length (pack (bs @ [b]))"
    then have i: "i < 8 * bytes_for (length bs + 1)" by simp
    have old: "tbit ?buf i = (i < length bs \<and> bs ! i)"
    proof (cases "i < 8 * bytes_for (length bs)")
      case True
      then have "i div 8 < length (pack bs)" by (simp add: less_mult_imp_div_less mult.commute)
      then have "tbit ?buf i = tbit (pack bs) i" by (simp add: tbit_def nth_append)
      with True show ?thesis by (simp add: tbit_pack)
    next
      case False
      then have "length bs \<le> i" using bytes_for_le(1) [of "length bs"] by simp
      moreover from False i have "length bs mod 8 = 0 \<and> i div 8 = length (pack bs)"
        using bytes_for_step [of i "length bs"] by simp
      ultimately show ?thesis by (simp add: tbit_def nth_append)
    qed
    have "length bs < 8 * length ?buf" unfolding len by (intro bytes_for_bound) simp
    then show "tbit (or_bit ?buf (length bs) b) i = tbit (pack (bs @ [b])) i"
      using old i by (auto simp: tbit_or_bit tbit_pack nth_append)
  qed
qed

lemma seq_append_of: "seq_append d v (seq_of xs) = seq_of (xs @ [(d, v)])"
  using pack_snoc [of "map fst xs" d] pack_snoc [of "map snd xs" v]
  by (auto simp: seq_append_def Let_def swd_setBit_or_bit seq_of_def split: if_splits)

lemma seq_fold_of:
  "fold (\<lambda>i. seq_append (d i) (v i)) is (seq_of xs) = seq_of (xs @ map (\<lambda>i. (d i, v i)) is)"
  by (induction "is" arbitrary: xs) (simp_all add: seq_append_of)

lemma seq_ops_of:
  "seq_appendN n d v (seq_of xs) = seq_of (xs @ replicate n (d, v))"
  "seq_appendByte d b (seq_of xs) = seq_of (xs @ map (\<lambda>i. (d, bit b i)) [0..<8])"
  "seq_value w (seq_of xs) = seq_of (xs @ map (\<lambda>i. (True, bit w i)) [0..<32])"
  "seq_appendSequence (seq_of ys) (seq_of xs) = seq_of (xs @ ys)"
proof -
  show "seq_appendN n d v (seq_of xs) = seq_of (xs @ replicate n (d, v))"
    by (simp add: seq_appendN_def seq_fold_of map_replicate_const)
  show "seq_appendByte d b (seq_of xs) = seq_of (xs @ map (\<lambda>i. (d, bit b i)) [0..<8])"
    unfolding seq_appendByte_def seq_fold_of bit_shift ..
  show "seq_value w (seq_of xs) = seq_of (xs @ map (\<lambda>i. (True, bit w i)) [0..<32])"
    unfolding seq_value_def seq_fold_of bit_shift ..
  have "map (\<lambda>i. (tbit (pack (map fst ys)) i, tbit (pack (map snd ys)) i)) [0..<length ys] = ys"
    by (rule nth_equalityI) (simp_all add: tbit_pack)
  then show "seq_appendSequence (seq_of ys) (seq_of xs) = seq_of (xs @ ys)"
    unfolding seq_appendSequence_def seq_fold_of bitAt_tbit by simp
qed

section \<open>Parity\<close>

primrec parity_upto :: "nat \<Rightarrow> 'a::len word \<Rightarrow> bool" where
  "parity_upto 0 v = False"
| "parity_upto (Suc n) v = (parity_upto n v \<noteq> bit v n)"

lemma parity_upto_shift: "parity_upto (Suc n) v = (bit v 0 \<noteq> parity_upto n (drop_bit 1 v))"
proof (induction n)
  case (Suc n)
  have "bit (drop_bit 1 v) n = bit v (Suc n)" unfolding bit_drop_bit_eq by simp
  with Suc show ?case by (auto simp del: drop_bit_Suc)
qed simp

lemma parity_upto_0: "parity_upto n (0 :: 'a::len word) = False"
  by (induction n) simp_all

lemma parity32_loop_upto: "parity32_loop v p = (p \<noteq> parity_upto 32 v)"
proof (induction v p rule: parity32_loop.induct)
  case (1 v p)
  show ?case
  proof (cases "v = 0")
    case True
    then show ?thesis by (subst parity32_loop.simps) (simp add: parity_upto_0)
  next
    case False
    have top: "\<not> bit (drop_bit 1 v) 31" by (subst bit_drop_bit_eq) (auto dest: bit_imp_le_length)
    have "parity_upto 32 v = (bit v 0 \<noteq> parity_upto 31 (drop_bit 1 v))"
      using parity_upto_shift [of 31 v] by simp
    moreover have "parity_upto 32 (drop_bit 1 v) = parity_upto 31 (drop_bit 1 v)"
      using top parity_upto.simps(2) [of 31 "drop_bit 1 v"] by simp
    moreover have "(v AND 1 \<noteq> 0) = bit v 0" using bit_shift [of 0 v] by simp
    moreover have "parity32_loop v p = parity32_loop (drop_bit 1 v) (p \<noteq> (v AND 1 \<noteq> 0))"
      using False by (subst parity32_loop.simps) (simp only: if_True simp_thms)
    ultimately show ?thesis using 1 [OF False] by blast
  qed
qed

lemma parity32_upto: "parity32 v = parity_upto 32 v"
  by (simp add: parity32_def parity32_loop_upto)

section \<open>Frames bit by bit\<close>

definition wf_request :: "request \<Rightarrow> bool" where
  "wf_request req \<longleftrightarrow> req_addr req \<in> {0x00, 0x04, 0x08, 0x0C}"

lemma newRequest_wf: "newRequest ap read addr = Inr req \<Longrightarrow> wf_request req"
  by (auto simp: newRequest_def wf_request_def split: if_splits)

definition all_requests :: "request list" where
  "all_requests = map (\<lambda>(a, r, x). \<lparr>req_ap = a, req_read = r, req_addr = x\<rparr>)
     (List.product [False, True] (List.product [False, True] [0x00, 0x04, 0x08, 0x0C]))"

lemma all_requests_complete:
  assumes "wf_request req"
  shows "req \<in> set all_requests"
proof -
  have "(req_ap req, req_read req, req_addr req) \<in> {False, True} \<times> {False, True} \<times> {0x00, 0x04, 0x08, 0x0C}"
    using assms unfolding wf_request_def by blast
  then have "(\<lambda>(a, r, x). \<lparr>req_ap = a, req_read = r, req_addr = x\<rparr>) (req_ap req, req_read req, req_addr req)
      \<in> set all_requests"
    unfolding all_requests_def set_map set_product list.set by (rule imageI)
  then show ?thesis by (cases req) simp
qed

definition header_bits :: "request \<Rightarrow> bool list" where
  "header_bits req =
     (let a = req_ap req; r = req_read req; x = bit (req_addr req) 2; y = bit (req_addr req) 3 in
      [True, a, r, x, y, ((a \<noteq> r) \<noteq> x) \<noteq> y, False, True])"

lemma requestByte_table:
  "map requestByte all_requests =
     [0x81, 0xA9, 0xB1, 0x99, 0xA5, 0x8D, 0x95, 0xBD, 0xA3, 0x8B, 0x93, 0xBB, 0x87, 0xAF, 0xB7, 0x9F]"
  by (simp add: all_requests_def requestByte_def parity32_def parity32_loop.simps)

lemma requestByte_bits:
  assumes "wf_request req"
  shows "map (bit (requestByte req)) [0..<8] = header_bits req"
proof -
  have "list_all2 (\<lambda>req b. map (bit b) [0..<8] = header_bits req) all_requests
      [0x81, 0xA9, 0xB1, 0x99, 0xA5, 0x8D, 0x95, 0xBD, 0xA3, 0x8B, 0x93, 0xBB, 0x87, 0xAF, 0xB7, 0x9F :: byte]"
    by code_simp
  then have "list_all2 (\<lambda>req b. map (bit b) [0..<8] = header_bits req) all_requests (map requestByte all_requests)"
    unfolding requestByte_table .
  then have "\<forall>req \<in> set all_requests. map (bit (requestByte req)) [0..<8] = header_bits req"
    by (simp add: list_all2_map2 list.rel_refl list_all2_same)
  with all_requests_complete [OF assms] show ?thesis by blast
qed

definition request_bits :: "nat \<Rightarrow> request \<Rightarrow> (bool \<times> bool) list" where
  "request_bits turnaround req =
     map (\<lambda>i. (True, bit (requestByte req) i)) [0..<8] @ replicate (turnaround + 3) (False, False)"

definition value_bits :: "uint32 \<Rightarrow> (bool \<times> bool) list" where
  "value_bits v = map (\<lambda>i. (True, bit v i)) [0..<32] @ [(True, parity32 v)]"

definition fixed_bits :: "nat \<Rightarrow> nat \<Rightarrow> request \<Rightarrow> uint32 \<Rightarrow> (bool \<times> bool) list" where
  "fixed_bits turnaround idle req v =
     request_bits turnaround req @
     (if req_read req then replicate (33 + turnaround) (False, False)
      else replicate turnaround (False, False) @ value_bits v) @
     replicate idle (True, False)"

lemma fixedFrame_of: "fixedFrame turnaround idle req v = seq_of (fixed_bits turnaround idle req v)"
  by (simp add: fixedFrame_def Let_def seq_empty_of seq_ops_of seq_append_of fixed_bits_def request_bits_def
      value_bits_def)

lemma length_fixed_bits: "length (fixed_bits turnaround idle req v) = 44 + 2 * turnaround + idle"
  by (simp add: fixed_bits_def request_bits_def value_bits_def)

lemma readACK_collect: "readACK input offset = collect_bits (\<lambda>i. tbit input (offset + i)) 3"
  by (simp add: readACK_def collect_bits_def bitAt_tbit)

lemma extractUint32At_collect: "extractUint32At buf offset = collect_bits (\<lambda>i. tbit buf (offset + i)) 32"
  by (simp add: extractUint32At_def collect_bits_def bitAt_tbit)

text \<open>What a decoder returns when the buffer shows an acknowledgement, a value and a parity bit.\<close>

lemma readACK_shows:
  assumes "\<And>i. i < 3 \<Longrightarrow> tbit input (offset + i) = bit ack i" and "ack \<in> {1, 2, 4}"
  shows "readACK input offset = ack"
proof -
  have "\<not> bit ack i" if "3 \<le> i" "i < 8" for i
  proof -
    from that have "i \<in> {3, 4, 5, 6, 7}" by auto
    with assms(2) show ?thesis by (auto simp: bit_numeral_rec bit_1_iff)
  qed
  then have high: "i < 3" if "bit ack i" "i < 8" for i using that not_less by blast
  show ?thesis
    unfolding readACK_collect
  proof (rule bit_word_eqI)
    fix n assume "n < LENGTH(8)"
    then show "bit (collect_bits (\<lambda>i. tbit input (offset + i)) 3 :: byte) n = bit ack n"
      using assms(1) [of n] high [of n] by (auto simp: bit_collect_bits)
  qed
qed

lemma extractUint32At_shows:
  assumes "\<And>i. i < 32 \<Longrightarrow> tbit input (offset + i) = bit v i"
  shows "extractUint32At input offset = v"
  unfolding extractUint32At_collect using assms
  by (intro bit_word_eqI) (auto simp: bit_collect_bits)

text \<open>
  C16: every address that \<open>newRequest\<close> accepts is word-aligned within a bank, and its request header
  is, from the first bit on the wire: the start bit one, APnDP, RnW, address bits 2 and 3, even
  parity over these four, the stop bit zero and the park bit one.
\<close>

theorem request_header_layout:
  assumes "newRequest ap read addr = Inr req"
  shows "map (bit (requestByte req)) [0..<8] =
    (let x = bit addr 2; y = bit addr 3 in [True, ap, read, x, y, ((ap \<noteq> read) \<noteq> x) \<noteq> y, False, True])"
proof -
  have "req = \<lparr>req_ap = ap, req_read = read, req_addr = addr\<rparr>"
    using assms by (auto simp: newRequest_def split: if_splits)
  with requestByte_bits [OF newRequest_wf [OF assms]] show ?thesis by (simp add: header_bits_def)
qed

theorem request_header_layout_witness:
  "\<exists>req. newRequest True True 0x0C = Inr req \<and>
     map (bit (requestByte req)) [0..<8] = [True, True, True, True, True, False, False, True]"
proof -
  obtain req where r: "newRequest True True 0x0C = Inr req" by (auto simp: newRequest_def)
  have "bit (0x0C :: byte) 2" "bit (0x0C :: byte) 3" by simp_all
  with request_header_layout [OF r] r show ?thesis by (simp add: Let_def)
qed

end
