(* ===== verification/Go_Monad.thy ===== *)
theory Go_Monad
  imports Prelude "HOL-Library.State_Monad"
begin

text \<open>
  Methods on a connection as programs of the library's state monad. The state is the receiver's
  record and the world outside; \<open>fetch\<close> and \<open>update\<close> access the record, \<open>outside\<close> is a call into
  the world. Weakest preconditions turn the text of a method into its verification conditions.
\<close>

section \<open>Programs\<close>

type_synonym ('c, 'w, 'a) prog = "('c \<times> 'w, 'a) state"

abbreviation ret :: "'a \<Rightarrow> ('s, 'a) state" where "ret \<equiv> State_Monad.return"

definition fetch :: "('c \<Rightarrow> 'a) \<Rightarrow> ('c, 'w, 'a) prog" where
  "fetch f = State (\<lambda>s. (f (fst s), s))"

definition update :: "('c \<Rightarrow> 'c) \<Rightarrow> ('c, 'w, unit) prog" where
  "update f = State (\<lambda>s. ((), (f (fst s), snd s)))"

definition outside :: "('w \<Rightarrow> 'a \<times> 'w) \<Rightarrow> ('c, 'w, 'a) prog" where
  "outside f = State (\<lambda>s. case f (snd s) of (a, w) \<Rightarrow> (a, (fst s, w)))"

text \<open>The idiom \<open>x, err := m(); if err != nil { return err }\<close>.\<close>

definition attempt :: "('s, err + 'a) state \<Rightarrow> ('a \<Rightarrow> ('s, err + 'b) state) \<Rightarrow> ('s, err + 'b) state" where
  "attempt m f = State_Monad.bind m (\<lambda>r. case r of Inl e \<Rightarrow> ret (Inl e) | Inr a \<Rightarrow> f a)"

lemma run_prog [simp]:
  "run_state (fetch f) s = (f (fst s), s)"
  "run_state (update g) s = ((), (g (fst s), snd s))"
  "run_state (outside h) s = (case h (snd s) of (a, w) \<Rightarrow> (a, (fst s, w)))"
  by (simp_all add: fetch_def update_def outside_def)

lemma run_attempt:
  "run_state (attempt m f) s = (case run_state m s of (Inl e, s') \<Rightarrow> (Inl e, s') | (Inr a, s') \<Rightarrow> run_state (f a) s')"
  by (simp add: attempt_def split: prod.splits sum.splits)

section \<open>Weakest preconditions\<close>

definition wp :: "('s, 'a) state \<Rightarrow> ('a \<Rightarrow> 's \<Rightarrow> bool) \<Rightarrow> 's \<Rightarrow> bool" where
  "wp m Q s = (case run_state m s of (a, s') \<Rightarrow> Q a s')"

named_theorems wp_simps \<open>weakest preconditions of the program constructs\<close>

lemma wp_return [wp_simps]: "wp (ret x) Q s = Q x s"
  by (simp add: wp_def)

lemma wp_bind [wp_simps]: "wp (State_Monad.bind m f) Q s = wp m (\<lambda>a. wp (f a) Q) s"
  by (simp add: wp_def split: prod.splits)

lemma wp_prog [wp_simps]:
  "wp (fetch f) Q s = Q (f (fst s)) s"
  "wp (update g) R s = R () (g (fst s), snd s)"
  "wp (outside h) T s = (case h (snd s) of (a, w) \<Rightarrow> T a (fst s, w))"
  by (simp_all add: wp_def split: prod.splits)

lemma wp_if [wp_simps]: "wp (if b then m else n) Q s = (if b then wp m Q s else wp n Q s)"
  by simp

lemma wp_case [wp_simps]:
  "wp (case x of None \<Rightarrow> m | Some a \<Rightarrow> f a) Q s = (case x of None \<Rightarrow> wp m Q s | Some a \<Rightarrow> wp (f a) Q s)"
  "wp (case y of Inl b \<Rightarrow> g b | Inr c \<Rightarrow> h c) Q s = (case y of Inl b \<Rightarrow> wp (g b) Q s | Inr c \<Rightarrow> wp (h c) Q s)"
  "wp (case p of (a, b) \<Rightarrow> k a b) Q s = (case p of (a, b) \<Rightarrow> wp (k a b) Q s)"
  by (simp_all split: option.splits sum.splits prod.splits)

lemma wp_attempt [wp_simps]:
  "wp (attempt m f) Q s = wp m (\<lambda>r. case r of Inl e \<Rightarrow> Q (Inl e) | Inr a \<Rightarrow> wp (f a) Q) s"
  by (simp add: attempt_def wp_def split: prod.splits sum.splits)

lemma wp_conseq: "wp m Q s \<Longrightarrow> (\<And>a s'. Q a s' \<Longrightarrow> R a s') \<Longrightarrow> wp m R s"
  by (auto simp: wp_def split: prod.splits)

lemma wp_conj: "wp m Q s \<Longrightarrow> wp m R s \<Longrightarrow> wp m (\<lambda>a s'. Q a s' \<and> R a s') s"
  by (auto simp: wp_def split: prod.splits)

lemma wp_True [simp]: "wp m (\<lambda>_ _. True) s"
  by (simp add: wp_def split: prod.splits)

lemma wp_seq: "wp m R s \<Longrightarrow> (\<And>a s'. R a s' \<Longrightarrow> wp (f a) Q s') \<Longrightarrow> wp (State_Monad.bind m f) Q s"
  by (auto simp: wp_bind intro: wp_conseq)

lemma wp_attemptI:
  "(\<And>e s'. Q (Inl e) s') \<Longrightarrow> (\<And>a s'. wp (f a) Q s') \<Longrightarrow> wp (attempt m f) Q s"
  unfolding wp_attempt by (rule wp_conseq [OF wp_True]) (auto split: sum.splits)

lemma wp_run: "wp m Q s \<Longrightarrow> run_state m s = (a, s') \<Longrightarrow> Q a s'"
  by (simp add: wp_def)

lemma run_wp: "(\<And>a s'. run_state m s = (a, s') \<Longrightarrow> Q a s') \<Longrightarrow> wp m Q s"
  by (simp add: wp_def split: prod.splits)

section \<open>Invariants\<close>

text \<open>A program keeps a relation between the state before and the state after it.\<close>

definition keeps :: "('s \<Rightarrow> bool) \<Rightarrow> ('s, 'a) state \<Rightarrow> bool" where
  "keeps I m \<longleftrightarrow> (\<forall>s. I s \<longrightarrow> wp m (\<lambda>_. I) s)"

named_theorems keeps_intros \<open>programs that keep an invariant\<close>

lemma keeps_return [keeps_intros]: "keeps I (ret x)"
  by (simp add: keeps_def wp_simps)

lemma keeps_bind [keeps_intros]: "keeps I m \<Longrightarrow> (\<And>a. keeps I (f a)) \<Longrightarrow> keeps I (State_Monad.bind m f)"
  by (auto simp: keeps_def wp_simps intro: wp_conseq)

lemma keeps_try [keeps_intros]: "keeps I m \<Longrightarrow> (\<And>a. keeps I (f a)) \<Longrightarrow> keeps I (attempt m f)"
  unfolding attempt_def by (intro keeps_bind) (auto intro: keeps_return split: sum.splits)

lemma keeps_fetch [keeps_intros]: "keeps I (fetch f)"
  by (simp add: keeps_def wp_simps)

lemma keeps_if [keeps_intros]: "keeps I m \<Longrightarrow> keeps I n \<Longrightarrow> keeps I (if b then m else n)"
  by simp

lemma keeps_case [keeps_intros]:
  "keeps I m \<Longrightarrow> (\<And>a. keeps I (f a)) \<Longrightarrow> keeps I (case x of None \<Rightarrow> m | Some a \<Rightarrow> f a)"
  "(\<And>b. keeps I (g b)) \<Longrightarrow> (\<And>c. keeps I (h c)) \<Longrightarrow> keeps I (case y of Inl b \<Rightarrow> g b | Inr c \<Rightarrow> h c)"
  "(\<And>a b. keeps I (k a b)) \<Longrightarrow> keeps I (case p of (a, b) \<Rightarrow> k a b)"
  by (simp_all split: option.splits sum.splits prod.splits)

lemma keepsD: "keeps I m \<Longrightarrow> I s \<Longrightarrow> wp m (\<lambda>_. I) s"
  by (simp add: keeps_def)

lemma keeps_run: "keeps I m \<Longrightarrow> run_state m s = (a, s') \<Longrightarrow> I s \<Longrightarrow> I s'"
  by (auto simp: keeps_def dest: wp_run)

text \<open>Invariants of the record alone, and programs that leave the record as it is.\<close>

lemma keeps_outside [keeps_intros]: "keeps (\<lambda>s. P (fst s)) (outside f)"
  by (simp add: keeps_def wp_simps split: prod.splits)

lemma keeps_update: "(\<And>c. P c \<Longrightarrow> P (f c)) \<Longrightarrow> keeps (\<lambda>s. P (fst s)) (update f)"
  by (simp add: keeps_def wp_simps)

lemma keeps_wp: "keeps (\<lambda>s. P (fst s)) m \<Longrightarrow> P c \<Longrightarrow> wp m (\<lambda>_ s. P (fst s)) (c, w)"
  by (simp add: keeps_def)

lemma keeps_let [keeps_intros]: "keeps I (f x) \<Longrightarrow> keeps I (Let x f)"
  by simp

definition only_world :: "('c, 'w, 'a) prog \<Rightarrow> bool" where
  "only_world m \<longleftrightarrow> (\<forall>c. keeps (\<lambda>s. fst s = c) m)"

lemma only_worldI: "(\<And>c. keeps (\<lambda>s. fst s = c) m) \<Longrightarrow> only_world m"
  by (simp add: only_world_def)

lemma only_world_keeps: "only_world m \<Longrightarrow> keeps (\<lambda>s. P (fst s)) m"
  unfolding only_world_def keeps_def
  by (metis (mono_tags, lifting) wp_conseq)

lemma wp_only_world: "only_world m \<Longrightarrow> (\<And>a w'. Q a (c, w')) \<Longrightarrow> wp m Q (c, w)"
  by (rule wp_conseq [of _ "\<lambda>_ s. fst s = c"]) (auto simp: only_world_def keeps_def)

section \<open>Idioms\<close>

text \<open>A zeroed buffer after some bytes were stored at its front.\<close>

definition stored :: "nat \<Rightarrow> byte list \<Rightarrow> byte list" where
  "stored n bs = take n (bs @ replicate n 0)"

text \<open>The idiom \<open>if err != nil { return fmt.Errorf("...: %w", err) }\<close>.\<close>

definition annotate :: "string \<Rightarrow> int list \<Rightarrow> ('s, err + 'a) state \<Rightarrow> ('s, err + 'a) state" where
  "annotate msg args m = State_Monad.bind m (\<lambda>r. ret (map_sum (\<lambda>e. Wrap msg args [e]) (\<lambda>a. a) r))"

definition guarded :: "bool \<Rightarrow> err \<Rightarrow> ('s, err + 'a) state \<Rightarrow> ('s, err + 'a) state" where
  "guarded ok e m = (if ok then m else ret (Inl e))"

definition checked_ctx :: "'w go_env \<Rightarrow> err \<Rightarrow> ctx option \<Rightarrow> (ctx \<Rightarrow> ('c, 'w, err + 'a) prog) \<Rightarrow> ('c, 'w, err + 'a) prog" where
  "checked_ctx E nil ctx m =
     (case ctx of
        None \<Rightarrow> ret (Inl nil)
      | Some x \<Rightarrow> do {
          e \<leftarrow> outside (ctx_Err E x);
          case e of Some s \<Rightarrow> ret (Inl (Sentinel s)) | None \<Rightarrow> m x
        })"

lemma length_stored [simp]: "length (stored n bs) = n"
  by (simp add: stored_def)

end
