(* ===== verification/Swd_Conn.thy ===== *)
theory Swd_Conn
  imports Swd_Frame Go_Monad
begin

text \<open>
  The SWD connection: \<open>src/swd/connection.go\<close>, \<open>src/swd/options.go\<close>, \<open>src/swd/sequences.go\<close>,
  \<open>src/swd/dormant.go\<close> and the register transfers of \<open>src/swd/transfer.go\<close>. Methods are programs
  over the connection's record and the world. A nil connection pointer is not a value of the model;
  a missing wire is. The adapters implement the wire, a parameter here.
\<close>

section \<open>The connection\<close>

record 'w swd_wire =
  SWDIO :: "ctx \<Rightarrow> byte list \<Rightarrow> byte list \<Rightarrow> nat \<Rightarrow> 'w \<Rightarrow> (byte list \<times> go_error) \<times> 'w"
  swd_MaxTransferBits :: "('w \<Rightarrow> int) option"

datatype responseMode = responseSimple | responseOverrun

datatype connectionState = connectionIdle | connectionReady | connectionRepair

record bankSelection =
  bs_bank :: byte
  bs_valid :: bool

definition no_bank :: bankSelection where
  "no_bank = \<lparr>bs_bank = 0, bs_valid = False\<rparr>"

record 'w swd_conn =
  sc_wire :: "'w swd_wire option"
  sc_turnaround :: nat
  sc_idleCycles :: nat
  sc_response :: responseMode
  sc_state :: connectionState
  sc_identity :: uint32
  sc_identityKnown :: bool
  sc_originalOverrun :: bool
  sc_originalKnown :: bool
  sc_bank :: bankSelection
  sc_priorBank :: bankSelection
  sc_selectPending :: bool
  sc_completionTimeout :: int

type_synonym ('w, 'a) swd = "('w swd_conn, 'w, 'a) prog"

record swd_option =
  opt_completionTimeout :: int
  opt_completionSet :: bool

definition WithCompletionTimeout :: "int \<Rightarrow> swd_option" where
  "WithCompletionTimeout timeout = \<lparr>opt_completionTimeout = timeout, opt_completionSet = True\<rparr>"

definition swd_New :: "'w swd_wire option \<Rightarrow> swd_option list \<Rightarrow> 'w swd_conn" where
  "swd_New w options =
     fold (\<lambda>option c. if opt_completionSet option
                      then c\<lparr>sc_completionTimeout := opt_completionTimeout option\<rparr> else c) options
       \<lparr>sc_wire = w, sc_turnaround = 1, sc_idleCycles = 8, sc_response = responseSimple,
        sc_state = connectionIdle, sc_identity = 0, sc_identityKnown = False,
        sc_originalOverrun = False, sc_originalKnown = False, sc_bank = no_bank,
        sc_priorBank = no_bank, sc_selectPending = False, sc_completionTimeout = 1000000000\<rparr>"

definition swd_nil_wire :: err where "swd_nil_wire = New ''swd: nil wire'' []"
definition swd_bad_completion :: err where
  "swd_bad_completion = New ''swd: completion timeout must be positive'' []"
definition swd_short_response :: "nat \<Rightarrow> nat \<Rightarrow> nat \<Rightarrow> err" where
  "swd_short_response n bits need =
     New ''swd: wire returned %d bytes for %d bits; want %d'' [int n, int bits, int need]"
definition swd_not_ready :: err where
  "swd_not_ready = New ''swd: connection is not ready; call Connect'' []"
definition swd_bank_unknown :: err where
  "swd_bank_unknown = New ''swd: DP bank is unknown before write at address 0x04'' []"
definition swd_overrun_owned :: err where
  "swd_overrun_owned = New ''swd: CTRL/STAT.ORUNDETECT is owned by the connection'' []"
definition swd_turnaround_fixed :: err where
  "swd_turnaround_fixed = New ''swd: DLCR turnaround changes are not supported'' []"
definition swd_abort_wait :: err where
  "swd_abort_wait = New ''swd: ABORT returned WAIT; STICKYORUN cleanup is unavailable'' []"
definition swd_clear_failed :: "err \<Rightarrow> err" where
  "swd_clear_failed e = Wrap ''swd: clear STICKYORUN after WAIT: %w'' [] [e]"
definition notExecuted :: "err \<Rightarrow> err" where
  "notExecuted cause = Wrap ''%w: %w'' [] [Sentinel SwdErrNotExecuted, cause]"

abbreviation ErrWait :: err where "ErrWait \<equiv> Sentinel SwdErrWait"
abbreviation ErrFault :: err where "ErrFault \<equiv> Sentinel SwdErrFault"
abbreviation ErrParity :: err where "ErrParity \<equiv> Sentinel SwdErrParity"
abbreviation ErrProtocol :: err where "ErrProtocol \<equiv> Sentinel SwdErrProtocol"

definition swd_validateCompletion :: "'w swd_conn \<Rightarrow> go_error" where
  "swd_validateCompletion c = (if sc_completionTimeout c \<le> 0 then Some swd_bad_completion else None)"

definition swd_exchange :: "'w go_env \<Rightarrow> ctx \<Rightarrow> sequence \<Rightarrow> ('w, err + byte list) swd" where
  "swd_exchange E ctx seq = do {
     c \<leftarrow> fetch (\<lambda>c. c);
     case sc_wire c of
       None \<Rightarrow> ret (Inl swd_nil_wire)
     | Some W \<Rightarrow>
         (case swd_validateCompletion c of
            Some e \<Rightarrow> ret (Inl e)
          | None \<Rightarrow> do {
              e \<leftarrow> outside (ctx_Err E ctx);
              case e of
                Some x \<Rightarrow> ret (Inl (Sentinel x))
              | None \<Rightarrow> do {
                  r \<leftarrow> outside (SWDIO W ctx (seq_direction seq) (seq_output seq) (seq_bits seq));
                  case r of
                    (input, Some x) \<Rightarrow> ret (Inl x)
                  | (input, None) \<Rightarrow>
                      (let need = bytes_for (seq_bits seq) in
                       if length input < need
                       then ret (Inl (swd_short_response (length input) (seq_bits seq) need))
                       else ret (Inr input))
                }
            })
   }"

definition swd_CleanupPending :: "'w swd_conn \<Rightarrow> bool" where
  "swd_CleanupPending c = sc_originalKnown c"

section \<open>Completion\<close>

text \<open>\<open>completionContext\<close>: an independent deadline for the frames of one started operation.\<close>

definition swd_completionContext :: "'w go_env \<Rightarrow> ctx \<Rightarrow> ('w, err + ctx) swd" where
  "swd_completionContext E ctx = do {
     e \<leftarrow> outside (ctx_Err E ctx);
     case e of
       Some x \<Rightarrow> ret (Inl (Sentinel x))
     | None \<Rightarrow> do {
         c \<leftarrow> fetch (\<lambda>c. c);
         case swd_validateCompletion c of
           Some e \<Rightarrow> ret (Inl e)
         | None \<Rightarrow>
             outside (\<lambda>w. (Inr (WithTimeout E (WithoutCancel ctx) (sc_completionTimeout c) w), w))
       }
   }"

definition swd_completionError :: "'w go_env \<Rightarrow> ctx \<Rightarrow> go_error \<Rightarrow> ('w, go_error) swd" where
  "swd_completionError E ctx e = outside (join_cause E ctx e)"

section \<open>Bank selection and the need for repair\<close>

definition confirmBank :: "'w swd_conn \<Rightarrow> 'w swd_conn" where
  "confirmBank c = c\<lparr>sc_priorBank := no_bank, sc_selectPending := False\<rparr>"

definition invalidateBank :: "'w swd_conn \<Rightarrow> 'w swd_conn" where
  "invalidateBank c = confirmBank (c\<lparr>sc_bank := no_bank\<rparr>)"

definition requireRepair :: "'w swd_conn \<Rightarrow> 'w swd_conn" where
  "requireRepair c =
     (if sc_state c = connectionIdle then c
      else invalidateBank (c\<lparr>sc_state := connectionRepair\<rparr>))"

definition isAbortWrite :: "request \<Rightarrow> bool" where
  "isAbortWrite req = (\<not> req_ap req \<and> \<not> req_read req \<and> req_addr req = 0x00)"

definition isDPIDRRead :: "request \<Rightarrow> bool" where
  "isDPIDRRead req = (\<not> req_ap req \<and> req_read req \<and> req_addr req = 0x00)"

definition isBankZeroCTRLSTATRead :: "request \<Rightarrow> bankSelection \<Rightarrow> bankSelection \<Rightarrow> bool" where
  "isBankZeroCTRLSTATRead req bank prior =
     (\<not> req_ap req \<and> req_read req \<and> req_addr req = 0x04 \<and> bs_valid bank \<and> bs_bank bank = 0 \<and>
      bs_valid prior \<and> bs_bank prior = 0)"

definition isPossibleCTRLSTATRead :: "request \<Rightarrow> bankSelection \<Rightarrow> bool" where
  "isPossibleCTRLSTATRead req prior =
     (\<not> req_ap req \<and> req_read req \<and> req_addr req = 0x04 \<and> (\<not> bs_valid prior \<or> bs_bank prior = 0))"

definition completeTransfer :: "go_error \<Rightarrow> bool" where
  "completeTransfer e = (e = None \<or> e = Some ErrWait \<or> e = Some ErrFault \<or> e = Some ErrParity)"

definition writeDataErr :: uint32 where "writeDataErr = push_bit 7 1"

definition resolveBankZeroCTRLSTAT :: "uint32 \<Rightarrow> go_error \<Rightarrow> 'w swd_conn \<Rightarrow> 'w swd_conn" where
  "resolveBankZeroCTRLSTAT result e c =
     (if e \<noteq> None then c
      else if result AND writeDataErr \<noteq> 0 then invalidateBank c
      else confirmBank c)"

definition observePendingSelection ::
  "request \<Rightarrow> uint32 \<Rightarrow> go_error \<Rightarrow> 'w swd_conn \<Rightarrow> 'w swd_conn" where
  "observePendingSelection req result e c =
     (if isAbortWrite req then (if e = None then invalidateBank c else c)
      else if isDPIDRRead req then c
      else if isBankZeroCTRLSTATRead req (sc_bank c) (sc_priorBank c)
      then resolveBankZeroCTRLSTAT result e c
      else if isPossibleCTRLSTATRead req (sc_priorBank c) then c
      else if e = None \<or> e = Some ErrParity then confirmBank c
      else c)"

definition observeTransfer ::
  "request \<Rightarrow> uint32 \<Rightarrow> uint32 \<Rightarrow> go_error \<Rightarrow> 'w swd_conn \<Rightarrow> 'w swd_conn" where
  "observeTransfer req result data e c =
     (if \<not> completeTransfer e then requireRepair c
      else
        (let c1 = (if sc_selectPending c then observePendingSelection req result e c else c) in
         if \<not> req_ap req \<and> \<not> req_read req \<and> req_addr req = 0x08 \<and> e = None
         then c1\<lparr>sc_priorBank := sc_bank c1,
                 sc_bank := \<lparr>bs_bank = ucast (data AND 0x0F), bs_valid = True\<rparr>,
                 sc_selectPending := True\<rparr>
         else c1))"

definition validateTransfer :: "request \<Rightarrow> uint32 \<Rightarrow> 'w swd_conn \<Rightarrow> go_error" where
  "validateTransfer req data c =
     (if req_ap req \<or> req_read req \<or> req_addr req \<noteq> 0x04 then None
      else if sc_selectPending c \<or> \<not> bs_valid (sc_bank c) then Some swd_bank_unknown
      else if bs_bank (sc_bank c) = 0 \<and> (data AND 1 \<noteq> 0) \<noteq> (sc_response c = responseOverrun)
      then Some swd_overrun_owned
      else if bs_bank (sc_bank c) = 1 \<and> data AND push_bit 8 3 \<noteq> 0 then Some swd_turnaround_fixed
      else None)"

section \<open>Frames on the wire\<close>

definition swd_finishFailed :: "'w go_env \<Rightarrow> ctx \<Rightarrow> err \<Rightarrow> ('w, go_error) swd" where
  "swd_finishFailed E ctx ackErr = do {
     c \<leftarrow> fetch (\<lambda>c. c);
     r \<leftarrow> swd_exchange E ctx
       (seq_appendN (sc_idleCycles c) True False
          (seq_appendN (if ackErr = ErrProtocol then 33 + sc_turnaround c else sc_turnaround c)
             False False seq_empty));
     case r of
       Inl e \<Rightarrow> ret (errors_Join [Some ackErr, Some e])
     | Inr _ \<Rightarrow> ret (Some ackErr)
   }"

definition swd_readData :: "'w go_env \<Rightarrow> ctx \<Rightarrow> ('w, uint32 \<times> go_error) swd" where
  "swd_readData E ctx = do {
     c \<leftarrow> fetch (\<lambda>c. c);
     r \<leftarrow> swd_exchange E ctx
       (seq_appendN (sc_idleCycles c) True False
          (seq_appendN (33 + sc_turnaround c) False False seq_empty));
     case r of
       Inl e \<Rightarrow> ret (0, Some e)
     | Inr input \<Rightarrow>
         (let data = extractUint32At input 0 in
          if bitAt input 32 \<noteq> parity32 data then ret (0, Some ErrParity) else ret (data, None))
   }"

definition swd_writeData :: "'w go_env \<Rightarrow> ctx \<Rightarrow> uint32 \<Rightarrow> ('w, go_error) swd" where
  "swd_writeData E ctx data = do {
     c \<leftarrow> fetch (\<lambda>c. c);
     r \<leftarrow> swd_exchange E ctx
       (seq_appendN (sc_idleCycles c) True False
          (seq_append True (parity32 data)
             (seq_value data (seq_appendN (sc_turnaround c) False False seq_empty))));
     case r of Inl e \<Rightarrow> ret (Some e) | Inr _ \<Rightarrow> ret None
   }"

definition swd_transferOverrun ::
  "'w go_env \<Rightarrow> ctx \<Rightarrow> request \<Rightarrow> uint32 \<Rightarrow> ('w, uint32 \<times> go_error) swd" where
  "swd_transferOverrun E ctx req data = do {
     c \<leftarrow> fetch (\<lambda>c. c);
     r \<leftarrow> swd_exchange E ctx (fixedFrame (sc_turnaround c) (sc_idleCycles c) req data);
     case r of
       Inl e \<Rightarrow> ret (0, Some e)
     | Inr input \<Rightarrow> ret (decodeFixedFrame input 0 req)
   }"

definition swd_transferFrame ::
  "'w go_env \<Rightarrow> ctx \<Rightarrow> request \<Rightarrow> uint32 \<Rightarrow> ('w, uint32 \<times> go_error) swd" where
  "swd_transferFrame E ctx req data = do {
     c \<leftarrow> fetch (\<lambda>c. c);
     if sc_response c = responseOverrun then swd_transferOverrun E ctx req data
     else do {
       r \<leftarrow> swd_exchange E ctx
         (seq_appendN (sc_turnaround c + 3) False False (seq_appendByte True (requestByte req) seq_empty));
       case r of
         Inl e \<Rightarrow> ret (0, Some e)
       | Inr input \<Rightarrow>
           (case ackError (readACK input (8 + sc_turnaround c)) of
              Some e \<Rightarrow> do { e1 \<leftarrow> swd_finishFailed E ctx e; ret (0, e1) }
            | None \<Rightarrow>
                if req_read req then swd_readData E ctx
                else do { e1 \<leftarrow> swd_writeData E ctx data; ret (0, e1) })
     }
   }"

definition abort_request :: request where
  "abort_request = \<lparr>req_ap = False, req_read = False, req_addr = 0x00\<rparr>"

definition swd_clearOverrunAfterWAIT :: "'w go_env \<Rightarrow> ctx \<Rightarrow> ('w, go_error) swd" where
  "swd_clearOverrunAfterWAIT E ctx = do {
     r \<leftarrow> swd_transferFrame E ctx abort_request (push_bit 4 1);
     case r of
       (_, None) \<Rightarrow> ret None
     | (_, Some e) \<Rightarrow> do { update requireRepair; ret (Some (swd_clear_failed e)) }
   }"

definition swd_executeFrame ::
  "'w go_env \<Rightarrow> ctx \<Rightarrow> request \<Rightarrow> uint32 \<Rightarrow> ('w, uint32 \<times> go_error) swd" where
  "swd_executeFrame E ctx req data = do {
     r \<leftarrow> swd_transferFrame E ctx req data;
     c \<leftarrow> fetch (\<lambda>c. c);
     if sc_response c \<noteq> responseOverrun \<or> snd r \<noteq> Some ErrWait then ret r
     else if isAbortWrite req then do {
       update requireRepair;
       ret (fst r, errors_Join [snd r, Some swd_abort_wait])
     }
     else do {
       cleanup \<leftarrow> swd_clearOverrunAfterWAIT E ctx;
       case cleanup of
         Some e \<Rightarrow> ret (0, errors_Join [snd r, Some e])
       | None \<Rightarrow> do {
           pending \<leftarrow> fetch sc_selectPending;
           _ \<leftarrow> (if pending then update requireRepair else ret ());
           ret r
         }
     }
   }"

definition swd_execute ::
  "'w go_env \<Rightarrow> ctx \<Rightarrow> request \<Rightarrow> uint32 \<Rightarrow> ('w, uint32 \<times> go_error) swd" where
  "swd_execute E ctx req data = do {
     r \<leftarrow> swd_completionContext E ctx;
     case r of
       Inl e \<Rightarrow> ret (0, Some (notExecuted e))
     | Inr cctx \<Rightarrow> swd_executeFrame E cctx req data
   }"

section \<open>Register operations\<close>

definition swd_transfer ::
  "'w go_env \<Rightarrow> ctx \<Rightarrow> request \<Rightarrow> uint32 \<Rightarrow> ('w, uint32 \<times> go_error) swd" where
  "swd_transfer E ctx req data = do {
     c \<leftarrow> fetch (\<lambda>c. c);
     if sc_state c \<noteq> connectionReady then ret (0, Some (notExecuted swd_not_ready))
     else do {
       e \<leftarrow> outside (ctx_Err E ctx);
       case e of
         Some x \<Rightarrow> ret (0, Some (notExecuted (Sentinel x)))
       | None \<Rightarrow>
           (case validateTransfer req data c of
              Some x \<Rightarrow> ret (0, Some (notExecuted x))
            | None \<Rightarrow> do {
                r \<leftarrow> swd_completionContext E ctx;
                case r of
                  Inl x \<Rightarrow> ret (0, Some (notExecuted x))
                | Inr cctx \<Rightarrow> do {
                    f \<leftarrow> swd_executeFrame E cctx req data;
                    update (observeTransfer req (fst f) data (snd f));
                    e1 \<leftarrow> swd_completionError E ctx (snd f);
                    ret (fst f, e1)
                  }
              })
     }
   }"

definition swd_read :: "'w go_env \<Rightarrow> ctx \<Rightarrow> bool \<Rightarrow> byte \<Rightarrow> ('w, uint32 \<times> go_error) swd" where
  "swd_read E ctx ap addr =
     (case newRequest ap True addr of
        Inl e \<Rightarrow> ret (0, Some (notExecuted e))
      | Inr req \<Rightarrow> swd_transfer E ctx req 0)"

definition swd_write :: "'w go_env \<Rightarrow> ctx \<Rightarrow> bool \<Rightarrow> byte \<Rightarrow> uint32 \<Rightarrow> ('w, go_error) swd" where
  "swd_write E ctx ap addr data =
     (case newRequest ap False addr of
        Inl e \<Rightarrow> ret (Some (notExecuted e))
      | Inr req \<Rightarrow> do { r \<leftarrow> swd_transfer E ctx req data; ret (snd r) })"

definition swd_ReadDP :: "'w go_env \<Rightarrow> ctx \<Rightarrow> byte \<Rightarrow> ('w, uint32 \<times> go_error) swd" where
  "swd_ReadDP E ctx addr = swd_read E ctx False addr"

definition swd_WriteDP :: "'w go_env \<Rightarrow> ctx \<Rightarrow> byte \<Rightarrow> uint32 \<Rightarrow> ('w, go_error) swd" where
  "swd_WriteDP E ctx addr data = swd_write E ctx False addr data"

definition swd_ReadAP :: "'w go_env \<Rightarrow> ctx \<Rightarrow> byte \<Rightarrow> ('w, uint32 \<times> go_error) swd" where
  "swd_ReadAP E ctx addr = swd_read E ctx True addr"

definition swd_WriteAP :: "'w go_env \<Rightarrow> ctx \<Rightarrow> byte \<Rightarrow> uint32 \<Rightarrow> ('w, go_error) swd" where
  "swd_WriteAP E ctx addr data = swd_write E ctx True addr data"

section \<open>Entry sequences\<close>

definition result_error :: "err + 'a \<Rightarrow> go_error" where
  "result_error r = (case r of Inl e \<Rightarrow> Some e | Inr _ \<Rightarrow> None)"

definition swd_LineReset :: "'w go_env \<Rightarrow> ctx \<Rightarrow> ('w, go_error) swd" where
  "swd_LineReset E ctx = do {
     update requireRepair;
     r \<leftarrow> swd_exchange E ctx (seq_appendN 8 True False (seq_appendN 56 True True seq_empty));
     ret (result_error r)
   }"

definition swd_enterSWD :: "'w go_env \<Rightarrow> ctx \<Rightarrow> ('w, go_error) swd" where
  "swd_enterSWD E ctx = do {
     r \<leftarrow> swd_exchange E ctx
       (seq_appendN 8 True False (seq_appendN 56 True True
          (seq_appendByte True 0xE7 (seq_appendByte True 0x9E (seq_appendN 56 True True seq_empty)))));
     ret (result_error r)
   }"

definition swd_JTAGToSWD :: "'w go_env \<Rightarrow> ctx \<Rightarrow> ('w, go_error) swd" where
  "swd_JTAGToSWD E ctx = do { update requireRepair; swd_enterSWD E ctx }"

definition alert_bytes :: "byte list" where
  "alert_bytes = [0x92, 0xF3, 0x09, 0x62, 0x95, 0x2D, 0x85, 0x86,
     0xE9, 0xAF, 0xDD, 0xE3, 0xA2, 0x0E, 0xBC, 0x19]"

definition swd_enterThroughDormant :: "'w go_env \<Rightarrow> ctx \<Rightarrow> ('w, go_error) swd" where
  "swd_enterThroughDormant E ctx = do {
     r \<leftarrow> swd_exchange E ctx
       (fold (\<lambda>i. seq_append True ((0x33BBBBBA :: uint32) AND push_bit i 1 \<noteq> 0)) [0..<31]
          (seq_appendN 9 True True seq_empty));
     case r of
       Inl e \<Rightarrow> ret (Some e)
     | Inr _ \<Rightarrow> do {
         r \<leftarrow> swd_exchange E ctx
           (fold (seq_appendByte True) alert_bytes (seq_appendN 8 True True seq_empty));
         case r of
           Inl e \<Rightarrow> ret (Some e)
         | Inr _ \<Rightarrow> do {
             r \<leftarrow> swd_exchange E ctx
               (seq_appendN 8 True False (seq_appendN 56 True True
                  (seq_appendByte True 0x1A (seq_appendN 4 True False seq_empty))));
             ret (result_error r)
           }
       }
   }"

section \<open>What a frame does to the connection\<close>

text \<open>Traffic leaves the record alone; a started frame at most asks for repair.\<close>

lemma only_world_exchange: "only_world (swd_exchange E ctx seq)"
  unfolding swd_exchange_def Let_def
  by (rule only_worldI, intro keeps_intros)

lemmas keeps_exchange [keeps_intros] = only_world_keeps [OF only_world_exchange]

lemma only_world_completionContext: "only_world (swd_completionContext E ctx)"
  unfolding swd_completionContext_def
  by (rule only_worldI, intro keeps_intros)

lemma only_world_transferFrame: "only_world (swd_transferFrame E ctx req data)"
  unfolding swd_transferFrame_def swd_transferOverrun_def swd_finishFailed_def swd_readData_def
    swd_writeData_def Let_def
  by (rule only_worldI, intro keeps_intros)

lemma only_world_enterSWD: "only_world (swd_enterSWD E ctx)"
  unfolding swd_enterSWD_def by (rule only_worldI, intro keeps_intros)

lemma only_world_enterThroughDormant: "only_world (swd_enterThroughDormant E ctx)"
  unfolding swd_enterThroughDormant_def by (rule only_worldI, intro keeps_intros)

lemma only_world_completionError: "only_world (swd_completionError E ctx e)"
  unfolding swd_completionError_def by (rule only_worldI, intro keeps_intros)

definition joined_error :: "go_error \<Rightarrow> bool" where
  "joined_error e \<longleftrightarrow> (\<exists>es. e = Some (Joined es))"

lemma joined_error_simps [simp]:
  "joined_error (errors_Join [Some e, Some f])"
  "\<not> joined_error None" "\<not> joined_error (Some (Sentinel s))"
  by (simp_all add: joined_error_def errors_Join_def)

definition disturbed :: "'w swd_conn \<Rightarrow> go_error \<Rightarrow> 'w swd_conn \<Rightarrow> bool" where
  "disturbed c e c' \<longleftrightarrow>
     c' = c \<or> c' = requireRepair c \<and> (joined_error e \<or> e = Some ErrWait \<and> sc_selectPending c)"

lemma disturbed_refl [simp]: "disturbed c e c"
  by (simp add: disturbed_def)

lemma disturbed_None [simp]: "disturbed c None c' \<longleftrightarrow> c' = c"
  by (auto simp: disturbed_def)

lemma wp_executeFrame:
  assumes "\<And>r c' w'. disturbed c (snd r) c' \<Longrightarrow> Q r (c', w')"
  shows "wp (swd_executeFrame E ctx req data) Q (c, w)"
  unfolding swd_executeFrame_def swd_clearOverrunAfterWAIT_def wp_simps
  apply (rule wp_only_world [OF only_world_transferFrame])
  apply (auto simp: wp_simps assms disturbed_def split: option.splits prod.splits intro!: wp_only_world [OF only_world_transferFrame])
  done

lemma wp_execute:
  assumes "\<And>r c' w'. disturbed c (snd r) c' \<Longrightarrow> Q r (c', w')"
  shows "wp (swd_execute E ctx req data) Q (c, w)"
  unfolding swd_execute_def wp_simps
  by (rule wp_only_world [OF only_world_completionContext])
     (auto simp: assms split: sum.splits intro!: wp_executeFrame)

end
