(* ===== verification/Swd_Lifecycle.thy ===== *)
theory Swd_Lifecycle
  imports Swd_Conn
begin

text \<open>
  Establishing and releasing an SWD connection: \<open>src/swd/lifecycle.go\<close>,
  \<open>src/swd/connect_options.go\<close> and \<open>readEntryIdentity\<close> of \<open>src/swd/dormant.go\<close>. The two retry
  loops count their remaining attempts down from \<open>connectWaitLimit + 1\<close>, the bound of the code.
\<close>

section \<open>Raw register access\<close>

definition connectWaitLimit :: nat where "connectWaitLimit = 100"

definition overrunDetect :: uint32 where "overrunDetect = push_bit 0 1"
definition stickyOverrun :: uint32 where "stickyOverrun = push_bit 1 1"
definition stickyCompare :: uint32 where "stickyCompare = push_bit 4 1"
definition stickyError :: uint32 where "stickyError = push_bit 5 1"
definition clearStickyCompare :: uint32 where "clearStickyCompare = push_bit 1 1"
definition clearStickyError :: uint32 where "clearStickyError = push_bit 2 1"
definition clearWriteDataError :: uint32 where "clearWriteDataError = push_bit 3 1"
definition clearStickyOverrun :: uint32 where "clearStickyOverrun = push_bit 4 1"

definition errorf :: "string \<Rightarrow> err \<Rightarrow> err" where
  "errorf message e = Wrap message [] [e]"

definition repair_error :: "err \<Rightarrow> ('w, err + 'a) swd" where
  "repair_error e = do { update requireRepair; ret (Inl e) }"

definition swd_readRaw :: "'w go_env \<Rightarrow> ctx \<Rightarrow> byte \<Rightarrow> ('w, uint32 \<times> go_error) swd" where
  "swd_readRaw E ctx addr =
     (case newRequest False True addr of
        Inl e \<Rightarrow> ret (0, Some e)
      | Inr req \<Rightarrow> swd_execute E ctx req 0)"

definition swd_writeRaw :: "'w go_env \<Rightarrow> ctx \<Rightarrow> byte \<Rightarrow> uint32 \<Rightarrow> ('w, go_error) swd" where
  "swd_writeRaw E ctx addr data =
     (case newRequest False False addr of
        Inl e \<Rightarrow> ret (Some e)
      | Inr req \<Rightarrow> do { r \<leftarrow> swd_execute E ctx req data; ret (snd r) })"

definition setResponse :: "bool \<Rightarrow> 'w swd_conn \<Rightarrow> 'w swd_conn" where
  "setResponse overrun c = c\<lparr>sc_response := (if overrun then responseOverrun else responseSimple)\<rparr>"

definition finishRelease :: "'w swd_conn \<Rightarrow> 'w swd_conn" where
  "finishRelease c =
     invalidateBank (c\<lparr>sc_state := connectionIdle, sc_response := responseSimple, sc_identity := 0,
       sc_identityKnown := False, sc_originalOverrun := False, sc_originalKnown := False\<rparr>)"

definition bank_zero :: bankSelection where
  "bank_zero = \<lparr>bs_bank = 0, bs_valid = True\<rparr>"

section \<open>Bootstrap\<close>

definition swd_readEntryIdentity :: "'w go_env \<Rightarrow> ctx \<Rightarrow> ('w, uint32 \<times> go_error) swd" where
  "swd_readEntryIdentity E ctx = do {
     r \<leftarrow> swd_readRaw E ctx 0x00;
     if snd r \<noteq> Some ErrProtocol then ret r
     else do {
       e \<leftarrow> outside (ctx_Err E ctx);
       case e of
         Some x \<Rightarrow> ret (0, Some (Sentinel x))
       | None \<Rightarrow> do {
           d \<leftarrow> swd_enterThroughDormant E ctx;
           case d of
             Some x \<Rightarrow>
               ret (0, errors_Join [Some ErrProtocol, Some (errorf ''swd: dormant activation: %w'' x)])
           | None \<Rightarrow> swd_readRaw E ctx 0x00
         }
     }
   }"

definition invalid_DPIDR :: "uint32 \<Rightarrow> err" where
  "invalid_DPIDR dpidr = New ''swd: invalid DPIDR %#08x: constant bit is clear'' [uint dpidr]"
definition changed_DPIDR :: "uint32 \<Rightarrow> uint32 \<Rightarrow> err" where
  "changed_DPIDR old dpidr = New ''swd: DPIDR changed from %#08x to %#08x'' [uint old, uint dpidr]"

definition bootstrap_clear :: "bool \<Rightarrow> uint32 \<Rightarrow> uint32" where
  "bootstrap_clear abort dpidr =
     (let clear = clearStickyError OR clearWriteDataError OR clearStickyOverrun;
          clear = (if abort then clear OR 1 else clear)
      in if drop_bit 16 dpidr AND 1 = 0 then clear OR clearStickyCompare else clear)"

text \<open>An attempt once DPIDR is read: its check, then the writes of an accepted identity.\<close>

definition swd_bootstrap_configure :: "'w go_env \<Rightarrow> ctx \<Rightarrow> bool \<Rightarrow> uint32 \<Rightarrow> ('w, err + uint32) swd" where
  "swd_bootstrap_configure E ctx abort dpidr = do {
     e \<leftarrow> swd_writeRaw E ctx 0x00 (bootstrap_clear abort dpidr);
     case e of
       Some x \<Rightarrow> repair_error (errorf ''swd: clear sticky state: %w'' x)
     | None \<Rightarrow> do {
         e \<leftarrow> swd_writeRaw E ctx 0x08 0;
         case e of
           Some x \<Rightarrow> repair_error (errorf ''swd: select DP bank zero: %w'' x)
         | None \<Rightarrow> do {
             r \<leftarrow> swd_readRaw E ctx 0x0C;
             case r of
               (_, Some x) \<Rightarrow> repair_error (errorf ''swd: settle DP bank zero: %w'' x)
             | (_, None) \<Rightarrow> do {
                 update (\<lambda>c. c\<lparr>sc_bank := bank_zero\<rparr>);
                 ret (Inr dpidr)
               }
           }
       }
   }"

definition swd_bootstrap_identified :: "'w go_env \<Rightarrow> ctx \<Rightarrow> bool \<Rightarrow> uint32 \<Rightarrow> ('w, err + uint32) swd" where
  "swd_bootstrap_identified E ctx abort dpidr = do {
     c \<leftarrow> fetch (\<lambda>c. c);
     if dpidr AND 1 = 0 then do {
       update (\<lambda>c. if sc_identityKnown c then requireRepair c
                   else invalidateBank (c\<lparr>sc_state := connectionIdle, sc_response := responseSimple\<rparr>));
       ret (Inl (invalid_DPIDR dpidr))
     }
     else if sc_identityKnown c \<and> dpidr \<noteq> sc_identity c
     then repair_error (changed_DPIDR (sc_identity c) dpidr)
     else do {
       update (\<lambda>c. c\<lparr>sc_identity := dpidr, sc_identityKnown := True\<rparr>);
       swd_bootstrap_configure E ctx abort dpidr
     }
   }"

definition swd_bootstrapAttempt :: "'w go_env \<Rightarrow> ctx \<Rightarrow> bool \<Rightarrow> ('w, err + uint32) swd" where
  "swd_bootstrapAttempt E ctx abort = do {
     r \<leftarrow> swd_readEntryIdentity E ctx;
     case r of
       (_, Some e) \<Rightarrow> repair_error (errorf ''swd: read DPIDR: %w'' e)
     | (dpidr, None) \<Rightarrow> swd_bootstrap_identified E ctx abort dpidr
   }"

definition join_errors :: "err \<Rightarrow> err \<Rightarrow> err" where
  "join_errors e f = Joined [e, f]"

definition swd_bootstrap :: "'w go_env \<Rightarrow> ctx \<Rightarrow> ('w, err + uint32) swd" where
  "swd_bootstrap E ctx = do {
     r \<leftarrow> swd_bootstrapAttempt E ctx False;
     case r of
       Inr dpidr \<Rightarrow> ret (Inr dpidr)
     | Inl e \<Rightarrow>
         if \<not> err_is e SwdErrWait then ret (Inl e)
         else do {
           update (\<lambda>c. invalidateBank (c\<lparr>sc_response := responseSimple\<rparr>));
           x \<leftarrow> swd_enterSWD E ctx;
           case x of
             Some retryErr \<Rightarrow>
               ret (Inl (join_errors e (errorf ''swd: re-enter after bootstrap WAIT: %w'' retryErr)))
           | None \<Rightarrow> do {
               r \<leftarrow> swd_bootstrapAttempt E ctx True;
               case r of
                 Inl retryErr \<Rightarrow> ret (Inl (join_errors e retryErr))
               | Inr dpidr \<Rightarrow> ret (Inr dpidr)
             }
         }
   }"

section \<open>Changing ORUNDETECT\<close>

definition overrun_unchanged :: err where
  "overrun_unchanged = New ''CTRL/STAT.ORUNDETECT did not change'' []"
definition transition_limit :: err where
  "transition_limit = New ''ORUNDETECT transition retry limit exceeded'' []"
definition barrier_limit :: err where
  "barrier_limit = New ''ORUNDETECT barrier retry limit exceeded'' []"

definition overrun_write_clear :: "uint32 \<Rightarrow> uint32 \<Rightarrow> uint32" where
  "overrun_write_clear identity state =
     (let clear = (if state AND stickyOverrun \<noteq> 0 then clearStickyOverrun else 0);
          clear = (if state AND stickyError \<noteq> 0 then clear OR clearStickyError else clear);
          clear = (if state AND writeDataErr \<noteq> 0 then clear OR clearWriteDataError else clear)
      in if state AND stickyCompare \<noteq> 0 \<and> drop_bit 16 identity AND 1 = 0
         then clear OR clearStickyCompare else clear)"

definition swd_prepareOverrunWrite :: "'w go_env \<Rightarrow> ctx \<Rightarrow> uint32 \<Rightarrow> ('w, err + uint32) swd" where
  "swd_prepareOverrunWrite E ctx state = do {
     identity \<leftarrow> fetch sc_identity;
     let clear = overrun_write_clear identity state;
     if clear = 0 then ret (Inr state)
     else do {
       e \<leftarrow> swd_writeRaw E ctx 0x00 clear;
       case e of
         Some x \<Rightarrow> repair_error x
       | None \<Rightarrow>
           (let state = (if clear AND clearStickyCompare \<noteq> 0 then state AND NOT stickyCompare else state)
            in ret (Inr (state AND NOT (stickyOverrun OR stickyError OR writeDataErr))))
     }
   }"

definition swd_verifyOverrunChange :: "'w go_env \<Rightarrow> ctx \<Rightarrow> bool \<Rightarrow> bool \<Rightarrow> ('w, err + bool) swd" where
  "swd_verifyOverrunChange E ctx enabled allowFallback = do {
     update (setResponse enabled);
     r \<leftarrow> swd_readRaw E ctx 0x04;
     case r of
       (_, Some e) \<Rightarrow> repair_error e
     | (state, None) \<Rightarrow>
         if (state AND overrunDetect \<noteq> 0) = enabled then ret (Inr True)
         else do {
           update (\<lambda>c. c\<lparr>sc_response := responseSimple\<rparr>);
           if allowFallback then ret (Inr False) else repair_error overrun_unchanged
         }
   }"

definition swd_recoverAbandonedOverrunWrite :: "'w go_env \<Rightarrow> ctx \<Rightarrow> ('w, err + uint32) swd" where
  "swd_recoverAbandonedOverrunWrite E ctx = do {
     r \<leftarrow> swd_readRaw E ctx 0x04;
     case r of
       (_, Some e) \<Rightarrow> repair_error e
     | (state, None) \<Rightarrow>
         if state AND writeDataErr = 0 then ret (Inr state)
         else do {
           e \<leftarrow> swd_writeRaw E ctx 0x00 clearWriteDataError;
           case e of
             Some x \<Rightarrow> repair_error x
           | None \<Rightarrow> ret (Inr (state AND NOT writeDataErr))
         }
   }"

definition transition_fault_clear :: "uint32 \<Rightarrow> uint32" where
  "transition_fault_clear state =
     (let clear = (if state AND writeDataErr \<noteq> 0 then clearWriteDataError else 0)
      in if state AND stickyOverrun \<noteq> 0 then clear OR clearStickyOverrun else clear)"

definition swd_clearOverrunTransitionFault :: "'w go_env \<Rightarrow> ctx \<Rightarrow> uint32 \<Rightarrow> ('w, go_error) swd" where
  "swd_clearOverrunTransitionFault E ctx state =
     (let clear = transition_fault_clear state in
      if clear = 0 then ret None
      else do {
        e \<leftarrow> swd_writeRaw E ctx 0x00 clear;
        case e of
          Some x \<Rightarrow> do { update requireRepair; ret (Some x) }
        | None \<Rightarrow> ret None
      })"

text \<open>
  The results \<open>(applied, retry, state)\<close> of the settling functions: \<open>Settled applied\<close> ends the
  transition, \<open>Retry state\<close> asks for another write.
\<close>

datatype settled = Settled bool | Retry uint32

definition swd_resolveOverrunFault ::
  "'w go_env \<Rightarrow> ctx \<Rightarrow> bool \<Rightarrow> bool \<Rightarrow> ('w, err + settled) swd" where
  "swd_resolveOverrunFault E ctx enabled allowFallback = do {
     r \<leftarrow> swd_readRaw E ctx 0x04;
     case r of
       (_, Some e) \<Rightarrow> repair_error (join_errors ErrFault e)
     | (state, None) \<Rightarrow> do {
         update (setResponse (state AND overrunDetect \<noteq> 0));
         e \<leftarrow> swd_clearOverrunTransitionFault E ctx state;
         case e of
           Some x \<Rightarrow> ret (Inl (join_errors ErrFault x))
         | None \<Rightarrow>
             (let applied = ((state AND overrunDetect \<noteq> 0) = enabled) in
              if applied \<or> allowFallback then ret (Inr (Settled applied))
              else ret (Inr (Retry (state AND NOT (writeDataErr OR stickyOverrun)))))
       }
   }"

definition swd_resolveOverrunBarrier ::
  "'w go_env \<Rightarrow> ctx \<Rightarrow> go_error \<Rightarrow> bool \<Rightarrow> bool \<Rightarrow> ('w, err + settled) swd" where
  "swd_resolveOverrunBarrier E ctx barrierErr enabled allowFallback =
     (if barrierErr = None \<or> barrierErr = Some ErrParity then do {
        r \<leftarrow> swd_verifyOverrunChange E ctx enabled allowFallback;
        case r of Inl e \<Rightarrow> ret (Inl e) | Inr applied \<Rightarrow> ret (Inr (Settled applied))
      }
      else if barrierErr = Some ErrWait then do {
        r \<leftarrow> swd_recoverAbandonedOverrunWrite E ctx;
        case r of Inl e \<Rightarrow> ret (Inl e) | Inr state \<Rightarrow> ret (Inr (Retry state))
      }
      else if barrierErr = Some ErrFault then swd_resolveOverrunFault E ctx enabled allowFallback
      else repair_error (the barrierErr))"

primrec swd_settle_attempts ::
  "nat \<Rightarrow> 'w go_env \<Rightarrow> ctx \<Rightarrow> bool \<Rightarrow> bool \<Rightarrow> ('w, err + settled) swd" where
  "swd_settle_attempts 0 E ctx enabled allowFallback = repair_error barrier_limit"
| "swd_settle_attempts (Suc n) E ctx enabled allowFallback = do {
     r \<leftarrow> swd_readRaw E ctx 0x0C;
     response \<leftarrow> fetch sc_response;
     if snd r = Some ErrWait \<and> response = responseSimple
     then swd_settle_attempts n E ctx enabled allowFallback
     else swd_resolveOverrunBarrier E ctx (snd r) enabled allowFallback
   }"

definition swd_settleOverrunWrite ::
  "'w go_env \<Rightarrow> ctx \<Rightarrow> bool \<Rightarrow> bool \<Rightarrow> ('w, err + settled) swd" where
  "swd_settleOverrunWrite = swd_settle_attempts (connectWaitLimit + 1)"

primrec swd_change_attempts ::
  "nat \<Rightarrow> 'w go_env \<Rightarrow> ctx \<Rightarrow> uint32 \<Rightarrow> bool \<Rightarrow> bool \<Rightarrow> ('w, err + bool) swd" where
  "swd_change_attempts 0 E ctx state enabled allowFallback = repair_error transition_limit"
| "swd_change_attempts (Suc n) E ctx state enabled allowFallback = do {
     r \<leftarrow> swd_prepareOverrunWrite E ctx state;
     case r of
       Inl e \<Rightarrow> ret (Inl e)
     | Inr state \<Rightarrow> do {
         e \<leftarrow> swd_writeRaw E ctx 0x04
                (if enabled then state OR overrunDetect else state AND NOT overrunDetect);
         case e of
           Some x \<Rightarrow> repair_error x
         | None \<Rightarrow> do {
             r \<leftarrow> swd_settleOverrunWrite E ctx enabled allowFallback;
             case r of
               Inl e \<Rightarrow> ret (Inl e)
             | Inr s \<Rightarrow>
                 (case s of
                    Settled applied \<Rightarrow> ret (Inr applied)
                  | Retry observed \<Rightarrow> swd_change_attempts n E ctx observed enabled allowFallback)
           }
       }
   }"

definition swd_changeOverrun ::
  "'w go_env \<Rightarrow> ctx \<Rightarrow> uint32 \<Rightarrow> bool \<Rightarrow> bool \<Rightarrow> ('w, err + bool) swd" where
  "swd_changeOverrun = swd_change_attempts (connectWaitLimit + 1)"

section \<open>Release\<close>

definition swd_reenterForRelease :: "'w go_env \<Rightarrow> ctx \<Rightarrow> ('w, go_error) swd" where
  "swd_reenterForRelease E ctx = do {
     update (\<lambda>c. invalidateBank (c\<lparr>sc_response := responseSimple\<rparr>));
     e \<leftarrow> swd_enterSWD E ctx;
     case e of
       Some x \<Rightarrow> do {
         update requireRepair;
         ret (Some (errorf ''swd: re-enter protocol for release: %w'' x))
       }
     | None \<Rightarrow> do {
         r \<leftarrow> swd_bootstrap E ctx;
         case r of
           Inl x \<Rightarrow> ret (Some (errorf ''swd: bootstrap release: %w'' x))
         | Inr _ \<Rightarrow> do {
             r \<leftarrow> swd_readRaw E ctx 0x04;
             case r of
               (_, Some x) \<Rightarrow> do {
                 update requireRepair;
                 ret (Some (errorf ''swd: read CTRL/STAT for release: %w'' x))
               }
             | (state, None) \<Rightarrow> do {
                 update (\<lambda>c. if state AND overrunDetect \<noteq> 0
                             then c\<lparr>sc_response := responseOverrun\<rparr> else c);
                 ret None
               }
           }
       }
   }"

definition swd_prepareRelease :: "'w go_env \<Rightarrow> ctx \<Rightarrow> ('w, go_error) swd" where
  "swd_prepareRelease E ctx = do {
     c \<leftarrow> fetch (\<lambda>c. c);
     e \<leftarrow> (if sc_state c \<noteq> connectionReady \<or> \<not> bs_valid (sc_bank c) \<or> sc_selectPending c
           then swd_reenterForRelease E ctx else ret None);
     case e of
       Some x \<Rightarrow> ret (Some x)
     | None \<Rightarrow> do {
         bank \<leftarrow> fetch sc_bank;
         if bs_bank bank = 0 then ret None
         else do {
           e \<leftarrow> swd_writeRaw E ctx 0x08 0;
           case e of
             Some x \<Rightarrow> do {
               update requireRepair;
               ret (Some (errorf ''swd: select DP bank zero for release: %w'' x))
             }
           | None \<Rightarrow> do {
               r \<leftarrow> swd_readRaw E ctx 0x0C;
               case r of
                 (_, Some x) \<Rightarrow> do {
                   update requireRepair;
                   ret (Some (errorf ''swd: settle DP bank zero for release: %w'' x))
                 }
               | (_, None) \<Rightarrow> do { update (\<lambda>c. c\<lparr>sc_bank := bank_zero\<rparr>); ret None }
             }
         }
       }
   }"

definition swd_restoreOverrun :: "'w go_env \<Rightarrow> ctx \<Rightarrow> ('w, go_error) swd" where
  "swd_restoreOverrun E ctx = do {
     r \<leftarrow> swd_readRaw E ctx 0x04;
     case r of
       (_, Some x) \<Rightarrow> do {
         update requireRepair;
         ret (Some (errorf ''swd: read CTRL/STAT for release: %w'' x))
       }
     | (state, None) \<Rightarrow> do {
         c \<leftarrow> fetch (\<lambda>c. c);
         let want = (if sc_originalKnown c then sc_originalOverrun c else state AND overrunDetect \<noteq> 0);
         if (state AND overrunDetect \<noteq> 0) = want then ret None
         else do {
           r \<leftarrow> swd_changeOverrun E ctx state want False;
           case r of
             Inl x \<Rightarrow> ret (Some (errorf ''swd: restore overrun detection: %w'' x))
           | Inr _ \<Rightarrow> ret None
         }
       }
   }"

text \<open>The body of \<open>Release\<close> that its deferred call follows.\<close>

definition swd_restore :: "'w go_env \<Rightarrow> ctx \<Rightarrow> ('w, go_error) swd" where
  "swd_restore E ctx = do {
     e \<leftarrow> swd_prepareRelease E ctx;
     case e of
       Some x \<Rightarrow> ret (Some x)
     | None \<Rightarrow> do {
         e \<leftarrow> swd_restoreOverrun E ctx;
         case e of
           Some x \<Rightarrow> ret (Some x)
         | None \<Rightarrow> do { update finishRelease; ret None }
       }
   }"

definition swd_Release :: "'w go_env \<Rightarrow> ctx \<Rightarrow> ('w, go_error) swd" where
  "swd_Release E ctx = do {
     c \<leftarrow> fetch (\<lambda>c. c);
     if sc_wire c = None \<or> sc_state c = connectionIdle then ret None
     else do {
       e \<leftarrow> outside (ctx_Err E ctx);
       case e of
         Some x \<Rightarrow> ret (Some (notExecuted (Sentinel x)))
       | None \<Rightarrow> do {
           e \<leftarrow> swd_restore E ctx;
           swd_completionError E ctx e
         }
     }
   }"

section \<open>Connect\<close>

record connectOptions =
  co_cleanupTimeout :: int

definition WithCleanupTimeout :: "int \<Rightarrow> connectOptions \<Rightarrow> connectOptions" where
  "WithCleanupTimeout timeout options = options\<lparr>co_cleanupTimeout := timeout\<rparr>"

definition swd_nil_connection :: err where
  "swd_nil_connection = New ''swd: nil connection'' []"
definition swd_bad_cleanup :: err where
  "swd_bad_cleanup = New ''swd: cleanup timeout must be positive'' []"

definition swd_prepareConnection :: "'w go_env \<Rightarrow> ctx \<Rightarrow> ('w, err + uint32 \<times> uint32) swd" where
  "swd_prepareConnection E ctx = do {
     update (\<lambda>c. invalidateBank (c\<lparr>sc_state := connectionRepair, sc_response := responseSimple\<rparr>));
     e \<leftarrow> swd_enterSWD E ctx;
     case e of
       Some x \<Rightarrow> ret (Inl (errorf ''swd: enter protocol: %w'' x))
     | None \<Rightarrow> do {
         r \<leftarrow> swd_bootstrap E ctx;
         case r of
           Inl x \<Rightarrow> ret (Inl x)
         | Inr dpidr \<Rightarrow> do {
             r \<leftarrow> swd_readRaw E ctx 0x04;
             case r of
               (_, Some x) \<Rightarrow> repair_error (errorf ''swd: read CTRL/STAT: %w'' x)
             | (state, None) \<Rightarrow> ret (Inr (dpidr, state))
           }
       }
   }"

definition swd_cleanupFailedConnect :: "'w go_env \<Rightarrow> go_error \<Rightarrow> int \<Rightarrow> ('w, go_error) swd" where
  "swd_cleanupFailedConnect E connectErr timeout =
     (case connectErr of
        None \<Rightarrow> ret None
      | Some e \<Rightarrow> do {
          c \<leftarrow> fetch (\<lambda>c. c);
          if \<not> sc_originalKnown c then do { update finishRelease; ret connectErr }
          else if sc_state c = connectionIdle then ret connectErr
          else do {
            cleanupCtx \<leftarrow> outside (\<lambda>w. (WithTimeout E Background timeout w, w));
            x \<leftarrow> swd_Release E cleanupCtx;
            case x of
              None \<Rightarrow> ret connectErr
            | Some y \<Rightarrow>
                ret (errors_Join [connectErr, Some (errorf ''swd: clean up failed Connect: %w'' y)])
          }
        })"

text \<open>
  The body of \<open>Connect\<close> that its two deferred calls follow: the setting found is recorded, then
  the response grammar is established.
\<close>

definition swd_acquire :: "bool \<Rightarrow> 'w swd_conn \<Rightarrow> 'w swd_conn" where
  "swd_acquire inherited c =
     (if sc_originalKnown c then c
      else c\<lparr>sc_originalOverrun := inherited, sc_originalKnown := True\<rparr>)"

definition swd_establish_response :: "'w go_env \<Rightarrow> ctx \<Rightarrow> uint32 \<Rightarrow> ('w, go_error) swd" where
  "swd_establish_response E ctx state =
     (if state AND overrunDetect \<noteq> 0
      then do { update (\<lambda>c. c\<lparr>sc_response := responseOverrun\<rparr>); ret None }
      else do {
        r \<leftarrow> swd_changeOverrun E ctx state True True;
        case r of
          Inl x \<Rightarrow> ret (Some (errorf ''swd: enable overrun detection: %w'' x))
        | Inr _ \<Rightarrow> ret None
      })"

definition swd_establish :: "'w go_env \<Rightarrow> ctx \<Rightarrow> ('w, uint32 \<times> go_error) swd" where
  "swd_establish E ctx = do {
     r \<leftarrow> swd_prepareConnection E ctx;
     case r of
       Inl x \<Rightarrow> ret (0, Some x)
     | Inr (dpidr, state) \<Rightarrow> do {
         update (swd_acquire (state AND overrunDetect \<noteq> 0));
         e \<leftarrow> swd_establish_response E ctx state;
         case e of
           Some x \<Rightarrow> ret (0, Some x)
         | None \<Rightarrow> do {
             update (\<lambda>c. c\<lparr>sc_state := connectionReady\<rparr>);
             ret (dpidr, None)
           }
       }
   }"

definition swd_Connect ::
  "'w go_env \<Rightarrow> ctx \<Rightarrow> (connectOptions \<Rightarrow> connectOptions) option list \<Rightarrow>
   ('w, uint32 \<times> go_error) swd" where
  "swd_Connect E ctx options = do {
     c \<leftarrow> fetch (\<lambda>c. c);
     if sc_wire c = None then ret (0, Some swd_nil_connection)
     else do {
       e \<leftarrow> outside (ctx_Err E ctx);
       case e of
         Some x \<Rightarrow> ret (0, Some (Sentinel x))
       | None \<Rightarrow>
           (let config = fold (\<lambda>option cfg. case option of None \<Rightarrow> cfg | Some f \<Rightarrow> f cfg) options
                           \<lparr>co_cleanupTimeout = 1000000000\<rparr>
            in if co_cleanupTimeout config \<le> 0 then ret (0, Some swd_bad_cleanup)
               else do {
                 r \<leftarrow> swd_establish E ctx;
                 e1 \<leftarrow> swd_completionError E ctx (snd r);
                 e2 \<leftarrow> swd_cleanupFailedConnect E e1 (co_cleanupTimeout config);
                 ret (fst r, e2)
               })
     }
   }"

section \<open>Predicates the inner operations keep\<close>

lemma wp_readRaw:
  assumes "\<And>v e c' w'. disturbed c e c' \<Longrightarrow> Q (v, e) (c', w')"
  shows "wp (swd_readRaw E ctx a) Q (c, w)"
  unfolding swd_readRaw_def wp_simps
  by (auto simp: assms split: sum.splits intro!: wp_execute)

lemma wp_writeRaw:
  assumes "\<And>e c' w'. disturbed c e c' \<Longrightarrow> Q e (c', w')"
  shows "wp (swd_writeRaw E ctx a v) Q (c, w)"
  unfolding swd_writeRaw_def wp_simps
  by (auto simp: assms wp_simps split: sum.splits intro!: wp_execute)

lemma wp_readEntryIdentity:
  assumes "\<And>v e c' w'. disturbed c e c' \<Longrightarrow> Q (v, e) (c', w')"
  shows "wp (swd_readEntryIdentity E ctx) Q (c, w)"
  unfolding swd_readEntryIdentity_def wp_simps
  apply (rule wp_readRaw)
  apply (auto simp: assms wp_simps split: option.splits prod.splits)
   apply (auto simp: disturbed_def intro!: assms)
  apply (rule wp_only_world [OF only_world_enterThroughDormant])
  apply (auto simp: assms split: option.splits intro!: wp_readRaw)
  done

text \<open>
  The contract between the lifecycle and its inner operations: a predicate on the connection that
  survives the updates they make is kept by every one of them.
\<close>

locale swd_stable =
  fixes P :: "'w swd_conn \<Rightarrow> bool"
  assumes stable_repair: "P c \<Longrightarrow> P (requireRepair c)"
    and stable_response: "P c \<Longrightarrow> P (c\<lparr>sc_response := m\<rparr>)"
    and stable_invalid: "P c \<Longrightarrow> P (invalidateBank c)"
    and stable_zero: "P c \<Longrightarrow> P (c\<lparr>sc_bank := bank_zero\<rparr>)"
    and stable_identity: "P c \<Longrightarrow> d AND 1 \<noteq> 0 \<Longrightarrow> (sc_identityKnown c \<Longrightarrow> sc_identity c = d) \<Longrightarrow>
       P (c\<lparr>sc_identity := d, sc_identityKnown := True\<rparr>)"
    and stable_idle: "P c \<Longrightarrow> \<not> sc_identityKnown c \<Longrightarrow>
       P (invalidateBank (c\<lparr>sc_state := connectionIdle, sc_response := responseSimple\<rparr>))"
begin

lemma stable_disturbed: "P c \<Longrightarrow> disturbed c e c' \<Longrightarrow> P c'"
  by (auto simp: disturbed_def intro: stable_repair)

lemma keeps_execute [keeps_intros]: "keeps (\<lambda>s. P (fst s)) (swd_execute E ctx req data)"
  by (auto simp: keeps_def intro!: wp_execute intro: stable_disturbed)

lemma keeps_readRaw [keeps_intros]: "keeps (\<lambda>s. P (fst s)) (swd_readRaw E ctx a)"
  by (auto simp: keeps_def intro!: wp_readRaw intro: stable_disturbed)

lemma keeps_writeRaw [keeps_intros]: "keeps (\<lambda>s. P (fst s)) (swd_writeRaw E ctx a v)"
  by (auto simp: keeps_def intro!: wp_writeRaw intro: stable_disturbed)

lemma keeps_readEntryIdentity [keeps_intros]:
  "keeps (\<lambda>s. P (fst s)) (swd_readEntryIdentity E ctx)"
  by (auto simp: keeps_def intro!: wp_readEntryIdentity intro: stable_disturbed)

lemma keeps_repair [keeps_intros]: "keeps (\<lambda>s. P (fst s)) (update requireRepair)"
  by (intro keeps_update stable_repair)

lemma keeps_repair_error [keeps_intros]: "keeps (\<lambda>s. P (fst s)) (repair_error e)"
  unfolding repair_error_def by (intro keeps_intros)

lemmas keeps_world [keeps_intros] =
  only_world_keeps [OF only_world_enterSWD] only_world_keeps [OF only_world_completionError]

lemma keeps_simple [keeps_intros]:
  "keeps (\<lambda>s. P (fst s)) (update (\<lambda>c. invalidateBank (c\<lparr>sc_response := responseSimple\<rparr>)))"
  by (intro keeps_update stable_invalid stable_response)

lemma keeps_zero [keeps_intros]: "keeps (\<lambda>s. P (fst s)) (update (\<lambda>c. c\<lparr>sc_bank := bank_zero\<rparr>))"
  by (intro keeps_update stable_zero)

lemma keeps_setResponse [keeps_intros]:
  "keeps (\<lambda>s. P (fst s)) (update (setResponse b))"
  "keeps (\<lambda>s. P (fst s)) (update (\<lambda>c. c\<lparr>sc_response := m\<rparr>))"
  "keeps (\<lambda>s. P (fst s)) (update (\<lambda>c. if b then c\<lparr>sc_response := m\<rparr> else c))"
  by (auto intro!: keeps_update simp: setResponse_def stable_response)

lemma keeps_configure [keeps_intros]: "keeps (\<lambda>s. P (fst s)) (swd_bootstrap_configure E ctx abort d)"
  unfolding swd_bootstrap_configure_def by (intro keeps_intros)

lemma keeps_identified [keeps_intros]:
  "keeps (\<lambda>s. P (fst s)) (swd_bootstrap_identified E ctx abort d)"
proof -
  have "wp (swd_bootstrap_identified E ctx abort d) (\<lambda>_ s. P (fst s)) (c, w)" if "P c" for c w
  proof -
    have "P (c\<lparr>sc_identity := d, sc_identityKnown := True\<rparr>)"
      if "d AND 1 \<noteq> 0" "\<not> (sc_identityKnown c \<and> d \<noteq> sc_identity c)"
      using that by (intro stable_identity \<open>P c\<close>) auto
    then show ?thesis
      unfolding swd_bootstrap_identified_def
      using stable_repair [OF that] stable_idle [OF that]
      by (simp add: wp_simps keeps_wp [where P = P, OF keeps_repair_error that]
          keeps_wp [where P = P, OF keeps_configure])
  qed
  then show ?thesis by (simp add: keeps_def)
qed

lemma keeps_attempt [keeps_intros]: "keeps (\<lambda>s. P (fst s)) (swd_bootstrapAttempt E ctx abort)"
  unfolding swd_bootstrapAttempt_def by (intro keeps_intros)

lemma keeps_bootstrap [keeps_intros]: "keeps (\<lambda>s. P (fst s)) (swd_bootstrap E ctx)"
  unfolding swd_bootstrap_def by (intro keeps_intros)

lemma keeps_settle_attempts [keeps_intros]:
  "keeps (\<lambda>s. P (fst s)) (swd_settle_attempts n E ctx enabled allowFallback)"
  unfolding swd_resolveOverrunBarrier_def
  by (induction n)
     (simp_all only: swd_settle_attempts.simps swd_resolveOverrunBarrier_def
        swd_verifyOverrunChange_def swd_recoverAbandonedOverrunWrite_def swd_resolveOverrunFault_def
        swd_clearOverrunTransitionFault_def, (intro keeps_intros; assumption)+)

lemma keeps_change_attempts:
  "keeps (\<lambda>s. P (fst s)) (swd_change_attempts n E ctx state enabled allowFallback)"
proof (induction n arbitrary: state)
  case 0
  show ?case unfolding swd_change_attempts.simps by (intro keeps_intros)
next
  case (Suc n)
  show ?case
    unfolding swd_change_attempts.simps swd_prepareOverrunWrite_def swd_settleOverrunWrite_def
    by (intro keeps_intros) (auto split: settled.splits intro: Suc keeps_intros)
qed

lemma keeps_changeOverrun [keeps_intros]:
  "keeps (\<lambda>s. P (fst s)) (swd_changeOverrun E ctx state enabled allowFallback)"
  unfolding swd_changeOverrun_def by (rule keeps_change_attempts)

lemma keeps_restoring [keeps_intros]:
  "keeps (\<lambda>s. P (fst s)) (swd_prepareRelease E ctx)"
  "keeps (\<lambda>s. P (fst s)) (swd_restoreOverrun E ctx)"
  unfolding swd_prepareRelease_def swd_reenterForRelease_def swd_restoreOverrun_def
  by (intro keeps_intros)+

end

end
