(* ===== verification/Swd_Invariant.thy ===== *)
theory Swd_Invariant
  imports Swd_Lifecycle
begin

text \<open>
  The invariant of an SWD connection between calls, and what \<open>Connect\<close> and \<open>Release\<close> of
  \<open>src/swd/lifecycle.go\<close> leave behind: which state they own, what they keep for a retry, and how
  many exchanges they may make.
\<close>

section \<open>The invariant\<close>

definition bank_wf :: "'w swd_conn \<Rightarrow> bool" where
  "bank_wf c \<longleftrightarrow> (sc_selectPending c \<longrightarrow> bs_valid (sc_bank c)) \<and>
     (\<not> sc_selectPending c \<longrightarrow> sc_priorBank c = no_bank)"

definition swd_idle :: "'w swd_conn \<Rightarrow> bool" where
  "swd_idle c \<longleftrightarrow> sc_state c = connectionIdle \<and> \<not> sc_originalKnown c \<and> \<not> sc_identityKnown c \<and>
     sc_response c = responseSimple \<and> sc_bank c = no_bank \<and> \<not> sc_selectPending c"

definition swd_inv :: "'w swd_conn \<Rightarrow> bool" where
  "swd_inv c \<longleftrightarrow> bank_wf c \<and> (sc_identityKnown c \<longrightarrow> sc_identity c AND 1 \<noteq> 0) \<and>
     (if sc_state c = connectionIdle then swd_idle c
      else sc_originalKnown c \<and> sc_identityKnown c \<and> sc_wire c \<noteq> None)"

text \<open>Inside \<open>Connect\<close> and \<open>Release\<close>, relative to the connection they were called on.\<close>

definition swd_mid :: "'w swd_conn \<Rightarrow> 'w swd_conn \<Rightarrow> bool" where
  "swd_mid c0 c \<longleftrightarrow>
     sc_wire c = sc_wire c0 \<and> sc_completionTimeout c = sc_completionTimeout c0 \<and>
     (sc_originalKnown c0 \<longrightarrow> sc_originalKnown c \<and> sc_originalOverrun c = sc_originalOverrun c0 \<and>
        sc_identity c = sc_identity c0) \<and>
     (sc_originalKnown c \<longrightarrow> sc_identityKnown c \<and> sc_state c \<noteq> connectionIdle) \<and>
     bank_wf c \<and> (sc_identityKnown c \<longrightarrow> sc_identity c AND 1 \<noteq> 0)"

lemmas bank_defs = invalidateBank_def confirmBank_def no_bank_def bank_zero_def

lemma requireRepair_simps [simp]:
  "sc_wire (requireRepair c) = sc_wire c"
  "sc_response (requireRepair c) = sc_response c"
  "sc_identity (requireRepair c) = sc_identity c"
  "sc_identityKnown (requireRepair c) = sc_identityKnown c"
  "sc_originalKnown (requireRepair c) = sc_originalKnown c"
  "sc_originalOverrun (requireRepair c) = sc_originalOverrun c"
  "sc_completionTimeout (requireRepair c) = sc_completionTimeout c"
  "sc_state (requireRepair c) = (if sc_state c = connectionIdle then connectionIdle else connectionRepair)"
  by (simp_all add: requireRepair_def bank_defs)

lemma bank_wf_simps [simp]:
  "bank_wf (invalidateBank c)"
  "bank_wf c \<Longrightarrow> bank_wf (requireRepair c)"
  "bank_wf (c\<lparr>sc_response := m\<rparr>) = bank_wf c"
  "bank_wf c \<Longrightarrow> bank_wf (c\<lparr>sc_bank := bank_zero\<rparr>)"
  "bank_wf (c\<lparr>sc_identity := d\<rparr>) = bank_wf c"
  "bank_wf (c\<lparr>sc_identityKnown := b\<rparr>) = bank_wf c"
  "bank_wf (c\<lparr>sc_originalOverrun := b\<rparr>) = bank_wf c"
  "bank_wf (c\<lparr>sc_originalKnown := b\<rparr>) = bank_wf c"
  "bank_wf (c\<lparr>sc_state := st\<rparr>) = bank_wf c"
  by (auto simp: bank_wf_def bank_defs requireRepair_def)

lemma invalidateBank_simps [simp]:
  "sc_wire (invalidateBank c) = sc_wire c"
  "sc_response (invalidateBank c) = sc_response c"
  "sc_identity (invalidateBank c) = sc_identity c"
  "sc_identityKnown (invalidateBank c) = sc_identityKnown c"
  "sc_originalKnown (invalidateBank c) = sc_originalKnown c"
  "sc_originalOverrun (invalidateBank c) = sc_originalOverrun c"
  "sc_completionTimeout (invalidateBank c) = sc_completionTimeout c"
  "sc_state (invalidateBank c) = sc_state c"
  "sc_bank (invalidateBank c) = no_bank"
  "\<not> sc_selectPending (invalidateBank c)"
  "sc_priorBank (invalidateBank c) = no_bank"
  by (simp_all add: bank_defs)

interpretation mid: swd_stable "swd_mid c0" for c0
  by unfold_locales (auto simp: swd_mid_def)

lemma finishRelease_idle: "swd_idle (finishRelease c)" "swd_inv (finishRelease c)"
  by (simp_all add: swd_idle_def swd_inv_def finishRelease_def)

lemma swd_mid_start: "swd_inv c \<Longrightarrow> swd_mid c c"
  by (auto simp: swd_inv_def swd_mid_def swd_idle_def split: if_splits)

lemma swd_mid_inv: "swd_mid c0 c \<Longrightarrow> sc_originalKnown c \<Longrightarrow> sc_wire c0 \<noteq> None \<Longrightarrow> swd_inv c"
  by (auto simp: swd_inv_def swd_mid_def)

lemma swd_mid_refl: "swd_mid c0 c \<Longrightarrow> swd_mid c c"
  by (auto simp: swd_mid_def)

lemma swd_mid_trans: "swd_mid c0 c \<Longrightarrow> swd_mid c c' \<Longrightarrow> swd_mid c0 c'"
  by (auto simp: swd_mid_def)

lemma join_cause_Some: "join_cause E ctx (Some a) w = (e, w') \<Longrightarrow> \<exists>y. e = Some y"
  using join_cause_None [of E ctx "Some a" w w'] by (cases e) auto

definition on_result :: "('a \<Rightarrow> 'c \<Rightarrow> bool) \<Rightarrow> (err \<Rightarrow> 'c \<Rightarrow> bool) \<Rightarrow> err + 'a \<Rightarrow> 'c \<times> 'w \<Rightarrow> bool" where
  "on_result Q R r s = (case r of Inr a \<Rightarrow> Q a (fst s) | Inl e \<Rightarrow> R e (fst s))"

lemma on_result_simps [simp]:
  "on_result Q R (Inr a) s = Q a (fst s)" "on_result Q R (Inl e) s = R e (fst s)"
  by (simp_all add: on_result_def)

definition on_error :: "('c \<Rightarrow> bool) \<Rightarrow> ('c \<Rightarrow> bool) \<Rightarrow> go_error \<Rightarrow> 'c \<times> 'w \<Rightarrow> bool" where
  "on_error Q R e s = (if e = None then Q (fst s) else R (fst s))"

lemma on_error_simps [simp]:
  "on_error Q R None s = Q (fst s)" "on_error Q R (Some e) s = R (fst s)"
  by (simp_all add: on_error_def)

definition ending :: "'w swd_conn \<Rightarrow> 'w swd_conn \<Rightarrow> bool" where
  "ending c c' \<longleftrightarrow> swd_inv c' \<and> (swd_idle c' \<or> swd_mid c c')"

lemma ending_mid:
  "swd_mid c c' \<Longrightarrow> sc_originalKnown c' \<Longrightarrow> sc_wire c \<noteq> None \<Longrightarrow> ending c c'"
  by (auto simp: ending_def swd_mid_def swd_inv_def)

lemma ending_idle: "swd_idle c' \<Longrightarrow> swd_inv c' \<Longrightarrow> ending c c'"
  by (simp add: ending_def)

lemma ending_trans: "swd_mid c0 c \<Longrightarrow> ending c c' \<Longrightarrow> ending c0 c'"
  using swd_mid_trans by (auto simp: ending_def)

definition released :: "'w swd_conn \<Rightarrow> bool" where
  "released c \<longleftrightarrow> swd_idle c \<and> swd_inv c"

lemma released_finishRelease [simp]: "released (finishRelease c)"
  by (simp add: released_def finishRelease_idle)

lemma ending_released: "released c' \<Longrightarrow> ending c c'"
  by (simp add: released_def ending_idle)

lemma restore_post:
  assumes "swd_mid c c"
  shows "wp (swd_restore E ctx) (on_error released (swd_mid c)) (c, w)"
  unfolding swd_restore_def
proof (rule wp_seq [OF keeps_wp [OF mid.keeps_restoring(1) assms]], goal_cases)
  case (1 e s)
  have "wp (swd_restoreOverrun E ctx) (\<lambda>_ s. swd_mid c (fst s)) s"
    using keepsD [OF mid.keeps_restoring(2)] 1 .
  then show ?case
    using 1
    by (auto simp: wp_return wp_bind [of "update _"] wp_prog
        split: option.splits intro!: wp_seq [of "swd_restoreOverrun E ctx"])
qed

lemma completionError_post:
  "on_error Q R e (c, w) \<Longrightarrow> (Q c \<Longrightarrow> R c) \<Longrightarrow> wp (swd_completionError E ctx e) (on_error Q R) (c, w)"
  by (cases e) (auto simp: swd_completionError_def wp_prog on_error_def split: prod.splits
      dest: join_cause_Some)

lemma Release_post:
  assumes "swd_mid c c" "sc_originalKnown c" "sc_wire c \<noteq> None"
  shows "wp (swd_Release E ctx) (on_error released (ending c)) (c, w)"
proof -
  have *: "sc_state c \<noteq> connectionIdle" "ending c c"
    using assms by (auto simp: swd_mid_def intro: ending_mid)
  have tail: "wp (swd_completionError E ctx e) (on_error released (ending c)) s"
    if "on_error released (swd_mid c) e s" for e s
  proof (cases s)
    case (Pair c' w')
    then have "on_error released (ending c) e (c', w')"
      using that assms by (cases e) (auto intro!: ending_mid simp: swd_mid_def)
    then show ?thesis
      unfolding Pair by (rule completionError_post) (rule ending_released)
  qed
  show ?thesis
    unfolding swd_Release_def
    using assms *
    by (auto simp: wp_return wp_if wp_case wp_prog wp_bind [of "fetch _"] wp_bind [of "outside _"]
        split: option.splits prod.splits intro!: wp_seq [OF restore_post] tail)
qed

definition zeroed :: "uint32 \<Rightarrow> 'w swd_conn \<Rightarrow> bool" where
  "zeroed d c \<longleftrightarrow> sc_state c = connectionRepair \<and> sc_identityKnown c \<and> sc_identity c = d \<and>
     d AND 1 \<noteq> 0 \<and> sc_bank c = bank_zero \<and> \<not> sc_selectPending c"

definition unsettled :: "'w swd_conn \<Rightarrow> bool" where
  "unsettled c \<longleftrightarrow> sc_state c = connectionRepair \<and> \<not> sc_selectPending c"

lemma wp_repair_error: "wp (repair_error e) Q (c, w) = Q (Inl e) (requireRepair c, w)"
  by (simp add: repair_error_def wp_simps)

lemma unsettled_repair [simp]: "unsettled c \<Longrightarrow> unsettled (requireRepair c)"
  by (simp add: unsettled_def requireRepair_def)

lemma unsettled_disturbed: "unsettled c \<Longrightarrow> disturbed c e c' \<Longrightarrow> unsettled c'"
  by (auto simp: disturbed_def)

lemma unsettled_repaired: "unsettled c \<Longrightarrow> disturbed c e c' \<Longrightarrow> unsettled (requireRepair c')"
  by (auto simp: disturbed_def)

lemma configure_post:
  assumes "unsettled c" "sc_identityKnown c" "sc_identity c = d" "d AND 1 \<noteq> 0"
  shows "wp (swd_bootstrap_configure E ctx abort d) (on_result zeroed (\<lambda>_. unsettled)) (c, w)"
proof -
  have "zeroed d (c\<lparr>sc_bank := bank_zero\<rparr>)"
    using assms by (simp add: zeroed_def unsettled_def)
  then show ?thesis
    unfolding swd_bootstrap_configure_def wp_bind
    by (auto simp: wp_simps wp_repair_error split: option.splits intro!: wp_writeRaw wp_readRaw)
       (rule unsettled_repaired [OF assms(1)], assumption)+
qed

lemma identified_post:
  assumes "unsettled c"
  shows "wp (swd_bootstrap_identified E ctx abort d)
     (on_result zeroed (\<lambda>e c. err_is e SwdErrWait \<longrightarrow> unsettled c)) (c, w)"
proof -
  let ?c = "c\<lparr>sc_identity := d, sc_identityKnown := True\<rparr>"
  have "unsettled ?c"
    using assms by (simp add: unsettled_def)
  then have "wp (swd_bootstrap_configure E ctx abort d)
     (on_result zeroed (\<lambda>e c. err_is e SwdErrWait \<longrightarrow> unsettled c)) (?c, w)" if "d AND 1 \<noteq> 0"
    using that by (intro wp_conseq [OF configure_post]) (auto simp: on_result_def split: sum.splits)
  then show ?thesis
    unfolding swd_bootstrap_identified_def
    using assms by (simp add: wp_simps wp_repair_error invalid_DPIDR_def changed_DPIDR_def)
qed

lemma attempt_post:
  assumes "unsettled c"
  shows "wp (swd_bootstrapAttempt E ctx abort)
     (on_result zeroed (\<lambda>e c. err_is e SwdErrWait \<longrightarrow> unsettled c)) (c, w)"
  unfolding swd_bootstrapAttempt_def wp_bind
  by (rule wp_readEntryIdentity)
     (auto simp: wp_simps wp_repair_error split: option.splits
       intro!: identified_post dest: unsettled_disturbed [OF assms])

lemma bootstrap_post:
  assumes "unsettled c"
  shows "wp (swd_bootstrap E ctx) (on_result zeroed (\<lambda>_ _. True)) (c, w)"
  unfolding swd_bootstrap_def
proof (rule wp_seq [OF attempt_post [OF assms]], goal_cases)
  case (1 r s)
  obtain c' w' where s: "s = (c', w')" by (cases s)
  have "unsettled (invalidateBank (c'\<lparr>sc_response := responseSimple\<rparr>))" if "unsettled c'"
    using that by (simp add: unsettled_def)
  note again = wp_seq [OF attempt_post [OF this]]
  show ?case
    using 1 unfolding s
    by (auto simp: wp_return wp_prog wp_bind [of "update _"] wp_bind [of "swd_enterSWD E ctx"]
        split: sum.splits option.splits intro!: wp_only_world [OF only_world_enterSWD] again)
qed


text \<open>A transition of ORUNDETECT that ends leaves bank zero selected.\<close>

lemma zeroed_setResponse [simp]:
  "zeroed d (setResponse b c) = zeroed d c" "zeroed d (c\<lparr>sc_response := m\<rparr>) = zeroed d c"
  by (simp_all add: zeroed_def setResponse_def)

lemma zeroed_disturbed: "zeroed d c \<Longrightarrow> disturbed c e c' \<Longrightarrow> \<not> joined_error e \<Longrightarrow> c' = c"
  by (auto simp: zeroed_def disturbed_def)

abbreviation if_done :: "('c \<Rightarrow> bool) \<Rightarrow> err + 'a \<Rightarrow> 'c \<times> 'w \<Rightarrow> bool" where
  "if_done P \<equiv> on_result (\<lambda>_. P) (\<lambda>_ _. True)"

lemma prepareOverrunWrite_post:
  "zeroed d c \<Longrightarrow> wp (swd_prepareOverrunWrite E ctx state) (if_done (zeroed d)) (c, w)"
  unfolding swd_prepareOverrunWrite_def Let_def
  by (auto simp: wp_simps wp_repair_error split: option.splits intro!: wp_writeRaw)

lemma verifyOverrunChange_post:
  "zeroed d c \<Longrightarrow> wp (swd_verifyOverrunChange E ctx enabled allowFallback) (if_done (zeroed d)) (c, w)"
  unfolding swd_verifyOverrunChange_def
  by (auto simp: wp_simps wp_repair_error split: option.splits intro!: wp_readRaw)

lemma recoverAbandonedOverrunWrite_post:
  "zeroed d c \<Longrightarrow> wp (swd_recoverAbandonedOverrunWrite E ctx) (if_done (zeroed d)) (c, w)"
  unfolding swd_recoverAbandonedOverrunWrite_def
  by (auto simp: wp_simps wp_repair_error split: option.splits intro!: wp_readRaw wp_writeRaw)

lemma resolveOverrunFault_post:
  "zeroed d c \<Longrightarrow> wp (swd_resolveOverrunFault E ctx enabled allowFallback) (if_done (zeroed d)) (c, w)"
  unfolding swd_resolveOverrunFault_def swd_clearOverrunTransitionFault_def Let_def
  by (auto simp: wp_simps wp_repair_error split: option.splits intro!: wp_readRaw wp_writeRaw)

lemma resolveOverrunBarrier_post:
  assumes "zeroed d c"
  shows "wp (swd_resolveOverrunBarrier E ctx e enabled allowFallback) (if_done (zeroed d)) (c, w)"
  unfolding swd_resolveOverrunBarrier_def
  by (auto simp: wp_simps wp_repair_error split: sum.splits
      intro!: resolveOverrunFault_post [OF assms]
        wp_conseq [OF verifyOverrunChange_post [OF assms]]
        wp_conseq [OF recoverAbandonedOverrunWrite_post [OF assms]])

lemma barrier_disturbed:
  assumes "zeroed d c" "disturbed c e c'"
  shows "wp (swd_resolveOverrunBarrier E ctx e enabled allowFallback) (if_done (zeroed d)) (c', w)"
proof (cases "joined_error e")
  case True
  then show ?thesis
    by (auto simp: joined_error_def swd_resolveOverrunBarrier_def wp_repair_error)
next
  case False
  then show ?thesis
    using assms resolveOverrunBarrier_post zeroed_disturbed by metis
qed

lemma settle_post:
  "zeroed d c \<Longrightarrow>
   wp (swd_settle_attempts n E ctx enabled allowFallback) (if_done (zeroed d)) (c, w)"
proof (induction n arbitrary: w)
  case 0
  show ?case by (simp add: wp_repair_error)
next
  case (Suc n)
  show ?case
    unfolding swd_settle_attempts.simps wp_simps
  proof (rule wp_readRaw, goal_cases)
    case (1 v e c' w')
    have "c' = c" if "e = Some ErrWait"
      using zeroed_disturbed [OF Suc.prems 1] that by simp
    then show ?case
      using Suc barrier_disturbed [OF Suc.prems 1] by (auto simp: wp_simps)
  qed
qed

lemma change_post:
  "zeroed d c \<Longrightarrow>
   wp (swd_change_attempts n E ctx state enabled allowFallback) (if_done (zeroed d)) (c, w)"
proof (induction n arbitrary: c w state enabled)
  case 0
  show ?case by (simp add: wp_repair_error)
next
  case (Suc n)
  have settled: "wp (case x of Settled b \<Rightarrow> ret (Inr b)
      | Retry s \<Rightarrow> swd_change_attempts n E ctx s enabled allowFallback) (if_done (zeroed d)) (c, w)"
    if "zeroed d c" for x c w enabled
    using Suc.IH that by (auto simp: wp_return split: settled.splits)
  show ?case
    unfolding swd_change_attempts.simps swd_settleOverrunWrite_def
    by (rule wp_seq [OF prepareOverrunWrite_post [OF Suc.prems]])
       (auto simp: wp_return wp_bind [of "swd_writeRaw _ _ _ _"] wp_repair_error
         split: sum.splits option.splits intro!: wp_writeRaw wp_seq [OF settle_post] settled simp del: swd_settle_attempts.simps)
qed


section \<open>Connect\<close>

lemma unsettled_prepare: "unsettled (invalidateBank (c\<lparr>sc_state := connectionRepair, sc_response := m\<rparr>))"
  by (simp add: unsettled_def)

lemma swd_mid_prepare:
  "swd_inv c \<Longrightarrow> swd_mid c (invalidateBank (c\<lparr>sc_state := connectionRepair, sc_response := m\<rparr>))"
  by (auto simp: swd_inv_def swd_mid_def swd_idle_def split: if_splits)

abbreviation if_prepared :: "err + uint32 \<times> 'a \<Rightarrow> 'w swd_conn \<times> 'v \<Rightarrow> bool" where
  "if_prepared \<equiv> on_result (\<lambda>p. zeroed (fst p)) (\<lambda>_ _. True)"

lemma prepareConnection_post:
  assumes "swd_inv c"
  shows "wp (swd_prepareConnection E ctx)
     (\<lambda>r s. swd_mid c (fst s) \<and> if_prepared r s) (c, w)"
proof -
  let ?c = "invalidateBank (c\<lparr>sc_state := connectionRepair, sc_response := responseSimple\<rparr>)"
  have mid: "swd_mid c ?c" by (rule swd_mid_prepare [OF assms])
  have boot: "wp (swd_bootstrap E ctx) (\<lambda>r s. swd_mid c (fst s) \<and> on_result zeroed (\<lambda>_ _. True) r s) (?c, w')"
    for w'
    by (intro wp_conj bootstrap_post unsettled_prepare keeps_wp [OF mid.keeps_bootstrap mid])
  have read: "wp (swd_readRaw E ctx 4) (\<lambda>r. wp (case r of (_, Some x) \<Rightarrow> repair_error (f x)
       | (state, None) \<Rightarrow> ret (Inr (d, state)))
     (\<lambda>r s. swd_mid c (fst s) \<and> if_prepared r s)) (c', w')"
    if "swd_mid c c'" "zeroed d c'" for c' w' d f
    using that
    by (intro wp_readRaw)
       (auto simp: wp_simps wp_repair_error split: option.splits
         intro: mid.stable_repair dest: mid.stable_disturbed)
  show ?thesis
    unfolding swd_prepareConnection_def wp_bind [of "update _"] wp_prog wp_bind [of "swd_enterSWD E ctx"]
    using mid
    by (intro wp_only_world [OF only_world_enterSWD])
       (auto simp: wp_return wp_bind [of "swd_readRaw _ _ _"] split: option.splits sum.splits
         intro!: wp_seq [OF boot] read)
qed


definition connected :: "uint32 \<Rightarrow> 'w swd_conn \<Rightarrow> bool" where
  "connected d c \<longleftrightarrow> sc_state c = connectionReady \<and> sc_originalKnown c \<and> sc_identityKnown c \<and>
     sc_identity c = d \<and> d AND 1 \<noteq> 0 \<and> sc_bank c = bank_zero \<and> \<not> sc_selectPending c"

lemma connected_ready:
  assumes "swd_mid c c'" "zeroed d c'" "sc_originalKnown c'"
  shows "connected d (c'\<lparr>sc_state := connectionReady\<rparr>)" "swd_mid c (c'\<lparr>sc_state := connectionReady\<rparr>)"
  using assms by (auto simp: connected_def zeroed_def swd_mid_def)

lemma acquire:
  assumes "swd_mid c0 c" "zeroed d c"
  shows "swd_mid c0 (swd_acquire b c)" "swd_mid (swd_acquire b c) (swd_acquire b c)"
    "zeroed d (swd_acquire b c)" "sc_originalKnown (swd_acquire b c)"
  using assms by (auto simp: swd_acquire_def swd_mid_def zeroed_def)

lemma establish_response_post:
  assumes "swd_mid c c" "zeroed d c"
  shows "wp (swd_establish_response E ctx state)
    (on_error (\<lambda>c'. swd_mid c c' \<and> zeroed d c') (swd_mid c)) (c, w)"
proof -
  have "wp (swd_changeOverrun E ctx state True True)
      (\<lambda>r s. swd_mid c (fst s) \<and> if_done (zeroed d) r s) (c, w)"
    unfolding swd_changeOverrun_def
    by (intro wp_conj change_post assms keeps_wp [OF mid.keeps_change_attempts])
  then show ?thesis
    unfolding swd_establish_response_def
    using assms mid.stable_response [OF assms(1)]
    by (auto simp: wp_prog wp_return wp_bind [of "update _"] split: sum.splits intro!: wp_seq)
qed

definition established :: "'w swd_conn \<Rightarrow> uint32 \<times> go_error \<Rightarrow> 'w swd_conn \<times> 'v \<Rightarrow> bool" where
  "established c r = on_error (\<lambda>c'. swd_mid c c' \<and> connected (fst r) c') (swd_mid c) (snd r)"

lemma establish_post:
  assumes "swd_inv c"
  shows "wp (swd_establish E ctx) (established c) (c, w)"
  unfolding swd_establish_def
proof (rule wp_seq [OF prepareConnection_post [OF assms]], goal_cases)
  case (1 r s)
  obtain c1 w1 where s: "s = (c1, w1)" by (cases s)
  show ?case
  proof (cases r)
    case (Inl x)
    then show ?thesis using 1 s by (simp add: wp_simps established_def)
  next
    case (Inr p)
    obtain d st where p: "p = (d, st)" by (cases p)
    have "swd_mid c c1" "zeroed d c1" using 1 Inr p s by simp_all
    note c = acquire [OF this, of "st AND overrunDetect \<noteq> 0"]
    have "connected d (c'\<lparr>sc_state := connectionReady\<rparr>)" "swd_mid c (c'\<lparr>sc_state := connectionReady\<rparr>)"
      if "swd_mid (swd_acquire (st AND overrunDetect \<noteq> 0) c1) c'" "zeroed d c'" for c'
      using connected_ready [OF swd_mid_trans [OF c(1) that(1)] that(2)] that(1) c(4)
      by (auto simp: swd_mid_def)
    then show ?thesis
      unfolding Inr p s
      using swd_mid_trans [OF c(1)]
      by (auto simp: wp_bind [of "update _"] wp_prog wp_return established_def split: option.splits
          intro!: wp_seq [OF establish_response_post [OF c(2,3)]])
  qed
qed

lemma cleanupFailedConnect_post:
  assumes "swd_mid c c1" "sc_wire c \<noteq> None"
  shows "wp (swd_cleanupFailedConnect E (Some x) timeout) (on_error (\<lambda>_. False) (ending c)) (c1, w)"
proof -
  have *: "sc_wire c1 \<noteq> None" "sc_originalKnown c1 \<Longrightarrow> sc_state c1 \<noteq> connectionIdle"
    using assms by (auto simp: swd_mid_def)
  have tail: "wp (case e of None \<Rightarrow> ret (Some x) | Some y \<Rightarrow> ret (errors_Join [Some x, Some (f y)]))
      (on_error (\<lambda>_. False) (ending c)) s" if "on_error released (ending c1) e s" for e f s
    using that
    by (cases e) (auto simp: wp_return errors_Join_def
        intro: ending_released ending_trans [OF assms(1)])
  show ?thesis
    unfolding swd_cleanupFailedConnect_def
    using *
    by (auto simp: wp_return wp_prog wp_bind [of "update _"] wp_bind [of "fetch _"]
        wp_bind [of "outside _"] ending_released
        intro!: wp_seq [OF Release_post [OF swd_mid_refl [OF assms(1)]]] tail)
qed

lemma Connect_post:
  assumes "swd_inv c"
  shows "wp (swd_Connect E ctx options)
     (\<lambda>r. on_error (\<lambda>c'. connected (fst r) c' \<and> ending c c') (ending c) (snd r)) (c, w)"
proof -
  have "ending c c"
    using assms swd_mid_start [OF assms] by (simp add: ending_def)
  have tail: "wp (do {
        e1 \<leftarrow> swd_completionError E ctx (snd r);
        e2 \<leftarrow> swd_cleanupFailedConnect E e1 timeout;
        ret (fst r, e2) })
      (\<lambda>r. on_error (\<lambda>c'. connected (fst r) c' \<and> ending c c') (ending c) (snd r)) s"
    if "established c r s" "sc_wire c \<noteq> None" for r s timeout
  proof (cases s)
    case (Pair c1 w1)
    have "wp (swd_completionError E ctx (snd r))
        (on_error (\<lambda>c'. swd_mid c c' \<and> connected (fst r) c') (swd_mid c)) (c1, w1)"
      by (rule completionError_post) (use that Pair in \<open>auto simp: established_def\<close>)
    then show ?thesis
      unfolding Pair
    proof (rule wp_seq, goal_cases)
      case (1 e1 s1)
      obtain c2 w2 where s1: "s1 = (c2, w2)" by (cases s1)
      show ?case
      proof (cases e1)
        case None
        then show ?thesis
          using 1 that(2) unfolding s1
          by (auto simp: wp_simps swd_cleanupFailedConnect_def connected_def intro!: ending_mid)
      next
        case (Some x)
        then have "swd_mid c c2" using 1 s1 by simp
        from cleanupFailedConnect_post [OF this that(2)] show ?thesis
          unfolding s1 Some by (rule wp_seq) (auto simp: wp_return on_error_def split: if_splits)
      qed
    qed
  qed
  show ?thesis
    unfolding swd_Connect_def Let_def
    using \<open>ending c c\<close>
    by (auto simp: wp_return wp_if wp_case wp_prog wp_bind [of "fetch _"] wp_bind [of "outside _"]
        split: option.splits prod.splits
        intro!: wp_seq [OF establish_post [OF assms]] tail)
qed

section \<open>Register operations keep the invariant\<close>

lemma swd_inv_requireRepair: "swd_inv c \<Longrightarrow> swd_inv (requireRepair c)"
  by (auto simp: swd_inv_def requireRepair_def)

lemma swd_inv_disturbed: "swd_inv c \<Longrightarrow> disturbed c e c' \<Longrightarrow> swd_inv c'"
  by (auto simp: disturbed_def swd_inv_requireRepair)

lemma swd_inv_bank:
  "swd_inv c \<Longrightarrow> sc_state c \<noteq> connectionIdle \<Longrightarrow> swd_inv (confirmBank c)"
  "swd_inv c \<Longrightarrow> sc_state c \<noteq> connectionIdle \<Longrightarrow> swd_inv (invalidateBank c)"
  by (auto simp: swd_inv_def confirmBank_def bank_wf_def)

lemma observePendingSelection_cases:
  "observePendingSelection req result e c \<in> {c, confirmBank c, invalidateBank c}"
  by (simp add: observePendingSelection_def resolveBankZeroCTRLSTAT_def)

lemma swd_inv_select:
  "swd_inv c \<Longrightarrow> sc_state c \<noteq> connectionIdle \<Longrightarrow>
   swd_inv (c\<lparr>sc_priorBank := p, sc_bank := \<lparr>bs_bank = b, bs_valid = True\<rparr>, sc_selectPending := True\<rparr>)"
  by (simp add: swd_inv_def bank_wf_def)

lemma observePendingSelection_inv:
  assumes "swd_inv c" "sc_state c \<noteq> connectionIdle"
  shows "swd_inv (observePendingSelection req result e c)"
    "sc_state (observePendingSelection req result e c) = sc_state c"
  using observePendingSelection_cases [of req result e c] swd_inv_bank [OF assms] assms(1)
  by (auto simp: confirmBank_def)

lemma observeTransfer_inv:
  assumes "swd_inv c" "sc_state c \<noteq> connectionIdle"
  shows "swd_inv (observeTransfer req result data e c)"
proof -
  define c1 where "c1 = (if sc_selectPending c then observePendingSelection req result e c else c)"
  have "swd_inv c1" "sc_state c1 \<noteq> connectionIdle"
    unfolding c1_def using assms observePendingSelection_inv [OF assms] by simp_all
  then show ?thesis
    unfolding observeTransfer_def Let_def c1_def [symmetric]
    using swd_inv_requireRepair [OF assms(1)] swd_inv_select [of c1 "ucast (data AND 0x0F)" "sc_bank c1"]
    by simp
qed

lemma requireRepair_state: "sc_state c \<noteq> connectionIdle \<Longrightarrow> disturbed c e c' \<Longrightarrow> sc_state c' \<noteq> connectionIdle"
  by (auto simp: disturbed_def)

lemma transfer_inv:
  assumes "swd_inv c"
  shows "wp (swd_transfer E ctx req data) (\<lambda>_ s. swd_inv (fst s)) (c, w)"
proof (cases "sc_state c = connectionReady")
  case True
  have "wp (swd_executeFrame E cctx req data) (\<lambda>f. wp (do {
          update (observeTransfer req (fst f) data (snd f));
          e1 \<leftarrow> swd_completionError E ctx (snd f);
          ret (fst f, e1) }) (\<lambda>_ s. swd_inv (fst s))) (c, w')" for cctx w'
  proof (rule wp_executeFrame, goal_cases)
    case (1 r c' w')
    have "swd_inv (observeTransfer req (fst r) data (snd r) c')"
      by (rule observeTransfer_inv [OF swd_inv_disturbed [OF assms 1] requireRepair_state [OF _ 1]])
         (simp add: True)
    then show ?case
      by (simp add: wp_simps wp_only_world [OF only_world_completionError])
  qed
  then show ?thesis
    unfolding swd_transfer_def
    using assms True
    by (auto simp: wp_return wp_if wp_case wp_prog wp_bind [of "fetch _"] wp_bind [of "outside _"]
        wp_bind [of "swd_completionContext _ _"] wp_bind [of "swd_executeFrame _ _ _ _"]
        split: option.splits sum.splits prod.splits
        intro!: wp_only_world [OF only_world_completionContext])
next
  case False
  then show ?thesis
    unfolding swd_transfer_def using assms by (simp add: wp_simps)
qed

lemma register_inv:
  assumes "swd_inv c"
  shows "wp (swd_read E ctx ap addr) (\<lambda>_ s. swd_inv (fst s)) (c, w)"
    "wp (swd_write E ctx ap addr data) (\<lambda>_ s. swd_inv (fst s)) (c, w)"
  unfolding swd_read_def swd_write_def
  using assms
  by (auto simp: wp_return split: sum.splits intro!: transfer_inv wp_seq [OF transfer_inv])

lemma entry_inv:
  assumes "swd_inv c"
  shows "wp (swd_LineReset E ctx) (\<lambda>_ s. swd_inv (fst s)) (c, w)"
    "wp (swd_JTAGToSWD E ctx) (\<lambda>_ s. swd_inv (fst s)) (c, w)"
  unfolding swd_LineReset_def swd_JTAGToSWD_def
  using swd_inv_requireRepair [OF assms]
  by (auto simp: wp_bind wp_prog wp_return intro!: wp_only_world [OF only_world_exchange]
      wp_only_world [OF only_world_enterSWD])

lemma Connect_inv:
  assumes "swd_inv c"
  shows "wp (swd_Connect E ctx options) (\<lambda>_ s. swd_inv (fst s)) (c, w)"
  by (rule wp_conseq [OF Connect_post [OF assms]]) (auto simp: on_error_def ending_def split: if_splits)

lemma Release_inv:
  assumes "swd_inv c"
  shows "wp (swd_Release E ctx) (\<lambda>_ s. swd_inv (fst s)) (c, w)"
proof (cases "sc_state c = connectionIdle")
  case True
  then show ?thesis using assms by (simp add: swd_Release_def wp_simps)
next
  case False
  then have "sc_originalKnown c" "sc_wire c \<noteq> None" using assms by (simp_all add: swd_inv_def)
  then show ?thesis
    by (intro wp_conseq [OF Release_post [OF swd_mid_start [OF assms]]])
       (auto simp: on_error_def ending_def released_def split: if_splits)
qed

lemma swd_inv_timeout: "swd_inv (c\<lparr>sc_completionTimeout := d\<rparr>) = swd_inv c"
  by (simp add: swd_inv_def swd_idle_def bank_wf_def)

lemma swd_inv_options:
  "swd_inv c \<Longrightarrow> swd_inv (fold (\<lambda>option c. if opt_completionSet option
      then c\<lparr>sc_completionTimeout := opt_completionTimeout option\<rparr> else c) options c)"
  by (induction options arbitrary: c) (simp_all add: swd_inv_timeout)

lemma swd_New_inv: "swd_inv (swd_New W options)"
  unfolding swd_New_def
  by (rule swd_inv_options) (simp add: swd_inv_def swd_idle_def bank_wf_def)

section \<open>What Connect and Release promise\<close>

text \<open>
  C18: a successful \<open>Connect\<close> returns a DPIDR with its constant bit set, records it, leaves the
  connection ready with DP bank zero selected and settled, and owes a \<open>Release\<close>. A failed one leaves
  the connection idle with nothing to release, or not ready to be forgotten. In both cases a setting and
  an identity acquired by an earlier \<open>Connect\<close> are kept until they are released.
\<close>

theorem swd_Connect_outcome:
  assumes "swd_inv c"
  shows "case run_state (swd_Connect E ctx options) (c, w) of ((dpidr, e), (c', w')) \<Rightarrow>
     (if e = None
      then sc_state c' = connectionReady \<and> swd_CleanupPending c' \<and> sc_identity c' = dpidr \<and>
        dpidr AND 1 \<noteq> 0 \<and> sc_bank c' = bank_zero \<and> \<not> sc_selectPending c'
      else swd_CleanupPending c' = (sc_state c' \<noteq> connectionIdle)) \<and>
     (if swd_CleanupPending c \<and> swd_CleanupPending c'
      then sc_identity c' = sc_identity c \<and> sc_originalOverrun c' = sc_originalOverrun c else True)"
proof -
  obtain d e c' w' where r: "run_state (swd_Connect E ctx options) (c, w) = ((d, e), (c', w'))"
    by (metis surj_pair)
  have post: "if e = None then connected d c' \<and> ending c c' else ending c c'"
    using wp_run [OF Connect_post [OF assms] r] by (cases e) simp_all
  then have "ending c c'" by (simp split: if_splits)
  then have "swd_CleanupPending c' = (sc_state c' \<noteq> connectionIdle)"
    by (auto simp: ending_def swd_inv_def swd_idle_def swd_CleanupPending_def split: if_splits)
  moreover have "sc_identity c' = sc_identity c \<and> sc_originalOverrun c' = sc_originalOverrun c"
    if "swd_CleanupPending c" "swd_CleanupPending c'"
    using \<open>ending c c'\<close> that by (auto simp: ending_def swd_mid_def swd_idle_def swd_CleanupPending_def)
  ultimately show ?thesis
    using post r by (auto simp: connected_def swd_CleanupPending_def split: if_splits)
qed


section \<open>Two concrete connections\<close>

text \<open>
  A target that acknowledges every request and answers every read with one, and a wire that fails
  every exchange.
\<close>

definition obliging_reply :: "nat \<Rightarrow> byte list" where
  "obliging_reply n =
     (if n = 12 then [0, 2] else if n = 42 then [1, 0, 0, 0, 1, 0] else replicate (bytes_for n) 0)"

definition obliging_wire :: "unit swd_wire" where
  "obliging_wire = \<lparr>SWDIO = (\<lambda>ctx direction output n w. ((obliging_reply n, None), w)),
     swd_MaxTransferBits = None\<rparr>"

definition fresh_conn :: "unit swd_conn" where
  "fresh_conn = swd_New (Some obliging_wire) []"

definition obliged :: "unit swd_conn \<Rightarrow> bool" where
  "obliged c \<longleftrightarrow> sc_wire c = Some obliging_wire \<and> sc_completionTimeout c = 1000000000 \<and>
     sc_turnaround c = 1 \<and> sc_idleCycles c = 8 \<and> sc_response c = responseSimple"

lemma length_obliging_reply [simp]: "length (obliging_reply n) = bytes_for n"
  by (simp add: obliging_reply_def bytes_for_def)

lemma obliging_exchange:
  assumes "obliged c" "ctx_status still_env ctx () = None"
  shows "run_state (swd_exchange still_env ctx seq) (c, ()) = (Inr (obliging_reply (seq_bits seq)), (c, ()))"
  using assms
  by (simp add: swd_exchange_def bind_def obliged_def swd_validateCompletion_def ctx_Err_def Let_def
      obliging_wire_def)

lemma obliging_bits:
  "readACK (obliging_reply 12) 9 = 1" "ackError 1 = None"
  "extractUint32At (obliging_reply 42) 0 = 1" "bitAt (obliging_reply 42) 32" "parity32 1"
  by code_simp+

lemma obliging_execute:
  assumes "obliged c" "ctx_status still_env ctx () = None"
  shows "run_state (swd_execute still_env ctx req data) (c, ()) = ((if req_read req then 1 else 0, None), (c, ()))"
proof -
  let ?cctx = "WithDeadline (WithoutCancel ctx) 1000000000"
  have live: "ctx_status still_env ?cctx () = None"
    by (simp add: still_env_def)
  have "run_state (swd_completionContext still_env ctx) (c, ()) = (Inr ?cctx, (c, ()))"
    using assms
    by (simp add: swd_completionContext_def bind_def ctx_Err_def Let_def swd_validateCompletion_def obliged_def
        WithTimeout_def) (simp add: still_env_def)
  moreover have "run_state (swd_transferFrame still_env ?cctx req data) (c, ()) =
      ((if req_read req then 1 else 0, None), (c, ()))"
    using assms(1) obliging_bits
    by (simp add: swd_transferFrame_def bind_def obliging_exchange [OF assms(1) live] swd_readData_def
        swd_writeData_def obliged_def seq_empty_of seq_ops_of seq_append_of Let_def)
  ultimately show ?thesis
    using assms(1) by (simp add: swd_execute_def swd_executeFrame_def bind_def obliged_def)
qed

lemma obliging_raw:
  assumes "obliged c"
  shows "addr \<in> {0, 4, 8, 12} \<Longrightarrow> run_state (swd_readRaw still_env Background addr) (c, ()) = ((1, None), (c, ()))"
    "addr \<in> {0, 4, 8, 12} \<Longrightarrow> run_state (swd_writeRaw still_env Background addr data) (c, ()) = (None, (c, ()))"
  using assms
  by (auto simp: swd_readRaw_def swd_writeRaw_def newRequest_def bind_def obliging_execute)

lemma obliging_enter:
  "obliged c \<Longrightarrow> run_state (swd_enterSWD still_env Background) (c, ()) = (None, (c, ()))"
  by (simp add: swd_enterSWD_def bind_def obliging_exchange result_error_def)

lemma obliged_simps:
  "obliged fresh_conn"
  "obliged (invalidateBank c) = obliged c"
  "obliged (c\<lparr>sc_state := st\<rparr>) = obliged c"
  "obliged c \<Longrightarrow> obliged (c\<lparr>sc_state := st, sc_response := responseSimple\<rparr>)"
  "obliged (c\<lparr>sc_identity := d, sc_identityKnown := b\<rparr>) = obliged c"
  "obliged (c\<lparr>sc_bank := bank\<rparr>) = obliged c"
  by (simp_all add: obliged_def fresh_conn_def swd_New_def bank_defs)

lemma obliging_bootstrap:
  assumes "obliged c" "\<not> sc_identityKnown c"
  shows "run_state (swd_bootstrap still_env Background) (c, ()) =
     (Inr 1, (c\<lparr>sc_identity := 1, sc_identityKnown := True, sc_bank := bank_zero\<rparr>, ()))"
  using assms
  by (simp add: swd_bootstrap_def swd_bootstrapAttempt_def swd_readEntryIdentity_def
      swd_bootstrap_identified_def swd_bootstrap_configure_def bind_def obliging_raw obliged_simps)

lemma obliging_Connect:
  "fst (run_state (swd_Connect still_env Background []) (fresh_conn, ())) = (1, None)"
proof -
  let ?c = "invalidateBank (fresh_conn\<lparr>sc_state := connectionRepair, sc_response := responseSimple\<rparr>)"
  have c: "obliged ?c" "\<not> sc_identityKnown ?c"
    by (simp_all add: obliged_simps) (simp add: fresh_conn_def swd_New_def)
  let ?c' = "?c\<lparr>sc_identity := 1, sc_identityKnown := True, sc_bank := bank_zero\<rparr>"
  have c': "obliged ?c'" using c(1) by (simp add: obliged_def)
  have "run_state (swd_prepareConnection still_env Background) (fresh_conn, ()) = (Inr (1, 1), (?c', ()))"
    unfolding swd_prepareConnection_def
    by (simp add: bind_def obliging_enter [OF c(1)] obliging_bootstrap [OF c] obliging_raw [OF c'])
  then have "fst (run_state (swd_establish still_env Background) (fresh_conn, ())) = (1, None)"
    by (simp add: swd_establish_def bind_def swd_establish_response_def overrunDetect_def)
  moreover have "sc_wire fresh_conn \<noteq> None"
    by (simp add: fresh_conn_def swd_New_def)
  ultimately show ?thesis
    by (auto simp: swd_Connect_def bind_def swd_completionError_def swd_cleanupFailedConnect_def
        join_cause_def ctx_Err_def split: prod.splits)
qed

theorem swd_Connect_outcome_witness:
  "case run_state (swd_Connect still_env Background []) (fresh_conn, ()) of ((dpidr, e), (c', w')) \<Rightarrow>
     dpidr = 1 \<and> e = None \<and> sc_state c' = connectionReady \<and> swd_CleanupPending c' \<and>
     sc_identity c' = 1 \<and> sc_bank c' = bank_zero \<and> \<not> sc_selectPending c'"
proof -
  have "swd_inv fresh_conn" by (simp add: fresh_conn_def swd_New_inv)
  from swd_Connect_outcome [OF this, of still_env Background "[]" "()"] show ?thesis
    using obliging_Connect by (auto split: prod.splits)
qed




end
