(* ===== verification/Swd_Traffic.thy ===== *)
theory Swd_Traffic
  imports Swd_Invariant
begin

text \<open>
  What the operations of an SWD connection put on the wire: how many exchanges a call of
  \<open>src/swd/transfer.go\<close> or \<open>src/swd/lifecycle.go\<close> makes, and that an error matching
  \<open>ErrNotExecuted\<close> means that it made none.
\<close>

section \<open>Counting exchanges\<close>

text \<open>
  Exchanges counted by a meter on the world: \<open>costs n m\<close> says that \<open>m\<close> makes at most \<open>n\<close>.
\<close>

definition metered :: "'w go_env \<Rightarrow> 'w swd_wire \<Rightarrow> ('w \<Rightarrow> nat) \<Rightarrow> bool" where
  "metered E W \<mu> \<longleftrightarrow> (\<forall>w. \<mu> (poll_step E w) = \<mu> w) \<and>
     (\<forall>ctx d out n w. \<mu> (snd (SWDIO W ctx d out n w)) \<le> \<mu> w + 1)"

definition costs :: "'w swd_wire \<Rightarrow> ('w \<Rightarrow> nat) \<Rightarrow> nat \<Rightarrow> ('w, 'a) swd \<Rightarrow> bool" where
  "costs W \<mu> n m \<longleftrightarrow> (\<forall>c w. sc_wire c = Some W \<longrightarrow>
     wp m (\<lambda>_ s. sc_wire (fst s) = Some W \<and> \<mu> (snd s) \<le> \<mu> w + n) (c, w))"

named_theorems costs_intros \<open>bounds on the exchanges of a program\<close>

lemma costsD:
  "costs W \<mu> n m \<Longrightarrow> sc_wire c = Some W \<Longrightarrow>
   wp m (\<lambda>_ s. sc_wire (fst s) = Some W \<and> \<mu> (snd s) \<le> \<mu> w + n) (c, w)"
  by (simp add: costs_def)

lemma costs_run:
  "costs W \<mu> n m \<Longrightarrow> sc_wire c = Some W \<Longrightarrow> \<mu> (snd (snd (run_state m (c, w)))) \<le> \<mu> w + n"
  using costsD [of W \<mu> n m c w] by (simp add: wp_def case_prod_beta)

lemma costs_le: "costs W \<mu> k m \<Longrightarrow> k \<le> n \<Longrightarrow> costs W \<mu> n m"
  unfolding costs_def by (fast intro: wp_conseq le_trans add_left_mono)

lemma costs_bind:
  assumes "costs W \<mu> k m" "k \<le> n" "\<And>a. costs W \<mu> (n - k) (f a)"
  shows "costs W \<mu> n (State_Monad.bind m f)"
  unfolding costs_def
proof safe
  fix c :: "'a swd_conn" and w assume "sc_wire c = Some W"
  then have "wp m (\<lambda>_ s. sc_wire (fst s) = Some W \<and> \<mu> (snd s) \<le> \<mu> w + k) (c, w)"
    using assms(1) by (simp add: costs_def)
  then show "wp (State_Monad.bind m f) (\<lambda>_ s. sc_wire (fst s) = Some W \<and> \<mu> (snd s) \<le> \<mu> w + n) (c, w)"
  proof (rule wp_seq, goal_cases)
    case (1 a s)
    then have "wp (f a) (\<lambda>_ s'. sc_wire (fst s') = Some W \<and> \<mu> (snd s') \<le> \<mu> (snd s) + (n - k)) s"
      using assms(3) by (cases s) (simp add: costs_def)
    then show ?case
      by (rule wp_conseq) (use 1 assms(2) in auto)
  qed
qed

lemma costs_return [costs_intros]: "costs W \<mu> n (ret x)"
  by (simp add: costs_def wp_simps)

lemma costs_fetch [costs_intros]: "(\<And>a. costs W \<mu> n (g a)) \<Longrightarrow> costs W \<mu> n (State_Monad.bind (fetch f) g)"
  by (rule costs_bind [of _ _ 0]) (simp_all add: costs_def wp_simps)

lemma costs_update: "(\<And>c. sc_wire (f c) = sc_wire c) \<Longrightarrow> costs W \<mu> 0 (update f)"
  by (simp add: costs_def wp_simps)

lemma costs_update_seq [costs_intros]:
  "(\<And>c. sc_wire (f c) = sc_wire c) \<Longrightarrow> (\<And>a. costs W \<mu> n (g a)) \<Longrightarrow> costs W \<mu> n (State_Monad.bind (update f) g)"
  by (rule costs_bind [OF costs_update]) auto

lemma costs_if [costs_intros]: "costs W \<mu> n m \<Longrightarrow> costs W \<mu> n m' \<Longrightarrow> costs W \<mu> n (if b then m else m')"
  by simp

lemma costs_case [costs_intros]:
  "costs W \<mu> n m \<Longrightarrow> (\<And>a. costs W \<mu> n (f a)) \<Longrightarrow> costs W \<mu> n (case x of None \<Rightarrow> m | Some a \<Rightarrow> f a)"
  "(\<And>b. costs W \<mu> n (g b)) \<Longrightarrow> (\<And>c. costs W \<mu> n (h c)) \<Longrightarrow> costs W \<mu> n (case y of Inl b \<Rightarrow> g b | Inr c \<Rightarrow> h c)"
  "(\<And>a b. costs W \<mu> n (k a b)) \<Longrightarrow> costs W \<mu> n (case p of (a, b) \<Rightarrow> k a b)"
  "(\<And>b. costs W \<mu> n (u b)) \<Longrightarrow> (\<And>s. costs W \<mu> n (v s)) \<Longrightarrow>
     costs W \<mu> n (case z of Settled b \<Rightarrow> u b | Retry s \<Rightarrow> v s)"
  by (simp_all split: option.splits sum.splits prod.splits settled.splits)

lemma costs_repair_error [costs_intros]: "costs W \<mu> n (repair_error e)"
  by (simp add: costs_def wp_repair_error)

lemma poll_free: "metered E W \<mu> \<Longrightarrow> ctx_Err E ctx w = (e, w') \<Longrightarrow> \<mu> w' = \<mu> w"
  using ctx_Err_world [of E ctx w e w'] by (auto simp: metered_def)

lemma costs_poll [costs_intros]:
  "metered E W \<mu> \<Longrightarrow> (\<And>a. costs W \<mu> n (g a)) \<Longrightarrow>
   costs W \<mu> n (State_Monad.bind (outside (ctx_Err E ctx)) g)"
  by (rule costs_bind [of _ _ 0]) (auto simp: costs_def wp_simps poll_free split: prod.splits)

lemma costs_completionError: "metered E W \<mu> \<Longrightarrow> costs W \<mu> 0 (swd_completionError E ctx e)"
  by (auto simp: costs_def wp_simps swd_completionError_def metered_def dest!: join_cause_world
      split: prod.splits)

lemma costs_exchange:
  fixes E :: "'w go_env"
  assumes m: "metered E W \<mu>"
  shows "costs W \<mu> 1 (swd_exchange E ctx seq)"
  unfolding costs_def
proof safe
  fix c :: "'w swd_conn" and w assume W: "sc_wire c = Some W"
  have "\<mu> w' \<le> \<mu> v + 1" if "SWDIO W ctx d out n v = (r, w')" for d out n v r w'
    using m that by (metis metered_def snd_conv)
  then show "wp (swd_exchange E ctx seq) (\<lambda>_ s. sc_wire (fst s) = Some W \<and> \<mu> (snd s) \<le> \<mu> w + 1) (c, w)"
    using W poll_free [OF m, of ctx w] unfolding swd_exchange_def Let_def
    by (fastforce simp: wp_simps split: prod.splits option.splits)
qed

lemma costs_completionContext: "metered E W \<mu> \<Longrightarrow> costs W \<mu> 0 (swd_completionContext E ctx)"
  unfolding swd_completionContext_def
  by (intro costs_intros) (simp_all add: costs_def wp_simps)

lemma costs_transferOverrun: "metered E W \<mu> \<Longrightarrow> costs W \<mu> 1 (swd_transferOverrun E ctx req data)"
  unfolding swd_transferOverrun_def
  by (intro costs_intros costs_bind [OF costs_exchange]) simp_all

lemmas costs_exchange_seq = costs_bind [OF costs_exchange]

lemma costs_data:
  assumes "metered E W \<mu>"
  shows "costs W \<mu> 1 (swd_readData E ctx)" "costs W \<mu> 1 (swd_writeData E ctx data)"
    "costs W \<mu> 1 (swd_finishFailed E ctx e)"
  unfolding swd_readData_def swd_writeData_def swd_finishFailed_def Let_def
  by (intro costs_intros costs_exchange_seq assms; simp)+

lemmas costs_data_intros =
  costs_data(1) [THEN costs_le] costs_data(2,3) [THEN costs_bind] costs_transferOverrun [THEN costs_le]

lemma costs_transferFrame: "metered E W \<mu> \<Longrightarrow> costs W \<mu> 2 (swd_transferFrame E ctx req data)"
  unfolding swd_transferFrame_def
  by (intro costs_intros costs_data_intros costs_exchange_seq) simp_all

lemma wp_transferFrame_overrun:
  "sc_response c = responseOverrun \<Longrightarrow>
   wp (swd_transferFrame E ctx req data) Q (c, w) = wp (swd_transferOverrun E ctx req data) Q (c, w)"
  by (simp add: swd_transferFrame_def wp_simps)

text \<open>The packed grammar takes one exchange where the simple one takes two, so that clearing \<open>STICKYORUN\<close>
  fits into the same bound.\<close>

lemma overrun_spent:
  assumes "metered E W \<mu>" "sc_wire c = Some W" "sc_response c = responseOverrun"
  shows "wp (swd_transferFrame E ctx req data) (\<lambda>_ s. fst s = c \<and> \<mu> (snd s) \<le> \<mu> w + 1) (c, w)"
proof -
  have "wp (swd_transferFrame E ctx req data) (\<lambda>_ s. \<mu> (snd s) \<le> \<mu> w + 1) (c, w)"
    unfolding wp_transferFrame_overrun [OF assms(3)]
    by (rule wp_conseq [OF costsD [OF costs_transferOverrun [OF assms(1)] assms(2)]]) simp
  moreover have "wp (swd_transferFrame E ctx req data) (\<lambda>_ s. fst s = c) (c, w)"
    by (rule wp_only_world [OF only_world_transferFrame]) simp
  ultimately show ?thesis using wp_conj by fastforce
qed

lemma costs_executeFrame:
  fixes E :: "'w go_env"
  assumes "metered E W \<mu>"
  shows "costs W \<mu> 2 (swd_executeFrame E ctx req data)"
  unfolding costs_def
proof safe
  fix c :: "'w swd_conn" and w assume W: "sc_wire c = Some W"
  show "wp (swd_executeFrame E ctx req data)
      (\<lambda>_ s. sc_wire (fst s) = Some W \<and> \<mu> (snd s) \<le> \<mu> w + 2) (c, w)"
  proof (cases "sc_response c = responseOverrun")
    case True
    have clear: "wp (swd_transferFrame E ctx r d) (\<lambda>_ s. fst s = c \<and> \<mu> (snd s) \<le> \<mu> w + 2) (c, w')"
      if "\<mu> w' \<le> \<mu> w + 1" for r d w'
      by (rule wp_conseq [OF overrun_spent [OF assms W True]]) (use that in auto)
    show ?thesis
      unfolding swd_executeFrame_def swd_clearOverrunAfterWAIT_def
    proof (rule wp_seq [OF overrun_spent [OF assms W True]], goal_cases)
      case (1 r s)
      obtain w' where s: "s = (c, w')" "\<mu> w' \<le> \<mu> w + 1" using 1 by (cases s) auto
      show ?case
        unfolding s
        using W s(2)
        by (auto simp: wp_simps split: prod.splits option.splits intro!: wp_conseq [OF clear [OF s(2)]])
    qed
  next
    case False
    have "wp (swd_transferFrame E ctx req data) (\<lambda>_ s. fst s = c \<and> \<mu> (snd s) \<le> \<mu> w + 2) (c, w)"
      using wp_conj [OF wp_only_world [OF only_world_transferFrame, of "\<lambda>_ s. fst s = c"]]
        costs_transferFrame [OF assms] W by (fastforce simp: costs_def intro: wp_conseq)
    then show ?thesis
      unfolding swd_executeFrame_def
      by (rule wp_seq) (use W False in \<open>auto simp: wp_simps\<close>)
  qed
qed

lemma costs_raw:
  assumes "metered E W \<mu>"
  shows "costs W \<mu> 2 (swd_readRaw E ctx addr)" "costs W \<mu> 2 (swd_writeRaw E ctx addr data)"
proof -
  have "costs W \<mu> 2 (swd_execute E ctx req d)" for req d
    unfolding swd_execute_def
    by (intro costs_intros costs_bind [OF costs_completionContext [OF assms]]
        costs_le [OF costs_executeFrame [OF assms]]) simp_all
  then show "costs W \<mu> 2 (swd_readRaw E ctx addr)" "costs W \<mu> 2 (swd_writeRaw E ctx addr data)"
    unfolding swd_readRaw_def swd_writeRaw_def
    by (auto intro!: costs_intros costs_bind [where k = 2])
qed

lemma costs_entry:
  assumes "metered E W \<mu>"
  shows "costs W \<mu> 1 (swd_enterSWD E ctx)" "costs W \<mu> 3 (swd_enterThroughDormant E ctx)"
  unfolding swd_enterSWD_def swd_enterThroughDormant_def
  by (intro costs_intros costs_exchange_seq assms; simp)+

lemmas costs_calls = costs_raw [THEN costs_bind] costs_raw [THEN costs_le] costs_entry [THEN costs_bind]

lemma costs_readEntryIdentity: "metered E W \<mu> \<Longrightarrow> costs W \<mu> 7 (swd_readEntryIdentity E ctx)"
  unfolding swd_readEntryIdentity_def
  by (intro costs_intros costs_calls) simp_all

lemma costs_bootstrapAttempt: "metered E W \<mu> \<Longrightarrow> costs W \<mu> 13 (swd_bootstrapAttempt E ctx abort)"
  unfolding swd_bootstrapAttempt_def swd_bootstrap_identified_def swd_bootstrap_configure_def
  by (intro costs_intros costs_calls costs_bind [OF costs_readEntryIdentity])
     (simp_all add: requireRepair_def)

lemma costs_bootstrap: "metered E W \<mu> \<Longrightarrow> costs W \<mu> 27 (swd_bootstrap E ctx)"
  unfolding swd_bootstrap_def
  by (intro costs_intros costs_calls costs_bind [OF costs_bootstrapAttempt]) simp_all

lemma costs_resolve:
  assumes "metered E W \<mu>"
  shows "costs W \<mu> 4 (swd_resolveOverrunBarrier E ctx e enabled allowFallback)"
proof -
  have "costs W \<mu> 4 (swd_verifyOverrunChange E ctx enabled allowFallback)"
    unfolding swd_verifyOverrunChange_def
    by (intro costs_intros costs_calls assms) (simp_all add: setResponse_def)
  moreover have "costs W \<mu> 4 (swd_recoverAbandonedOverrunWrite E ctx)"
    unfolding swd_recoverAbandonedOverrunWrite_def
    by (intro costs_intros costs_calls assms) simp_all
  moreover have "costs W \<mu> 4 (swd_resolveOverrunFault E ctx enabled allowFallback)"
  proof -
    have "costs W \<mu> 2 (swd_clearOverrunTransitionFault E ctx state)" for state
      unfolding swd_clearOverrunTransitionFault_def Let_def
      by (intro costs_intros costs_calls assms) simp_all
    then show ?thesis
      unfolding swd_resolveOverrunFault_def Let_def
      by (intro costs_intros costs_calls assms costs_bind [where k = 2 and m = "swd_clearOverrunTransitionFault _ _ _"])
         (simp_all add: setResponse_def)
  qed
  ultimately show ?thesis
    unfolding swd_resolveOverrunBarrier_def
    by (intro costs_intros costs_bind [where k = 4]) simp_all
qed

lemma costs_settle:
  "metered E W \<mu> \<Longrightarrow> costs W \<mu> (4 + 2 * n) (swd_settle_attempts n E ctx enabled allowFallback)"
proof (induction n)
  case 0
  show ?case by (simp add: costs_intros)
next
  case (Suc n)
  show ?case
    unfolding swd_settle_attempts.simps
    using Suc
    by (intro costs_intros costs_calls costs_le [OF costs_resolve [OF Suc.prems]]) simp_all
qed

lemma costs_prepareOverrunWrite: "metered E W \<mu> \<Longrightarrow> costs W \<mu> 2 (swd_prepareOverrunWrite E ctx state)"
  unfolding swd_prepareOverrunWrite_def Let_def
  by (intro costs_intros costs_calls) simp_all

lemma costs_change:
  "metered E W \<mu> \<Longrightarrow> costs W \<mu> (210 * n) (swd_change_attempts n E ctx state enabled allowFallback)"
proof (induction n arbitrary: state)
  case 0
  show ?case by (simp add: costs_intros)
next
  case (Suc n)
  have settle: "costs W \<mu> 206 (swd_settleOverrunWrite E ctx enabled allowFallback)"
    using costs_settle [OF Suc.prems, of "connectWaitLimit + 1"]
    by (simp only: swd_settleOverrunWrite_def) (simp add: connectWaitLimit_def)
  show ?case
    unfolding swd_change_attempts.simps
    by (intro costs_intros costs_calls costs_bind [OF costs_prepareOverrunWrite] costs_bind [OF settle]
        Suc.prems costs_le [OF Suc.IH]) simp_all
qed

lemma costs_changeOverrun: "metered E W \<mu> \<Longrightarrow> costs W \<mu> 21210 (swd_changeOverrun E ctx state enabled allowFallback)"
  using costs_change [of E W \<mu> "connectWaitLimit + 1"]
  by (simp only: swd_changeOverrun_def) (simp add: connectWaitLimit_def)

lemma costs_Release:
  assumes "metered E W \<mu>"
  shows "costs W \<mu> 21246 (swd_Release E ctx)"
proof -
  have "costs W \<mu> 30 (swd_reenterForRelease E ctx)"
    unfolding swd_reenterForRelease_def
    by (intro costs_intros costs_calls costs_bind [OF costs_bootstrap] assms) simp_all
  then have "costs W \<mu> 34 (swd_prepareRelease E ctx)"
    unfolding swd_prepareRelease_def
    by (intro costs_intros costs_calls assms
        costs_bind [where k = 30 and m = "if _ then _ else _"]) (simp_all add: costs_intros)
  moreover have "costs W \<mu> 21212 (swd_restoreOverrun E ctx)"
    unfolding swd_restoreOverrun_def Let_def
    by (intro costs_intros costs_calls costs_bind [OF costs_changeOverrun] assms) simp_all
  ultimately have "costs W \<mu> 21246 (swd_restore E ctx)"
    unfolding swd_restore_def
    by (intro costs_intros costs_bind [of W \<mu> 34 "swd_prepareRelease E ctx"]
        costs_bind [of W \<mu> 21212 "swd_restoreOverrun E ctx"]) (simp_all add: finishRelease_def)
  then show ?thesis
    unfolding swd_Release_def
    by (intro costs_intros assms costs_le [OF costs_completionError [OF assms]]
        costs_bind [of W \<mu> 21246 "swd_restore E ctx"]) simp_all
qed

lemma costs_Connect:
  assumes "metered E W \<mu>"
  shows "costs W \<mu> 42486 (swd_Connect E ctx options)"
proof -
  have "costs W \<mu> 30 (swd_prepareConnection E ctx)"
    unfolding swd_prepareConnection_def
    by (intro costs_intros costs_calls costs_bind [OF costs_bootstrap] assms) simp_all
  moreover have "costs W \<mu> 21210 (swd_establish_response E ctx state)" for state
    unfolding swd_establish_response_def
    by (intro costs_intros costs_bind [OF costs_changeOverrun] assms) simp_all
  ultimately have establish: "costs W \<mu> 21240 (swd_establish E ctx)"
    unfolding swd_establish_def
    by (intro costs_intros costs_bind [of W \<mu> 30 "swd_prepareConnection E ctx"]
        costs_bind [of W \<mu> 21210 "swd_establish_response E ctx _"]) (simp_all add: swd_acquire_def)
  have cleanup: "costs W \<mu> 21246 (swd_cleanupFailedConnect E e timeout)" for e timeout
    unfolding swd_cleanupFailedConnect_def
    by (intro costs_intros costs_bind [OF costs_Release [OF assms]]
        costs_bind [where k = 0 and m = "outside (\<lambda>w. (WithTimeout _ _ _ w, w))"])
       (simp_all add: finishRelease_def costs_def wp_simps)
  show ?thesis
    unfolding swd_Connect_def Let_def
    by (intro costs_intros assms costs_bind [OF establish] costs_bind [OF cleanup]
        costs_bind [OF costs_completionError [OF assms]]) simp_all
qed

lemma observeTransfer_wire [simp]: "sc_wire (observeTransfer req result data e c) = sc_wire c"
  by (simp add: observeTransfer_def Let_def observePendingSelection_def resolveBankZeroCTRLSTAT_def
      confirmBank_def)

lemma costs_transfer: "metered E W \<mu> \<Longrightarrow> costs W \<mu> 2 (swd_transfer E ctx req data)"
  unfolding swd_transfer_def
  by (intro costs_intros costs_bind [OF costs_completionContext] costs_bind [OF costs_executeFrame]
      costs_bind [OF costs_completionError]) simp_all

section \<open>Operations that were not executed\<close>

text \<open>A wire and callers that do not themselves report \<open>ErrNotExecuted\<close>.\<close>

definition honest :: "'w go_env \<Rightarrow> 'w swd_wire \<Rightarrow> bool" where
  "honest E W \<longleftrightarrow> (\<forall>i w. caller_err E i w \<noteq> Some SwdErrNotExecuted) \<and>
     (\<forall>ctx d out n w. \<not> errors_Is (snd (fst (SWDIO W ctx d out n w))) SwdErrNotExecuted)"

lemma honest_ctx: "honest E W \<Longrightarrow> ctx_Err E ctx w = (Some x, w') \<Longrightarrow> x \<noteq> SwdErrNotExecuted"
proof -
  assume h: "honest E W" and "ctx_Err E ctx w = (Some x, w')"
  have "ctx_status E ctx v \<noteq> Some SwdErrNotExecuted" for v
    using h by (induction ctx) (auto simp: honest_def split: option.splits)
  then show ?thesis using \<open>ctx_Err E ctx w = (Some x, w')\<close> by (auto simp: ctx_Err_def Let_def)
qed

definition sent :: "go_error \<Rightarrow> bool" where
  "sent e \<longleftrightarrow> \<not> errors_Is e SwdErrNotExecuted"

lemma sent_simps [simp]:
  "sent None" "sent (Some (Sentinel t)) = (t \<noteq> SwdErrNotExecuted)" "sent (Some (New m xs))"
  "sent (errors_Join [e, f]) = (sent e \<and> sent f)" "\<not> sent (Some (notExecuted x))"
  "sent (Some (swd_clear_failed x)) = sent (Some x)"
  by (auto simp: sent_def errors_Is_Join notExecuted_def swd_clear_failed_def)

lemma sent_join_cause:
  "honest E W \<Longrightarrow> join_cause E ctx e w = (e', w') \<Longrightarrow> sent e \<Longrightarrow> sent e'"
  by (auto simp: join_cause_def dest: honest_ctx split: prod.splits option.splits if_splits)

lemma exchange_sent:
  assumes "honest E W" "sc_wire c = Some W"
  shows "wp (swd_exchange E ctx seq) (\<lambda>r s. sent (result_error r) \<and> fst s = c) (c, w)"
proof -
  have "sent e" if "SWDIO W ctx d out n v = ((b, e), v')" for d out n v b e v'
    using assms(1) that by (metis fst_conv snd_conv honest_def sent_def)
  then show ?thesis
    unfolding swd_exchange_def Let_def
    using assms(2) honest_ctx [OF assms(1)]
    by (auto simp: wp_simps result_error_def swd_validateCompletion_def swd_bad_completion_def
        swd_short_response_def split: prod.splits option.splits) fastforce?
qed

lemma result_error_simps [simp]: "result_error (Inl e) = Some e" "result_error (Inr a) = None"
  by (simp_all add: result_error_def)

lemma ackError_sent: "ackError a = Some e \<Longrightarrow> sent (Some e)"
  by (auto simp: ackError_def split: if_splits)

lemma data_sent:
  fixes E :: "'w go_env"
  assumes "honest E W" "sc_wire c = Some W"
  shows "wp (swd_readData E ctx) (\<lambda>r s. sent (snd r) \<and> fst s = c) (c, w)"
    "wp (swd_writeData E ctx data) (\<lambda>e s. sent e \<and> fst s = c) (c, w)"
    "sent (Some x) \<Longrightarrow> wp (swd_finishFailed E ctx x) (\<lambda>e s. sent e \<and> fst s = c) (c, w)"
    "wp (swd_transferOverrun E ctx req data) (\<lambda>r s. sent (snd r) \<and> fst s = c) (c, w)"
  unfolding swd_readData_def swd_writeData_def swd_finishFailed_def swd_transferOverrun_def Let_def
    wp_bind [of "fetch _"] wp_prog
  by (auto simp: wp_return wp_if decodeFixedFrame_def Let_def dest: ackError_sent
      split: sum.splits option.splits intro!: wp_seq [OF exchange_sent [OF assms]])

lemma transferFrame_sent:
  assumes "honest E W" "sc_wire c = Some W"
  shows "wp (swd_transferFrame E ctx req data) (\<lambda>r s. sent (snd r) \<and> fst s = c) (c, w)"
  unfolding swd_transferFrame_def wp_bind [of "fetch _"] wp_prog
  using data_sent [OF assms]
  by (auto simp: wp_return dest: ackError_sent split: sum.splits option.splits
      intro!: wp_seq [OF exchange_sent [OF assms]] wp_seq [OF data_sent(2) [OF assms]]
        wp_seq [OF data_sent(3) [OF assms]])

lemma executeFrame_sent:
  assumes "honest E W" "sc_wire c = Some W"
  shows "wp (swd_executeFrame E ctx req data) (\<lambda>r s. sent (snd r)) (c, w)"
  unfolding swd_executeFrame_def swd_clearOverrunAfterWAIT_def
  by (rule wp_seq [OF transferFrame_sent [OF assms]])
     (auto simp: wp_simps swd_abort_wait_def split: prod.splits option.splits
       intro!: wp_conseq [OF transferFrame_sent [OF assms]])

definition unsent :: "'w go_env \<Rightarrow> 'w swd_conn \<Rightarrow> 'w \<Rightarrow> 'w swd_conn \<times> 'w \<Rightarrow> bool" where
  "unsent E c w s \<longleftrightarrow> fst s = c \<and> waits E w (snd s)"

lemma unsent_pair [simp]: "unsent E c w (c', w') \<longleftrightarrow> c' = c \<and> waits E w w'"
  by (simp add: unsent_def)

lemma transfer_unsent:
  assumes "honest E W" "sc_wire c = Some W"
  shows "wp (swd_transfer E ctx req data) (\<lambda>r s. sent (snd r) \<or> fst r = 0 \<and> unsent E c w s) (c, w)"
proof -
  have frame: "wp (swd_executeFrame E cctx req data) (\<lambda>f. wp (do {
          update (observeTransfer req (fst f) data (snd f));
          e1 \<leftarrow> swd_completionError E ctx (snd f);
          ret (fst f, e1) }) (\<lambda>r s. sent (snd r) \<or> fst r = 0 \<and> unsent E c w s)) (c, w')" for cctx w'
    by (rule wp_conseq [OF executeFrame_sent [OF assms]])
       (auto simp: wp_simps swd_completionError_def dest: sent_join_cause [OF assms(1)] split: prod.splits)
  have start: "wp (swd_completionContext E ctx) (\<lambda>r s. unsent E c w s) (c, w')" if "waits E w w'" for w'
  proof -
    have "waits E w v" if "ctx_Err E ctx w' = (r, v)" for r v
      using waits_trans [OF \<open>waits E w w'\<close> waits_ctx_Err [OF that]] .
    then show ?thesis
      by (auto simp: swd_completionContext_def wp_simps unsent_def split: prod.splits option.splits)
  qed
  have "waits E w w'" if "ctx_Err E ctx w = (r, w')" for r w'
    using waits_ctx_Err [OF that] .
  then show ?thesis
    unfolding swd_transfer_def
    by (auto simp: wp_return wp_if wp_case wp_prog wp_bind [of "fetch _"] wp_bind [of "outside _"]
        wp_bind [of "swd_executeFrame _ _ _ _"]
        split: option.splits sum.splits prod.splits
        intro!: wp_seq [OF start] frame)
qed

text \<open>
  C20: a register read or write whose error matches \<open>ErrNotExecuted\<close> put nothing on the wire: the
  value is zero, the connection is what it was, and the world has only seen the context polled.
\<close>

theorem NotExecuted_sends_nothing:
  assumes "honest E W" "sc_wire c = Some W"
  shows "(case run_state (swd_read E ctx ap addr) (c, w) of ((v, e), (c', w')) \<Rightarrow>
       errors_Is e SwdErrNotExecuted \<longrightarrow> v = 0 \<and> c' = c \<and> waits E w w') \<and>
     (case run_state (swd_write E ctx ap addr data) (c, w) of (e, (c', w')) \<Rightarrow>
       errors_Is e SwdErrNotExecuted \<longrightarrow> c' = c \<and> waits E w w')"
proof -
  have "wp (swd_read E ctx ap addr) (\<lambda>r s. sent (snd r) \<or> fst r = 0 \<and> unsent E c w s) (c, w)"
    unfolding swd_read_def
    by (auto simp: wp_return split: sum.splits intro!: transfer_unsent [OF assms])
  moreover have "wp (swd_write E ctx ap addr data) (\<lambda>e s. sent e \<or> unsent E c w s) (c, w)"
    unfolding swd_write_def
    by (auto simp: wp_return split: sum.splits intro!: wp_seq [OF transfer_unsent [OF assms]])
  ultimately show ?thesis
    by (auto simp: wp_def sent_def unsent_def split: prod.splits)
qed

theorem NotExecuted_sends_nothing_witness:
  "run_state (swd_write still_env Background False 8 0) (fresh_conn, ()) =
     (Some (notExecuted swd_not_ready), (fresh_conn, ()))"
proof -
  have h: "honest still_env obliging_wire" "sc_wire fresh_conn = Some obliging_wire"
    by (simp_all add: honest_def still_env_def obliging_wire_def fresh_conn_def swd_New_def)
  have e: "fst (run_state (swd_write still_env Background False 8 0) (fresh_conn, ())) =
      Some (notExecuted swd_not_ready)"
    by (simp add: swd_write_def newRequest_def swd_transfer_def bind_def fresh_conn_def swd_New_def)
  show ?thesis
    using NotExecuted_sends_nothing [OF h, where ctx = Background and ap = False and addr = 8 and data = 0] e
    by (auto simp: notExecuted_def split: prod.splits)
qed

section \<open>How many exchanges a call makes\<close>

text \<open>
  C21: whatever the target answers, a register read or write makes at most two exchanges on the wire, so
  that no operation is replayed; \<open>Release\<close> makes at most 21246 and \<open>Connect\<close>, the release of a
  failed attempt included, at most 42486.
\<close>

theorem swd_exchanges_bounded:
  fixes c :: "'w swd_conn"
  assumes "metered E W \<mu>" "sc_wire c = Some W"
  shows "\<mu> (snd (snd (run_state (swd_read E ctx ap addr) (c, w)))) \<le> \<mu> w + 2 \<and>
     \<mu> (snd (snd (run_state (swd_write E ctx ap addr data) (c, w)))) \<le> \<mu> w + 2 \<and>
     \<mu> (snd (snd (run_state (swd_Release E ctx) (c, w)))) \<le> \<mu> w + 21246 \<and>
     \<mu> (snd (snd (run_state (swd_Connect E ctx options) (c, w)))) \<le> \<mu> w + 42486"
proof -
  have "costs W \<mu> 2 (swd_read E ctx ap addr)" "costs W \<mu> 2 (swd_write E ctx ap addr data)"
    unfolding swd_read_def swd_write_def
    by (intro costs_intros costs_le [OF costs_transfer] costs_bind [OF costs_transfer] assms(1); simp)+
  then show ?thesis
    using costs_Release [OF assms(1)] costs_Connect [OF assms(1)] assms(2) by (intro conjI costs_run)
qed

definition counting_wire :: "nat swd_wire" where
  "counting_wire = \<lparr>SWDIO = (\<lambda>ctx direction output n w. ((obliging_reply n, None), w + 1)),
     swd_MaxTransferBits = None\<rparr>"

theorem swd_exchanges_bounded_witness:
  "snd (snd (run_state (swd_Connect still_env Background []) (swd_New (Some counting_wire) [], 0))) \<le> 42486"
proof -
  have "metered still_env counting_wire (\<lambda>w. w)"
    by (simp add: metered_def still_env_def counting_wire_def)
  moreover have "sc_wire (swd_New (Some counting_wire) []) = Some counting_wire"
    by (simp add: swd_New_def)
  ultimately show ?thesis
    using swd_exchanges_bounded [where w = "0 :: nat" and \<mu> = "\<lambda>w. w"] by fastforce
qed

end
