(* ===== verification/Swd_Batch.thy ===== *)
theory Swd_Batch
  imports Swd_Traffic
begin

text \<open>
  Batches of register operations: \<open>src/swd/batch.go\<close>. A batch is a value that the operations take
  and return; the connection it commits to is the state of the program, and \<open>bt_conn\<close> says whether
  the batch has one. A result handle is the position of its operation in the batch, or a result of
  its own when the batch no longer accepts operations. The loop over the chunks of an overrun commit
  has the number of operations as fuel: every chunk holds at least one.
\<close>

section \<open>Queued operations and their results\<close>

record batchResult =
  br_resolved :: bool
  br_value :: uint32
  br_err :: go_error

definition pending_result :: batchResult where
  "pending_result = \<lparr>br_resolved = False, br_value = 0, br_err = None\<rparr>"

definition batch_resolve :: "uint32 \<Rightarrow> go_error \<Rightarrow> batchResult \<Rightarrow> batchResult" where
  "batch_resolve v e r =
     (if br_resolved r then r else \<lparr>br_resolved = True, br_value = v, br_err = e\<rparr>)"

record batchOp =
  bo_ap :: bool
  bo_read :: bool
  bo_addr :: byte
  bo_data :: uint32
  bo_req :: request
  bo_result :: batchResult
  bo_err :: go_error

record swd_batch =
  bt_conn :: bool
  bt_ops :: "batchOp list"
  bt_committed :: bool

datatype result_handle = Queued nat | Detached batchResult

definition handle_result :: "swd_batch \<Rightarrow> result_handle \<Rightarrow> batchResult" where
  "handle_result b h = (case h of Queued i \<Rightarrow> bo_result (bt_ops b ! i) | Detached r \<Rightarrow> r)"

definition ReadResult_Value :: "swd_batch \<Rightarrow> result_handle \<Rightarrow> uint32 \<times> go_error" where
  "ReadResult_Value b h =
     (let r = handle_result b h in
      if \<not> br_resolved r then (0, Some (Sentinel SwdErrResultPending)) else (br_value r, br_err r))"

definition WriteResult_Err :: "swd_batch \<Rightarrow> result_handle \<Rightarrow> go_error" where
  "WriteResult_Err b h =
     (let r = handle_result b h in
      if \<not> br_resolved r then Some (Sentinel SwdErrResultPending) else br_err r)"

definition NewBatch :: swd_batch where
  "NewBatch = \<lparr>bt_conn = True, bt_ops = [], bt_committed = False\<rparr>"

definition zero_request :: request where
  "zero_request = \<lparr>req_ap = False, req_read = False, req_addr = 0\<rparr>"

definition batch_op :: "bool \<Rightarrow> bool \<Rightarrow> byte \<Rightarrow> uint32 \<Rightarrow> batchOp" where
  "batch_op ap read addr data = \<lparr>bo_ap = ap, bo_read = read, bo_addr = addr, bo_data = data,
     bo_req = zero_request, bo_result = pending_result, bo_err = None\<rparr>"

definition batch_queue :: "batchOp \<Rightarrow> swd_batch \<Rightarrow> result_handle \<times> swd_batch" where
  "batch_queue op b =
     (if bt_committed b
      then (Detached (batch_resolve 0 (Some (Sentinel SwdErrBatchCommitted)) pending_result), b)
      else (Queued (length (bt_ops b)), b\<lparr>bt_ops := bt_ops b @ [op]\<rparr>))"

definition Batch_ReadDP :: "byte \<Rightarrow> swd_batch \<Rightarrow> result_handle \<times> swd_batch" where
  "Batch_ReadDP addr = batch_queue (batch_op False True addr 0)"

definition Batch_WriteDP :: "byte \<Rightarrow> uint32 \<Rightarrow> swd_batch \<Rightarrow> result_handle \<times> swd_batch" where
  "Batch_WriteDP addr v = batch_queue (batch_op False False addr v)"

definition Batch_ReadAP :: "byte \<Rightarrow> swd_batch \<Rightarrow> result_handle \<times> swd_batch" where
  "Batch_ReadAP addr = batch_queue (batch_op True True addr 0)"

definition Batch_WriteAP :: "byte \<Rightarrow> uint32 \<Rightarrow> swd_batch \<Rightarrow> result_handle \<times> swd_batch" where
  "Batch_WriteAP addr v = batch_queue (batch_op True False addr v)"

section \<open>Resolving results\<close>

definition resolve_op :: "uint32 \<Rightarrow> go_error \<Rightarrow> batchOp \<Rightarrow> batchOp" where
  "resolve_op v e op = op\<lparr>bo_result := batch_resolve v e (bo_result op)\<rparr>"

definition on_op :: "nat \<Rightarrow> (batchOp \<Rightarrow> batchOp) \<Rightarrow> swd_batch \<Rightarrow> swd_batch" where
  "on_op i f b = b\<lparr>bt_ops := (bt_ops b)[i := f (bt_ops b ! i)]\<rparr>"

definition on_ops :: "nat \<Rightarrow> nat \<Rightarrow> (batchOp \<Rightarrow> batchOp) \<Rightarrow> swd_batch \<Rightarrow> swd_batch" where
  "on_ops start end f b = fold (\<lambda>i. on_op i f) [start..<end] b"

definition ErrNotExecuted :: err where "ErrNotExecuted = Sentinel SwdErrNotExecuted"
definition ErrIndeterminate :: err where "ErrIndeterminate = Sentinel SwdErrIndeterminate"

definition resolveInvalid :: "swd_batch \<Rightarrow> swd_batch" where
  "resolveInvalid b = on_ops 0 (length (bt_ops b))
     (\<lambda>op. if bo_err op \<noteq> None then resolve_op 0 (bo_err op) op
           else resolve_op 0 (Some ErrNotExecuted) op) b"

definition resolveSuffix :: "nat \<Rightarrow> swd_batch \<Rightarrow> swd_batch" where
  "resolveSuffix start b = on_ops start (length (bt_ops b)) (resolve_op 0 (Some ErrNotExecuted)) b"

definition markIndeterminate :: "nat \<Rightarrow> nat \<Rightarrow> err \<Rightarrow> swd_batch \<Rightarrow> swd_batch" where
  "markIndeterminate start end cause =
     on_ops start end (\<lambda>op. op\<lparr>bo_result := (bo_result op)\<lparr>br_err :=
       errors_Join [Some ErrIndeterminate, br_err (bo_result op), Some cause]\<rparr>\<rparr>)"

section \<open>Validation\<close>

definition operation_error :: "nat \<Rightarrow> err \<Rightarrow> err" where
  "operation_error i e = Wrap ''swd: operation %d: %w'' [int i] [e]"

primrec validate_requests :: "nat \<Rightarrow> batchOp list \<Rightarrow> batchOp list \<times> err list" where
  "validate_requests i [] = ([], [])"
| "validate_requests i (op # ops) =
     (case validate_requests (i + 1) ops of (ops', errs) \<Rightarrow>
        (case newRequest (bo_ap op) (bo_read op) (bo_addr op) of
           Inl e \<Rightarrow> (op\<lparr>bo_req := zero_request, bo_err := Some (operation_error i e)\<rparr> # ops',
                     operation_error i e # errs)
         | Inr req \<Rightarrow> (op\<lparr>bo_req := req, bo_err := None\<rparr> # ops', errs)))"

primrec validate_shadow :: "nat \<Rightarrow> 'w swd_conn \<Rightarrow> batchOp list \<Rightarrow> batchOp list \<times> err list" where
  "validate_shadow i shadow [] = ([], [])"
| "validate_shadow i shadow (op # ops) =
     (case validateTransfer (bo_req op) (bo_data op) shadow of
        Some e \<Rightarrow>
          (case validate_shadow (i + 1) shadow ops of (ops', errs) \<Rightarrow>
             (op\<lparr>bo_err := Some (operation_error i e)\<rparr> # ops', operation_error i e # errs))
      | None \<Rightarrow>
          (case validate_shadow (i + 1) (observeTransfer (bo_req op) 0 (bo_data op) None shadow) ops of
             (ops', errs) \<Rightarrow> (op\<lparr>bo_err := None\<rparr> # ops', errs)))"

definition batch_validate :: "'w go_env \<Rightarrow> ctx \<Rightarrow> swd_batch \<Rightarrow> ('w, go_error \<times> swd_batch) swd" where
  "batch_validate E ctx b =
     (case validate_requests 0 (bt_ops b) of (ops, errs) \<Rightarrow>
        (let b = b\<lparr>bt_ops := ops\<rparr> in
         if errs \<noteq> [] then ret (Some (Joined errs), b)
         else if \<not> bt_conn b then ret (Some swd_nil_connection, b)
         else do {
           c \<leftarrow> fetch (\<lambda>c. c);
           if sc_state c \<noteq> connectionReady then ret (Some swd_not_ready, b)
           else do {
             e \<leftarrow> outside (ctx_Err E ctx);
             case e of
               Some x \<Rightarrow> ret (Some (Sentinel x), b)
             | None \<Rightarrow>
                 (case swd_validateCompletion c of
                    Some x \<Rightarrow> ret (Some x, b)
                  | None \<Rightarrow>
                      (case validate_shadow 0 c ops of (ops, errs) \<Rightarrow>
                         ret (if errs = [] then None else Some (Joined errs), b\<lparr>bt_ops := ops\<rparr>)))
           }
         }))"

definition validateRuntimeOperation :: "'w swd_conn \<Rightarrow> nat \<Rightarrow> swd_batch \<Rightarrow> go_error \<times> swd_batch" where
  "validateRuntimeOperation c i b =
     (let op = bt_ops b ! i in
      case validateTransfer (bo_req op) (bo_data op) c of
        Some e \<Rightarrow>
          (let e' = Some (operation_error i e) in (e', on_op i (\<lambda>op. resolve_op 0 e' (op\<lparr>bo_err := e'\<rparr>)) b))
      | None \<Rightarrow> (None, b))"

section \<open>Sequential commit\<close>

definition batch_stopped :: "nat \<Rightarrow> err \<Rightarrow> err" where
  "batch_stopped i e = Wrap ''swd: batch stopped at operation %d: %w'' [int i] [e]"

definition sequential_error :: "go_error \<Rightarrow> go_error" where
  "sequential_error e =
     (if e \<noteq> None \<and> \<not> completeTransfer e then errors_Join [Some ErrIndeterminate, e] else e)"

primrec commit_sequential_ops ::
  "'w go_env \<Rightarrow> ctx \<Rightarrow> nat list \<Rightarrow> swd_batch \<Rightarrow> ('w, go_error \<times> swd_batch) swd" where
  "commit_sequential_ops E ctx [] b = ret (None, b)"
| "commit_sequential_ops E ctx (i # is) b = do {
     e \<leftarrow> outside (ctx_Err E ctx);
     case e of
       Some x \<Rightarrow> ret (Some (Sentinel x), resolveSuffix i b)
     | None \<Rightarrow> do {
         c \<leftarrow> fetch (\<lambda>c. c);
         case validateRuntimeOperation c i b of
           (Some x, b) \<Rightarrow> ret (Some x, resolveSuffix (i + 1) b)
         | (None, b) \<Rightarrow> do {
             r \<leftarrow> swd_transfer E (WithoutCancel ctx) (bo_req (bt_ops b ! i)) (bo_data (bt_ops b ! i));
             let b = on_op i (resolve_op (fst r) (sequential_error (snd r))) b;
             case sequential_error (snd r) of
               Some x \<Rightarrow> do {
                 e1 \<leftarrow> swd_completionError E ctx (Some (batch_stopped i x));
                 ret (e1, resolveSuffix (i + 1) b)
               }
             | None \<Rightarrow> do {
                 e \<leftarrow> outside (ctx_Err E ctx);
                 case e of
                   Some x \<Rightarrow> ret (Some (Sentinel x), resolveSuffix (i + 1) b)
                 | None \<Rightarrow> commit_sequential_ops E ctx is b
               }
           }
       }
   }"

definition commitSequential :: "'w go_env \<Rightarrow> ctx \<Rightarrow> swd_batch \<Rightarrow> ('w, go_error \<times> swd_batch) swd" where
  "commitSequential E ctx b = commit_sequential_ops E ctx [0..<length (bt_ops b)] b"

section \<open>Packed commit\<close>

definition fixedFrameBits :: nat where "fixedFrameBits = 54"

definition limit_too_small :: "int \<Rightarrow> err" where
  "limit_too_small limit =
     New ''swd: wire transfer limit %d bits is smaller than one %d-bit frame'' [limit, int fixedFrameBits]"
definition chunk_error :: "nat \<Rightarrow> err \<Rightarrow> err" where
  "chunk_error start e = Wrap ''swd: batch chunk at operation %d: %w'' [int start] [e]"
definition not_abandoned :: err where
  "not_abandoned = New ''swd: request after WAIT or FAULT was not abandoned'' []"
definition completed_unexpectedly :: "nat \<Rightarrow> nat \<Rightarrow> err" where
  "completed_unexpectedly i first =
     New ''swd: operation %d completed unexpectedly after operation %d failed'' [int i, int first]"

text \<open>\<open>limit / 54 * 54\<close> of a limit of at least one frame is not negative.\<close>

definition transferLimit :: "'w swd_wire \<Rightarrow> 'w \<Rightarrow> err + nat" where
  "transferLimit W w =
     (case swd_MaxTransferBits W of
        None \<Rightarrow> Inr fixedFrameBits
      | Some limits \<Rightarrow>
          (let limit = limits w in
           if limit < int fixedFrameBits then Inl (limit_too_small limit)
           else Inr (nat limit div fixedFrameBits * fixedFrameBits)))"

primrec overrun_chunk_end :: "'w swd_conn \<Rightarrow> swd_batch \<Rightarrow> nat \<Rightarrow> nat list \<Rightarrow> nat" where
  "overrun_chunk_end shadow b limit [] = limit"
| "overrun_chunk_end shadow b limit (i # is) =
     (let op = bt_ops b ! i;
          boundary = (sc_selectPending shadow \<and> isPossibleCTRLSTATRead (bo_req op) (sc_priorBank shadow));
          shadow = observeTransfer (bo_req op) 0 (bo_data op) None shadow
      in if boundary \<or> isAbortWrite (bo_req op) then i + 1
         else overrun_chunk_end shadow b limit is)"

definition overrunChunkEnd :: "'w swd_conn \<Rightarrow> swd_batch \<Rightarrow> nat \<Rightarrow> nat \<Rightarrow> nat" where
  "overrunChunkEnd c b start limit = overrun_chunk_end c b limit [start..<limit]"

definition failOverrunExchange ::
  "nat \<Rightarrow> nat \<Rightarrow> err \<Rightarrow> swd_batch \<Rightarrow> ('w, err \<times> swd_batch) swd" where
  "failOverrunExchange start end e b = do {
     update requireRepair;
     ret (chunk_error start e,
          on_ops start end (resolve_op 0 (errors_Join [Some ErrIndeterminate, Some e])) b)
   }"

definition decodeOverrunChunk :: "byte list \<Rightarrow> nat \<Rightarrow> nat \<Rightarrow> swd_batch \<Rightarrow> (uint32 \<times> go_error) list" where
  "decodeOverrunChunk input start end b =
     map (\<lambda>i. decodeFixedFrame input ((i - start) * fixedFrameBits) (bo_req (bt_ops b ! i))) [start..<end]"

definition stickyExempt :: "request \<Rightarrow> 'w swd_conn \<Rightarrow> bool" where
  "stickyExempt req c =
     (if isDPIDRRead req \<or> isAbortWrite req then True
      else
        (let bankZero = (bs_valid (sc_bank c) \<and> bs_bank (sc_bank c) = 0);
             bankZero = (if sc_selectPending c
                         then bankZero \<and> bs_valid (sc_priorBank c) \<and> bs_bank (sc_priorBank c) = 0
                         else bankZero)
         in \<not> req_ap req \<and> req_read req \<and> req_addr req = 0x04 \<and> bankZero))"

primrec observe_chunk ::
  "nat \<Rightarrow> (uint32 \<times> go_error) list \<Rightarrow> 'w swd_conn \<times> swd_batch \<Rightarrow>
   (bool \<times> bool list) \<times> 'w swd_conn \<times> swd_batch" where
  "observe_chunk i [] s = ((False, []), s)"
| "observe_chunk i (r # rs) s =
     (case s of (c, b) \<Rightarrow>
        (let op = bt_ops b ! i;
             exempt = stickyExempt (bo_req op) c;
             waited = (snd r = Some ErrWait \<and> sc_selectPending c);
             c' = (if waited then c else observeTransfer (bo_req op) (fst r) (bo_data op) (snd r) c)
         in case observe_chunk (i + 1) rs (c', on_op i (resolve_op (fst r) (snd r)) b) of
              ((wait, exempts), s') \<Rightarrow> ((waited \<or> wait, exempt # exempts), s')))"

definition observeOverrunChunk ::
  "nat \<Rightarrow> (uint32 \<times> go_error) list \<Rightarrow> swd_batch \<Rightarrow> ('w, (bool \<times> bool list) \<times> swd_batch) swd" where
  "observeOverrunChunk start rs b = do {
     c \<leftarrow> fetch (\<lambda>c. c);
     case observe_chunk start rs (c, b) of
       (r, (c', b')) \<Rightarrow> do { update (\<lambda>_. c'); ret (r, b') }
   }"

primrec firstFrameError :: "go_error list \<Rightarrow> err list \<Rightarrow> nat option" where
  "firstFrameError [] matches = None"
| "firstFrameError (e # errs) matches =
     (if list_ex (\<lambda>m. e = Some m) matches then Some 0
      else map_option Suc (firstFrameError errs matches))"

primrec validate_abandoned ::
  "nat \<Rightarrow> nat \<Rightarrow> nat \<Rightarrow> bool list \<Rightarrow> nat list \<Rightarrow> swd_batch \<Rightarrow> ('w, go_error \<times> swd_batch) swd" where
  "validate_abandoned first end start exempt [] b = ret (None, b)"
| "validate_abandoned first end start exempt (i # is) b =
     (let e = br_err (bo_result (bt_ops b ! i)) in
      if e = Some ErrFault \<or> exempt ! (i - start) \<and> (e = None \<or> e = Some ErrParity)
      then validate_abandoned first end start exempt is b
      else do {
        update requireRepair;
        ret (Some (completed_unexpectedly i first), markIndeterminate i end not_abandoned b)
      })"

definition validateAbandonedSuffix ::
  "nat \<Rightarrow> nat \<Rightarrow> nat \<Rightarrow> bool list \<Rightarrow> swd_batch \<Rightarrow> ('w, go_error \<times> swd_batch) swd" where
  "validateAbandonedSuffix first end start exempt b =
     validate_abandoned first end start exempt [first + 1..<end] b"

definition cleanupPackedWAIT ::
  "'w go_env \<Rightarrow> ctx \<Rightarrow> nat \<Rightarrow> bool \<Rightarrow> swd_batch \<Rightarrow> ('w, swd_batch) swd" where
  "cleanupPackedWAIT E ctx index waitWithPending b = do {
     e \<leftarrow> (if isAbortWrite (bo_req (bt_ops b ! index))
           then do { update requireRepair; ret (Some swd_abort_wait) }
           else swd_clearOverrunAfterWAIT E ctx);
     let b = (case e of
                None \<Rightarrow> b
              | Some x \<Rightarrow> on_op index (\<lambda>op. op\<lparr>bo_result := (bo_result op)\<lparr>br_err :=
                            errors_Join [br_err (bo_result op), Some x]\<rparr>\<rparr>) b);
     _ \<leftarrow> (if waitWithPending then update requireRepair else ret ());
     ret b
   }"

definition chunk_results :: "nat \<Rightarrow> nat \<Rightarrow> swd_batch \<Rightarrow> go_error list" where
  "chunk_results start end b =
     map (\<lambda>i. map_option (operation_error i) (br_err (bo_result (bt_ops b ! i)))) [start..<end]"

definition finishOverrunChunk ::
  "'w go_env \<Rightarrow> ctx \<Rightarrow> nat \<Rightarrow> nat \<Rightarrow> go_error list \<Rightarrow> bool \<Rightarrow> bool list \<Rightarrow> swd_batch \<Rightarrow>
   ('w, go_error \<times> swd_batch) swd" where
  "finishOverrunChunk E ctx start end errs waitWithPending exempt b = do {
     p \<leftarrow> (case firstFrameError errs [ErrProtocol] of
             None \<Rightarrow> ret (end, b)
           | Some protocol \<Rightarrow> do {
               update requireRepair;
               ret (start + protocol, markIndeterminate (start + protocol) end ErrProtocol b)
             });
     q \<leftarrow> (case firstFrameError errs [ErrWait, ErrFault] of
             None \<Rightarrow> ret (None, snd p)
           | Some failed \<Rightarrow> validateAbandonedSuffix (start + failed) (fst p) start exempt (snd p));
     state \<leftarrow> fetch sc_state;
     b \<leftarrow> (case firstFrameError errs [ErrWait] of
             None \<Rightarrow> ret (snd q)
           | Some waited \<Rightarrow>
               if state = connectionReady
               then cleanupPackedWAIT E ctx (start + waited) waitWithPending (snd q)
               else ret (snd q));
     ret (map_option (chunk_error start) (errors_Join (chunk_results start end b @ [fst q])), b)
   }"

definition commitOverrunChunk ::
  "'w go_env \<Rightarrow> ctx \<Rightarrow> nat \<Rightarrow> nat \<Rightarrow> swd_batch \<Rightarrow> ('w, go_error \<times> swd_batch) swd" where
  "commitOverrunChunk E ctx start end b = do {
     r \<leftarrow> swd_completionContext E ctx;
     case r of
       Inl e \<Rightarrow> ret (Some e, resolveSuffix start b)
     | Inr cctx \<Rightarrow> do {
         c \<leftarrow> fetch (\<lambda>c. c);
         x \<leftarrow> swd_exchange E cctx
           (fold (\<lambda>i. seq_appendSequence (fixedFrame (sc_turnaround c) (sc_idleCycles c)
                    (bo_req (bt_ops b ! i)) (bo_data (bt_ops b ! i)))) [start..<end] seq_empty);
         case x of
           Inl e \<Rightarrow> do {
             f \<leftarrow> failOverrunExchange start end e b;
             e1 \<leftarrow> swd_completionError E ctx (Some (fst f));
             ret (e1, snd f)
           }
         | Inr input \<Rightarrow> do {
             let rs = decodeOverrunChunk input start end b;
             obs \<leftarrow> observeOverrunChunk start rs b;
             f \<leftarrow> finishOverrunChunk E cctx start end (map snd rs) (fst (fst obs)) (snd (fst obs)) (snd obs);
             e1 \<leftarrow> swd_completionError E ctx (fst f);
             ret (e1, snd f)
           }
       }
   }"

primrec commit_chunks ::
  "nat \<Rightarrow> 'w go_env \<Rightarrow> ctx \<Rightarrow> nat \<Rightarrow> nat \<Rightarrow> swd_batch \<Rightarrow> ('w, go_error \<times> swd_batch) swd" where
  "commit_chunks 0 E ctx frames start b = ret (None, b)"
| "commit_chunks (Suc fuel) E ctx frames start b =
     (if \<not> start < length (bt_ops b) then ret (None, b)
      else do {
        e \<leftarrow> outside (ctx_Err E ctx);
        case e of
          Some x \<Rightarrow> ret (Some (Sentinel x), resolveSuffix start b)
        | None \<Rightarrow> do {
            c \<leftarrow> fetch (\<lambda>c. c);
            case validateRuntimeOperation c start b of
              (Some x, b) \<Rightarrow> ret (Some x, resolveSuffix (start + 1) b)
            | (None, b) \<Rightarrow> do {
                let end = overrunChunkEnd c b start (min (start + frames) (length (bt_ops b)));
                r \<leftarrow> commitOverrunChunk E ctx start end b;
                case r of
                  (Some x, b) \<Rightarrow> ret (Some x, resolveSuffix end b)
                | (None, b) \<Rightarrow> commit_chunks fuel E ctx frames end b
              }
          }
      })"

definition commitOverrun ::
  "'w go_env \<Rightarrow> ctx \<Rightarrow> nat \<Rightarrow> swd_batch \<Rightarrow> ('w, go_error \<times> swd_batch) swd" where
  "commitOverrun E ctx limit b =
     commit_chunks (length (bt_ops b)) E ctx (limit div fixedFrameBits) 0 b"

text \<open>The part of \<open>Commit\<close> behind the validation.\<close>

definition commit_validated :: "'w go_env \<Rightarrow> ctx \<Rightarrow> swd_batch \<Rightarrow> ('w, go_error \<times> swd_batch) swd" where
  "commit_validated E ctx b = do {
     c \<leftarrow> fetch (\<lambda>c. c);
     if sc_response c = responseSimple then commitSequential E ctx b
     else do {
       l \<leftarrow> (case sc_wire c of
               None \<Rightarrow> ret (Inr fixedFrameBits)
             | Some W \<Rightarrow> outside (\<lambda>w. (transferLimit W w, w)));
       case l of
         Inl e \<Rightarrow> ret (Some e, resolveSuffix 0 b)
       | Inr limit \<Rightarrow> commitOverrun E ctx limit b
     }
   }"

definition Batch_Commit :: "'w go_env \<Rightarrow> ctx \<Rightarrow> swd_batch \<Rightarrow> ('w, go_error \<times> swd_batch) swd" where
  "Batch_Commit E ctx b =
     (if bt_committed b then ret (Some (Sentinel SwdErrBatchCommitted), b)
      else
        (let b = b\<lparr>bt_committed := True\<rparr> in
         if bt_ops b = [] then ret (None, b)
         else do {
           v \<leftarrow> batch_validate E ctx b;
           case v of
             (Some e, b) \<Rightarrow> ret (Some e, resolveInvalid b)
           | (None, b) \<Rightarrow> commit_validated E ctx b
         }))"

section \<open>Every result is resolved\<close>

text \<open>
  Committing never forgets an operation and never takes a resolution back; \<open>resolved_in m n b\<close> says
  that the operations from \<open>m\<close> to before \<open>n\<close> are resolved.
\<close>

definition op_core :: "batchOp \<Rightarrow> bool \<times> bool \<times> byte \<times> uint32" where
  "op_core op = (bo_ap op, bo_read op, bo_addr op, bo_data op)"

abbreviation op_resolved :: "batchOp \<Rightarrow> bool" where
  "op_resolved op \<equiv> br_resolved (bo_result op)"

definition op_grows :: "batchOp \<Rightarrow> batchOp \<Rightarrow> bool" where
  "op_grows op op' \<longleftrightarrow> op_core op' = op_core op \<and> (op_resolved op \<longrightarrow> op_resolved op')"

definition batch_grows :: "swd_batch \<Rightarrow> swd_batch \<Rightarrow> bool" where
  "batch_grows b b' \<longleftrightarrow> bt_committed b' = bt_committed b \<and> list_all2 op_grows (bt_ops b) (bt_ops b')"

definition resolved_in :: "nat \<Rightarrow> nat \<Rightarrow> swd_batch \<Rightarrow> bool" where
  "resolved_in m n b \<longleftrightarrow> (\<forall>i. m \<le> i \<and> i < n \<and> i < length (bt_ops b) \<longrightarrow> op_resolved (bt_ops b ! i))"

lemma op_grows_refl [simp]: "op_grows op op"
  by (simp add: op_grows_def)

lemma op_grows_trans: "op_grows a b \<Longrightarrow> op_grows b c \<Longrightarrow> op_grows a c"
  by (simp add: op_grows_def)

lemma batch_grows_refl [simp]: "batch_grows b b"
  by (simp add: batch_grows_def list_all2_refl)

lemma batch_grows_trans: "batch_grows a b \<Longrightarrow> batch_grows b c \<Longrightarrow> batch_grows a c"
  unfolding batch_grows_def using list_all2_trans [of op_grows op_grows op_grows] op_grows_trans
  by (metis (no_types, lifting))

lemma batch_grows_length: "batch_grows b b' \<Longrightarrow> length (bt_ops b') = length (bt_ops b)"
  using list_all2_lengthD by (fastforce simp: batch_grows_def)

lemma resolved_in_grows: "batch_grows b b' \<Longrightarrow> resolved_in m n b \<Longrightarrow> resolved_in m n b'"
  by (auto simp: batch_grows_def resolved_in_def list_all2_conv_all_nth op_grows_def)

lemma resolved_in_join: "resolved_in k m b \<Longrightarrow> resolved_in m n b \<Longrightarrow> resolved_in k n b"
  by (auto simp: resolved_in_def) (metis not_le)

lemma resolved_in_empty [simp]: "n \<le> m \<Longrightarrow> resolved_in m n b"
  by (auto simp: resolved_in_def)

lemma on_op_grows: "(\<And>op. op_grows op (f op)) \<Longrightarrow> batch_grows b (on_op i f b)"
  unfolding batch_grows_def on_op_def list_all2_conv_all_nth
  by simp (metis nth_list_update_eq nth_list_update_neq op_grows_refl)

lemma on_ops_grows: "(\<And>op. op_grows op (f op)) \<Longrightarrow> batch_grows b (on_ops m n f b)"
proof -
  assume f: "\<And>op. op_grows op (f op)"
  have "batch_grows b (fold (\<lambda>i. on_op i f) is b)" for "is"
    by (induction "is" arbitrary: b) (auto intro: batch_grows_trans [OF on_op_grows] f)
  then show ?thesis by (simp add: on_ops_def)
qed

lemma on_op_resolves:
  "(\<And>op. op_resolved (f op)) \<Longrightarrow> resolved_in i (Suc i) (on_op i f b)"
  by (auto simp: resolved_in_def on_op_def le_less_Suc_eq)

lemma on_ops_resolves:
  assumes "\<And>op. op_grows op (f op)" "\<And>op. op_resolved (f op)"
  shows "resolved_in m n (on_ops m n f b)"
proof (induction n)
  case 0
  show ?case by simp
next
  case (Suc n)
  show ?case
  proof (cases "m \<le> n")
    case True
    then have step: "on_ops m (Suc n) f b = on_op n f (on_ops m n f b)"
      by (simp add: on_ops_def)
    show ?thesis
      unfolding step
      by (rule resolved_in_join [of m n])
         (use Suc assms in \<open>auto intro: resolved_in_grows on_op_grows on_op_resolves\<close>)
  qed simp
qed

lemma batch_resolve_resolved [simp]: "br_resolved (batch_resolve v e r)"
  by (simp add: batch_resolve_def)

lemma op_grows_simps [simp]:
  "op_grows op (resolve_op v e op)"
  "op_grows op (resolve_op v e (op\<lparr>bo_err := x\<rparr>))"
  "op_grows op (op\<lparr>bo_result := (bo_result op)\<lparr>br_err := x\<rparr>\<rparr>)"
  "op_resolved (resolve_op v e op)"
  by (simp_all add: op_grows_def op_core_def resolve_op_def)

lemma resolveSuffix_post:
  "batch_grows b (resolveSuffix n b)" "resolved_in n (length (bt_ops b)) (resolveSuffix n b)"
  unfolding resolveSuffix_def by (intro on_ops_grows on_ops_resolves; simp)+

lemma resolveInvalid_post:
  "batch_grows b (resolveInvalid b)" "resolved_in 0 (length (bt_ops b)) (resolveInvalid b)"
  unfolding resolveInvalid_def by (intro on_ops_grows on_ops_resolves; simp)+

lemma markIndeterminate_grows: "batch_grows b (markIndeterminate m n cause b)"
  unfolding markIndeterminate_def by (intro on_ops_grows) simp

lemma validateRuntimeOperation_post:
  assumes "validateRuntimeOperation c i b = (e, b')"
  shows "batch_grows b b'" "e \<noteq> None \<Longrightarrow> resolved_in i (Suc i) b'" "e = None \<Longrightarrow> b' = b"
  using assms
  by (auto simp: validateRuntimeOperation_def Let_def split: option.splits
      intro!: on_op_grows on_op_resolves)

definition finished :: "swd_batch \<Rightarrow> swd_batch \<Rightarrow> bool" where
  "finished b b' \<longleftrightarrow> batch_grows b b' \<and> resolved_in 0 (length (bt_ops b)) b'"

lemma finish_suffix:
  assumes "batch_grows b b'" "resolved_in 0 n b'"
  shows "finished b (resolveSuffix n b')"
  unfolding finished_def
  using assms resolveSuffix_post(1) [of b' n] resolveSuffix_post(2) [of n b'] batch_grows_length [OF assms(1)]
  by (auto intro: batch_grows_trans resolved_in_join resolved_in_grows)


lemma commit_sequential_finishes:
  assumes "batch_grows b0 b" "resolved_in 0 n b" "n \<le> length (bt_ops b0)"
  shows "wp (commit_sequential_ops E ctx [n..<length (bt_ops b0)] b) (\<lambda>r s. finished b0 (snd r)) s"
  using assms
proof (induction "[n..<length (bt_ops b0)]" arbitrary: n b s)
  case Nil
  then have "n = length (bt_ops b0)"
    using upt_eq_Nil_conv [of n "length (bt_ops b0)"] by auto
  with Nil show ?case by (simp add: wp_return finished_def)
next
  case (Cons i js)
  have n: "n = i" "i < length (bt_ops b0)" "js = [Suc i..<length (bt_ops b0)]"
    using Cons.hyps(2) [symmetric] by (auto simp: upt_eq_Cons_conv)
  have next_op: "batch_grows b0 (on_op i (resolve_op v e) b')" "resolved_in 0 (Suc i) (on_op i (resolve_op v e) b')"
    if "batch_grows b0 b'" "resolved_in 0 i b'" for v e b'
  proof -
    show "batch_grows b0 (on_op i (resolve_op v e) b')"
      by (rule batch_grows_trans [OF that(1) on_op_grows]) simp
    show "resolved_in 0 (Suc i) (on_op i (resolve_op v e) b')"
      by (rule resolved_in_join [OF resolved_in_grows [OF on_op_grows that(2)] on_op_resolves]) simp_all
  qed
  have accepted: "b' = b" if "validateRuntimeOperation c i b = (None, b')" for c :: "'a swd_conn" and b'
    using validateRuntimeOperation_post(3) [OF that] by simp
  have refused: "finished b0 (resolveSuffix (Suc i) b')"
    if "validateRuntimeOperation c i b = (Some x, b')" for c :: "'a swd_conn" and b' x
  proof -
    note post = validateRuntimeOperation_post [OF that]
    have "resolved_in 0 (Suc i) b'"
      using resolved_in_join [of 0 i b' "Suc i"] resolved_in_grows [OF post(1)] post(2) Cons.prems(2) n
      by auto
    then show ?thesis
      by (rule finish_suffix [OF batch_grows_trans [OF Cons.prems(1) post(1)]])
  qed
  note b = Cons.prems(1) Cons.prems(2) [unfolded n(1)]
  have rest: "wp (commit_sequential_ops E ctx js (on_op i (resolve_op v e) b)) (\<lambda>r s. finished b0 (snd r)) s" for v e s
    using Cons.hyps(1) [of "Suc i"] next_op [OF b] n by simp
  show ?case
    unfolding Cons.hyps(2) [symmetric] commit_sequential_ops.simps Let_def
    using finish_suffix [OF b] finish_suffix [OF next_op [OF b]] rest
    by (auto simp: wp_return wp_prog wp_bind [of "outside _"] wp_bind [of "fetch _"]
        split: prod.splits option.splits dest!: accepted intro: refused intro!: wp_seq [OF wp_True])
qed

lemma overrunChunkEnd_bounds:
  assumes "start < limit"
  shows "start < overrunChunkEnd c b start limit" "overrunChunkEnd c b start limit \<le> limit"
proof -
  have "m < limit \<Longrightarrow> m < overrun_chunk_end c b limit [m..<limit] \<and> overrun_chunk_end c b limit [m..<limit] \<le> limit" for m c
  proof (induction "[m..<limit]" arbitrary: m c)
    case Nil
    then show ?case by simp
  next
    case (Cons i js)
    have n: "m = i" "js = [Suc i..<limit]"
      using Cons.hyps(2) [symmetric] by (auto simp: upt_eq_Cons_conv)
    show ?case
      unfolding Cons.hyps(2) [symmetric]
      using Cons.hyps(1) [of "Suc i"] Cons.prems n
      by (cases "Suc i < limit") (auto simp: Let_def less_Suc_eq_le dest: Suc_lessD)
  qed
  from this [OF assms, of c] show "start < overrunChunkEnd c b start limit" "overrunChunkEnd c b start limit \<le> limit"
    by (simp_all add: overrunChunkEnd_def)
qed


lemma observe_chunk_post:
  assumes "observe_chunk i rs (c, b) = (r, (c', b'))"
  shows "batch_grows b b' \<and> resolved_in i (i + length rs) b'"
  using assms
proof (induction rs arbitrary: i c b r c' b')
  case Nil
  then show ?case by simp
next
  case (Cons x rs)
  let ?b = "on_op i (resolve_op (fst x) (snd x)) b"
  obtain c1 r' where step: "observe_chunk (i + 1) rs (c1, ?b) = (r', (c', b'))"
    using Cons.prems by (auto simp: Let_def split: prod.splits)
  have b: "batch_grows b ?b" "resolved_in i (Suc i) ?b"
    by (simp_all add: on_op_grows on_op_resolves)
  from Cons.IH [OF step] have "batch_grows ?b b'" "resolved_in (Suc i) (i + length (x # rs)) b'"
    by simp_all
  then show ?case
    using b resolved_in_grows resolved_in_join batch_grows_trans by blast
qed

lemma validate_abandoned_grows:
  "wp (validate_abandoned first end start exempt is b) (\<lambda>r s. batch_grows b (snd r)) s"
  by (induction "is") (simp_all add: wp_simps Let_def markIndeterminate_grows)

lemma cleanupPackedWAIT_grows:
  "wp (cleanupPackedWAIT E ctx i pending b) (\<lambda>b' s. batch_grows b b') s"
  unfolding cleanupPackedWAIT_def Let_def
  by (rule wp_seq [OF wp_True], rule wp_seq [OF wp_True])
     (auto simp: wp_return on_op_grows split: option.splits)

lemma finishOverrunChunk_grows:
  "wp (finishOverrunChunk E ctx start end errs pending exempt b) (\<lambda>r s. batch_grows b (snd r)) s"
proof -
  let ?G = "\<lambda>r s. batch_grows b (snd r)"
  have mark: "wp (case firstFrameError errs [ErrProtocol] of
             None \<Rightarrow> ret (end, b)
           | Some protocol \<Rightarrow> do {
               update requireRepair;
               ret (start + protocol, markIndeterminate (start + protocol) end ErrProtocol b) }) ?G s"
    by (simp add: wp_simps markIndeterminate_grows split: option.splits)
  have suffix: "wp (case firstFrameError errs [ErrWait, ErrFault] of
             None \<Rightarrow> ret (None, snd p)
           | Some failed \<Rightarrow> validateAbandonedSuffix (start + failed) (fst p) start exempt (snd p)) ?G s"
    if "batch_grows b (snd p)" for p and s :: "'a swd_conn \<times> 'a"
    using that
    by (auto simp: wp_return validateAbandonedSuffix_def split: option.splits
        intro!: wp_conseq [OF validate_abandoned_grows] intro: batch_grows_trans)
  have clean: "wp (case firstFrameError errs [ErrWait] of
             None \<Rightarrow> ret (snd q)
           | Some waited \<Rightarrow>
               if state = connectionReady
               then cleanupPackedWAIT E ctx (start + waited) pending (snd q)
               else ret (snd q)) (\<lambda>b' s. batch_grows b b') s"
    if "batch_grows b (snd q)" for q :: "go_error \<times> swd_batch" and state s
    using that
    by (auto simp: wp_return split: option.splits
        intro!: wp_conseq [OF cleanupPackedWAIT_grows] intro: batch_grows_trans)
  show ?thesis
    unfolding finishOverrunChunk_def
    by (rule wp_seq [OF mark], rule wp_seq [OF suffix], assumption, rule wp_seq [OF wp_True], rule wp_seq [OF clean])
       (simp_all add: wp_return)
qed

lemma commitOverrunChunk_post:
  assumes "start \<le> end" "end \<le> length (bt_ops b)"
  shows "wp (commitOverrunChunk E ctx start end b)
     (\<lambda>r s. batch_grows b (snd r) \<and> resolved_in start end (snd r)) s"
proof -
  let ?P = "\<lambda>b'. batch_grows b b' \<and> resolved_in start end b'"
  have suffix: "?P (resolveSuffix start b)"
    using resolveSuffix_post(1) [of b start] resolveSuffix_post(2) [of start b] assms(2)
    by (auto simp: resolved_in_def)
  have fail: "wp (failOverrunExchange start end e b) (\<lambda>r s. ?P (snd r)) s" for e and s :: "'a swd_conn \<times> 'a"
    unfolding failOverrunExchange_def by (simp add: wp_simps on_ops_grows on_ops_resolves)
  have observe: "wp (observeOverrunChunk start rs b) (\<lambda>r s. ?P (snd r)) s"
    if "length rs = end - start" for rs and s :: "'a swd_conn \<times> 'a"
    unfolding observeOverrunChunk_def
    using observe_chunk_post [of start rs] that assms(1)
    by (fastforce simp: wp_simps split: prod.splits)
  have finish: "wp (finishOverrunChunk E cctx start end errs pending exempt b') (\<lambda>r s. ?P (snd r)) s"
    if "?P b'" for cctx errs pending exempt b' s
    by (rule wp_conseq [OF finishOverrunChunk_grows])
       (use that in \<open>auto intro: batch_grows_trans resolved_in_grows\<close>)
  have len: "length (decodeOverrunChunk input start end b) = end - start" for input
    by (simp add: decodeOverrunChunk_def)
  have exchanged: "wp (case x of
           Inl e \<Rightarrow> do {
             f \<leftarrow> failOverrunExchange start end e b;
             e1 \<leftarrow> swd_completionError E ctx (Some (fst f));
             ret (e1, snd f)
           }
         | Inr input \<Rightarrow> do {
             obs \<leftarrow> observeOverrunChunk start (decodeOverrunChunk input start end b) b;
             f \<leftarrow> finishOverrunChunk E cctx start end (map snd (decodeOverrunChunk input start end b))
                   (fst (fst obs)) (snd (fst obs)) (snd obs);
             e1 \<leftarrow> swd_completionError E ctx (fst f);
             ret (e1, snd f)
           }) (\<lambda>r s. ?P (snd r)) s" for x cctx s
  proof (cases x)
    case (Inl e)
    show ?thesis
      unfolding Inl sum.case
      by (rule wp_seq [OF fail], rule wp_seq [OF wp_True]) (simp add: wp_return)
  next
    case (Inr input)
    show ?thesis
      unfolding Inr sum.case
      by (rule wp_seq [OF observe [OF len]], rule wp_seq [OF finish], assumption, rule wp_seq [OF wp_True])
         (simp add: wp_return)
  qed
  show ?thesis
    unfolding commitOverrunChunk_def Let_def
    by (auto simp: wp_return suffix split: sum.split intro!: wp_seq [OF wp_True] exchanged)
qed


lemma commit_chunks_finishes:
  assumes "batch_grows b0 b" "resolved_in 0 start b" "start \<le> length (bt_ops b0)" "0 < frames"
    "length (bt_ops b0) \<le> start + fuel"
  shows "wp (commit_chunks fuel E ctx frames start b) (\<lambda>r s. finished b0 (snd r)) s"
  using assms
proof (induction fuel arbitrary: start b s)
  case 0
  then show ?case by (simp add: wp_return finished_def)
next
  case (Suc fuel)
  note len = batch_grows_length [OF Suc.prems(1)]
  show ?case
  proof (cases "start < length (bt_ops b)")
    case False
    then have "start = length (bt_ops b0)" using Suc.prems(3) len by simp
    then show ?thesis using False Suc.prems by (simp add: wp_return finished_def)
  next
    case True
    have accepted: "b' = b" if "validateRuntimeOperation c start b = (None, b')" for c :: "'a swd_conn" and b'
      using validateRuntimeOperation_post(3) [OF that] by simp
    have refused: "finished b0 (resolveSuffix (Suc start) b')"
      if "validateRuntimeOperation c start b = (Some x, b')" for c :: "'a swd_conn" and b' x
    proof -
      note post = validateRuntimeOperation_post [OF that]
      have "resolved_in 0 (Suc start) b'"
        using resolved_in_join [of 0 start b' "Suc start"] resolved_in_grows [OF post(1)] post(2) Suc.prems(2)
        by auto
      then show ?thesis
        by (rule finish_suffix [OF batch_grows_trans [OF Suc.prems(1) post(1)]])
    qed
    have chunk: "wp (do {
          r \<leftarrow> commitOverrunChunk E ctx start end b;
          case r of
            (Some x, b) \<Rightarrow> ret (Some x, resolveSuffix end b)
          | (None, b) \<Rightarrow> commit_chunks fuel E ctx frames end b }) (\<lambda>r s. finished b0 (snd r)) s"
      if "start < end" "end \<le> length (bt_ops b)" for "end" s
    proof (rule wp_seq [OF commitOverrunChunk_post], goal_cases)
      case (3 r s')
      have b': "batch_grows b0 (snd r)" "resolved_in 0 end (snd r)"
        using 3 Suc.prems(1,2) resolved_in_join resolved_in_grows batch_grows_trans by blast+
      have "wp (commit_chunks fuel E ctx frames end (snd r)) (\<lambda>r s. finished b0 (snd r)) s'"
        by (rule Suc.IH [OF b']) (use that len Suc.prems in auto)
      then show ?case
        using finish_suffix [OF b'] by (auto simp: wp_return split: prod.splits option.splits)
    qed (use that in simp_all)
    have bounds: "start < overrunChunkEnd c b start (min (start + frames) (length (bt_ops b)))"
      "overrunChunkEnd c b start (min (start + frames) (length (bt_ops b))) \<le> length (bt_ops b)"
      for c :: "'a swd_conn"
      using overrunChunkEnd_bounds [of start "min (start + frames) (length (bt_ops b))" c b] True Suc.prems(4)
      by auto
    show ?thesis
      using True finish_suffix [OF Suc.prems(1,2)]
      by (auto simp: Let_def wp_return wp_prog wp_bind [of "outside _"] wp_bind [of "fetch _"]
          split: prod.splits option.splits dest!: accepted intro: refused intro!: chunk bounds)
  qed
qed

lemma validate_requests_grows: "list_all2 op_grows ops (fst (validate_requests i ops))"
  by (induction ops arbitrary: i)
     (auto simp: op_grows_def [of _ "_ :: batchOp"] op_core_def case_prod_beta split: sum.splits)

lemma validate_shadow_grows: "list_all2 op_grows ops (fst (validate_shadow i c ops))"
  by (induction ops arbitrary: i c)
     (auto simp: op_grows_def [of _ "_ :: batchOp"] op_core_def case_prod_beta split: option.splits)

lemma batch_validate_grows: "wp (batch_validate E ctx b) (\<lambda>r s. batch_grows b (snd r)) s"
proof -
  obtain ops errs where r: "validate_requests 0 (bt_ops b) = (ops, errs)" by (cases "validate_requests 0 (bt_ops b)")
  have ops: "list_all2 op_grows (bt_ops b) ops"
    using validate_requests_grows [of "bt_ops b" 0] r by simp
  have shadow: "list_all2 op_grows (bt_ops b) ops'" if "validate_shadow 0 c ops = (ops', e)" for c :: "'a swd_conn" and ops' e
  proof (rule list_all2_trans [OF op_grows_trans ops])
    show "list_all2 op_grows ops ops'"
      using validate_shadow_grows [of ops 0 c] that by simp
  qed
  show ?thesis
    unfolding batch_validate_def r
    using ops shadow by (auto simp: wp_simps Let_def batch_grows_def split: prod.splits option.splits)
qed

lemma transferLimit_positive: "transferLimit W w = Inr limit \<Longrightarrow> 0 < limit div fixedFrameBits"
  by (auto simp: transferLimit_def fixedFrameBits_def Let_def split: option.splits if_splits)

lemma Commit_finishes:
  assumes "\<not> bt_committed b"
  shows "wp (Batch_Commit E ctx b) (\<lambda>r s. finished (b\<lparr>bt_committed := True\<rparr>) (snd r)) s"
proof -
  let ?b = "b\<lparr>bt_committed := True\<rparr>"
  let ?Q = "\<lambda>r s. finished ?b (snd r)"
  have suffix: "finished ?b (resolveSuffix 0 b')" if "batch_grows ?b b'" for b'
    by (rule finish_suffix [OF that]) simp
  have invalid: "finished ?b (resolveInvalid b')" if "batch_grows ?b b'" for b'
    using resolveInvalid_post [of b'] that batch_grows_length [OF that]
    by (auto simp: finished_def intro: batch_grows_trans)
  have sequential: "wp (commitSequential E ctx b') ?Q s" if "batch_grows ?b b'" for b' and s :: "'a swd_conn \<times> 'a"
    using commit_sequential_finishes [OF that, of 0] batch_grows_length [OF that]
    by (simp add: commitSequential_def)
  have packed: "wp (commitOverrun E ctx limit b') ?Q s" if "batch_grows ?b b'" "0 < limit div fixedFrameBits"
    for b' limit and s :: "'a swd_conn \<times> 'a"
    unfolding commitOverrun_def
    by (rule commit_chunks_finishes [OF that(1)]) (use batch_grows_length [OF that(1)] that(2) in simp_all)
  have "wp (commit_validated E ctx b') ?Q (c, w)" if "batch_grows ?b b'" for b' c w
  proof (cases "sc_wire c")
    case None
    then show ?thesis
      unfolding commit_validated_def
      using sequential [OF that] packed [OF that, of fixedFrameBits]
      by (simp add: wp_bind wp_prog wp_return fixedFrameBits_def)
  next
    case (Some W)
    then show ?thesis
      unfolding commit_validated_def
      using sequential [OF that] packed [OF that transferLimit_positive] suffix [OF that]
      by (auto simp: wp_bind wp_prog wp_return split: sum.splits)
  qed
  then have "wp (case v of (Some e, b) \<Rightarrow> ret (Some e, resolveInvalid b)
       | (None, b) \<Rightarrow> commit_validated E ctx b) ?Q s" if "batch_grows ?b (snd v)" for v s
    using that invalid by (cases v; cases s; cases "fst v") (simp_all add: wp_return)
  then show ?thesis
    unfolding Batch_Commit_def Let_def
    using assms by (auto simp: wp_return finished_def intro!: wp_seq [OF batch_validate_grows])
qed

end
