(* ===== verification/Swd_Reachable.thy ===== *)
theory Swd_Reachable
  imports Swd_Batch
begin

text \<open>
  The calls of \<open>src/swd\<close> as one step relation on a connection and its world, the invariant of every
  reachable connection, and the life of a batch.
\<close>

section \<open>The invariant across commits\<close>

definition swd_busy :: "'w swd_conn \<Rightarrow> bool" where
  "swd_busy c \<longleftrightarrow> swd_inv c \<and> sc_state c \<noteq> connectionIdle"

lemma swd_busy_requireRepair: "swd_busy c \<Longrightarrow> swd_busy (requireRepair c)"
  by (simp add: swd_busy_def swd_inv_requireRepair)

lemma observeTransfer_state:
  assumes "swd_inv c" "sc_state c \<noteq> connectionIdle"
  shows "sc_state (observeTransfer req result data e c) \<noteq> connectionIdle"
  using assms(2) by (simp add: observeTransfer_def Let_def observePendingSelection_inv(2) [OF assms])

lemma swd_busy_observeTransfer: "swd_busy c \<Longrightarrow> swd_busy (observeTransfer req result data e c)"
  by (simp add: swd_busy_def observeTransfer_inv observeTransfer_state)

lemma swd_busy_disturbed: "swd_busy c \<Longrightarrow> disturbed c e c' \<Longrightarrow> swd_busy c'"
  by (auto simp: disturbed_def swd_busy_requireRepair)

lemma busy_executeFrame [keeps_intros]: "keeps (\<lambda>s. swd_busy (fst s)) (swd_executeFrame E ctx req data)"
proof -
  have "wp (swd_executeFrame E ctx req data) (\<lambda>_ s. swd_busy (fst s)) (c, w)" if "swd_busy c" for c w
    by (rule wp_executeFrame) (simp add: swd_busy_disturbed [OF that])
  then show ?thesis by (simp add: keeps_def)
qed

lemma busy_updates [keeps_intros]:
  "keeps (\<lambda>s. swd_busy (fst s)) (update requireRepair)"
  "keeps (\<lambda>s. swd_busy (fst s)) (update (observeTransfer req result data e))"
  by (rule keeps_update, erule swd_busy_requireRepair swd_busy_observeTransfer)+

lemmas busy_world [keeps_intros] =
  only_world_keeps [OF only_world_completionContext, of swd_busy]
  only_world_keeps [OF only_world_completionError, of swd_busy]
  only_world_keeps [OF only_world_transferFrame, of swd_busy]

lemma busy_transfer [keeps_intros]: "keeps (\<lambda>s. swd_busy (fst s)) (swd_transfer E ctx req data)"
  unfolding swd_transfer_def by (intro keeps_intros)

lemma busy_sequential [keeps_intros]:
  "keeps (\<lambda>s. swd_busy (fst s)) (commit_sequential_ops E ctx is b)"
proof (induction "is" arbitrary: b)
  case Nil
  show ?case unfolding commit_sequential_ops.simps by (intro keeps_intros)
next
  case (Cons i js)
  show ?case unfolding commit_sequential_ops.simps Let_def by (intro keeps_intros Cons)
qed

lemma observe_chunk_busy:
  "observe_chunk i rs (c, b) = (r, (c', b')) \<Longrightarrow> swd_busy c \<Longrightarrow> swd_busy c'"
proof (induction rs arbitrary: i c b r)
  case Nil
  then show ?case by simp
next
  case (Cons x rs)
  let ?op = "bt_ops b ! i"
  let ?c = "if snd x = Some ErrWait \<and> sc_selectPending c then c
            else observeTransfer (bo_req ?op) (fst x) (bo_data ?op) (snd x) c"
  obtain r' where "observe_chunk (i + 1) rs (?c, on_op i (resolve_op (fst x) (snd x)) b) = (r', (c', b'))"
    using Cons.prems(1) by (auto simp: Let_def split: prod.splits)
  moreover have "swd_busy ?c"
    using Cons.prems(2) by (simp add: swd_busy_observeTransfer)
  ultimately show ?case by (rule Cons.IH)
qed

lemma busy_observeOverrunChunk [keeps_intros]:
  "keeps (\<lambda>s. swd_busy (fst s)) (observeOverrunChunk start rs b)"
  unfolding observeOverrunChunk_def keeps_def
  by (auto simp: wp_simps dest: observe_chunk_busy split: prod.splits)

lemma busy_validate_abandoned [keeps_intros]:
  "keeps (\<lambda>s. swd_busy (fst s)) (validate_abandoned first end start exempt is b)"
proof (induction "is")
  case Nil
  show ?case unfolding validate_abandoned.simps by (intro keeps_intros)
next
  case (Cons i js)
  show ?case unfolding validate_abandoned.simps Let_def by (intro keeps_intros Cons)
qed

lemma busy_commitOverrunChunk [keeps_intros]:
  "keeps (\<lambda>s. swd_busy (fst s)) (commitOverrunChunk E ctx start end b)"
  unfolding commitOverrunChunk_def failOverrunExchange_def finishOverrunChunk_def validateAbandonedSuffix_def
    cleanupPackedWAIT_def swd_clearOverrunAfterWAIT_def Let_def
  by (intro keeps_intros)

lemma busy_commit_chunks [keeps_intros]:
  "keeps (\<lambda>s. swd_busy (fst s)) (commit_chunks fuel E ctx frames start b)"
proof (induction fuel arbitrary: start b)
  case 0
  show ?case unfolding commit_chunks.simps by (intro keeps_intros)
next
  case (Suc fuel)
  show ?case unfolding commit_chunks.simps Let_def by (intro keeps_intros Suc)
qed

lemma busy_commit_validated: "keeps (\<lambda>s. swd_busy (fst s)) (commit_validated E ctx b)"
  unfolding commit_validated_def commitSequential_def commitOverrun_def by (intro keeps_intros)

lemma batch_validate_ready:
  "wp (batch_validate E ctx b) (\<lambda>r s. fst s = c \<and> (if fst r = None then sc_state c = connectionReady else True)) (c, w)"
  unfolding batch_validate_def
  by (auto simp: wp_simps Let_def split: prod.splits option.splits)

lemma Commit_inv:
  assumes "swd_inv c"
  shows "wp (Batch_Commit E ctx b) (\<lambda>_ s. swd_inv (fst s)) (c, w)"
proof -
  have run: "wp (commit_validated E ctx b') (\<lambda>_ s. swd_inv (fst s)) (c, w')"
    if "sc_state c = connectionReady" for b' w'
    by (rule wp_conseq [OF keeps_wp [OF busy_commit_validated]]) (use that assms in \<open>auto simp: swd_busy_def\<close>)
  show ?thesis
    unfolding Batch_Commit_def Let_def
    using assms
    by (auto simp: wp_return split: option.splits prod.splits
        intro!: wp_seq [OF batch_validate_ready] run)
qed

section \<open>Reachable connections\<close>

text \<open>One call of the connection's interface.\<close>

inductive swd_step :: "'w go_env \<Rightarrow> 'w swd_conn \<times> 'w \<Rightarrow> 'w swd_conn \<times> 'w \<Rightarrow> bool" for E where
  step_Connect: "run_state (swd_Connect E ctx options) s = (r, s') \<Longrightarrow> swd_step E s s'"
| step_Release: "run_state (swd_Release E ctx) s = (r, s') \<Longrightarrow> swd_step E s s'"
| step_ReadDP: "run_state (swd_ReadDP E ctx addr) s = (r, s') \<Longrightarrow> swd_step E s s'"
| step_WriteDP: "run_state (swd_WriteDP E ctx addr data) s = (r, s') \<Longrightarrow> swd_step E s s'"
| step_ReadAP: "run_state (swd_ReadAP E ctx addr) s = (r, s') \<Longrightarrow> swd_step E s s'"
| step_WriteAP: "run_state (swd_WriteAP E ctx addr data) s = (r, s') \<Longrightarrow> swd_step E s s'"
| step_LineReset: "run_state (swd_LineReset E ctx) s = (r, s') \<Longrightarrow> swd_step E s s'"
| step_JTAGToSWD: "run_state (swd_JTAGToSWD E ctx) s = (r, s') \<Longrightarrow> swd_step E s s'"
| step_Commit: "run_state (Batch_Commit E ctx b) s = (r, s') \<Longrightarrow> swd_step E s s'"

inductive_cases swd_stepE: "swd_step E s s'"

lemma swd_step_inv:
  assumes "swd_step E s s'" "swd_inv (fst s)"
  shows "swd_inv (fst s')"
proof -
  obtain c w where s: "s = (c, w)" by (cases s)
  show ?thesis
    using assms unfolding s
    by (elim swd_stepE)
       (auto simp: swd_ReadDP_def swd_WriteDP_def swd_ReadAP_def swd_WriteAP_def
         dest: Connect_inv [THEN wp_run] Release_inv [THEN wp_run] register_inv [THEN wp_run]
           entry_inv [THEN wp_run] Commit_inv [THEN wp_run])
qed

lemma swd_reachable:
  "(swd_step E)\<^sup>*\<^sup>* s s' \<Longrightarrow> swd_inv (fst s) \<Longrightarrow> swd_inv (fst s')"
  by (induction rule: rtranclp_induct) (auto dest: swd_step_inv)

text \<open>
  C17: whatever calls are made on a new connection, with any wire, world and contexts, it owes a
  \<open>Release\<close> exactly when it is not idle; then it has a wire and a DPIDR with the constant bit set. An
  idle connection uses the simple grammar and trusts no bank; a SELECT waits for confirmation only
  while a bank is recorded.
\<close>

theorem swd_connection_invariant:
  assumes "(swd_step E)\<^sup>*\<^sup>* (swd_New W options, w) (c, w')"
  shows "swd_CleanupPending c = (sc_state c \<noteq> connectionIdle) \<and>
     (if swd_CleanupPending c
      then sc_wire c \<noteq> None \<and> sc_identityKnown c \<and> sc_identity c AND 1 \<noteq> 0
      else sc_response c = responseSimple \<and> sc_bank c = no_bank \<and> \<not> sc_identityKnown c) \<and>
     (if sc_selectPending c then bs_valid (sc_bank c) else sc_priorBank c = no_bank)"
  using swd_reachable [OF assms] swd_New_inv [of W options]
  by (auto simp: swd_inv_def swd_idle_def bank_wf_def swd_CleanupPending_def split: if_splits)

theorem swd_connection_invariant_witness:
  "case snd (run_state (swd_Connect still_env Background []) (fresh_conn, ())) of (c, w) \<Rightarrow>
     swd_CleanupPending c = (sc_state c \<noteq> connectionIdle)"
proof -
  obtain r c w where "run_state (swd_Connect still_env Background []) (fresh_conn, ()) = (r, (c, w))"
    by (metis surj_pair)
  then have "(swd_step still_env)\<^sup>*\<^sup>* (swd_New (Some obliging_wire) [], ()) (c, w)"
    by (auto simp: fresh_conn_def intro: step_Connect)
  from swd_connection_invariant [OF this] show ?thesis
    using \<open>run_state _ _ = (r, (c, w))\<close> by simp
qed

section \<open>A batch is used once\<close>

text \<open>
  C22: \<open>Commit\<close> of a batch resolves the result of every queued operation, whatever the wire, the
  target and the contexts do, and keeps the operations as they were queued. The batch is then used up:
  a second \<open>Commit\<close> reports that, without traffic and without touching a result.
\<close>

theorem Commit_resolves_every_result:
  assumes "\<not> bt_committed b"
  shows "case run_state (Batch_Commit E ctx b) s of ((e, b'), s') \<Rightarrow>
     list_all (\<lambda>op. br_resolved (bo_result op)) (bt_ops b') \<and>
     map op_core (bt_ops b') = map op_core (bt_ops b) \<and>
     run_state (Batch_Commit E' ctx' b') s' = ((Some (Sentinel SwdErrBatchCommitted), b'), s')"
proof -
  obtain e b' s' where r: "run_state (Batch_Commit E ctx b) s = ((e, b'), s')" by (metis surj_pair)
  have "finished (b\<lparr>bt_committed := True\<rparr>) b'"
    using wp_run [OF Commit_finishes [OF assms] r] by simp
  then have grows: "batch_grows (b\<lparr>bt_committed := True\<rparr>) b'" and all: "resolved_in 0 (length (bt_ops b)) b'"
    by (simp_all add: finished_def)
  have "length (bt_ops b') = length (bt_ops b)"
    using batch_grows_length [OF grows] by simp
  then have "list_all (\<lambda>op. br_resolved (bo_result op)) (bt_ops b')"
    using all by (simp add: list_all_length resolved_in_def)
  moreover have "map op_core (bt_ops b') = map op_core (bt_ops b)"
    using grows
    by (auto simp: batch_grows_def list_all2_conv_all_nth op_grows_def intro: nth_equalityI)
  moreover have "bt_committed b'"
    using grows by (simp add: batch_grows_def)
  ultimately show ?thesis
    using r by (simp add: Batch_Commit_def)
qed

theorem Commit_resolves_every_result_witness:
  "case run_state (Batch_Commit still_env Background (snd (Batch_ReadDP 4 (snd (Batch_WriteDP 8 0 NewBatch)))))
      (fresh_conn, ()) of ((e, b'), s') \<Rightarrow>
     length (bt_ops b') = 2 \<and> list_all (\<lambda>op. br_resolved (bo_result op)) (bt_ops b')"
proof -
  let ?b = "snd (Batch_ReadDP 4 (snd (Batch_WriteDP 8 0 NewBatch)))"
  have b: "\<not> bt_committed ?b" "length (bt_ops ?b) = 2"
    by (simp_all add: Batch_ReadDP_def Batch_WriteDP_def batch_queue_def NewBatch_def)
  from Commit_resolves_every_result [OF b(1), where E = still_env and ctx = Background and s = "(fresh_conn, ())" and E' = still_env and ctx' = Background]
  show ?thesis
    using b(2) by (auto split: prod.splits) (metis length_map)
qed

end
