(* ===== verification/Swd_Sim.thy ===== *)
theory Swd_Sim
  imports Swd_Batch
begin

text \<open>
  The simulated wire: \<open>src/swd/sim/wire.go\<close>. A target is a record of functions on its state, with the
  optional interfaces as options; the wire's fields and the target's state are the world of the host
  connection. The host passes a bit count, which is never negative, so that the check of a negative
  count in \<open>validateSWDIO\<close> has no counterpart. The host's frames over this wire are shown to be
  transfers of the target.
\<close>

section \<open>Targets\<close>

record 't sim_target =
  st_Read :: "ctx \<Rightarrow> request \<Rightarrow> 't \<Rightarrow> (uint32 \<times> go_error) \<times> 't"
  st_Write :: "ctx \<Rightarrow> request \<Rightarrow> uint32 \<Rightarrow> 't \<Rightarrow> go_error \<times> 't"
  st_Acknowledge :: "(ctx \<Rightarrow> request \<Rightarrow> 't \<Rightarrow> go_error \<times> 't) option"
  st_OverrunDetectEnabled :: "('t \<Rightarrow> bool) option"
  st_ObserveResponse :: "(err \<Rightarrow> 't \<Rightarrow> 't) option"
  st_ObserveLineReset :: "('t \<Rightarrow> 't) option"

record 't sim_wire =
  sw_target :: 't
  sw_active :: bool
  sw_pending :: "request option"
  sw_pendingACK :: byte
  sw_maxBits :: int

definition sim_New :: "'t \<Rightarrow> 't sim_wire" where
  "sim_New t = \<lparr>sw_target = t, sw_active = False, sw_pending = None, sw_pendingACK = 0, sw_maxBits = 0\<rparr>"

definition sim_negative_limit :: "int \<Rightarrow> err" where
  "sim_negative_limit bits = New ''swd/sim: negative transfer limit %d'' [bits]"

definition sim_SetMaxTransferBits :: "int \<Rightarrow> 't sim_wire \<Rightarrow> go_error \<times> 't sim_wire" where
  "sim_SetMaxTransferBits bits w =
     (if bits < 0 then (Some (sim_negative_limit bits), w) else (None, w\<lparr>sw_maxBits := bits\<rparr>))"

definition sim_MaxTransferBits :: "'t sim_wire \<Rightarrow> int" where
  "sim_MaxTransferBits w = (if sw_maxBits w = 0 then 16384 else sw_maxBits w)"

section \<open>Bits\<close>

definition sim_allBits :: "byte list \<Rightarrow> nat \<Rightarrow> nat \<Rightarrow> bool \<Rightarrow> bool" where
  "sim_allBits buf offset count want = list_all (\<lambda>i. bitAt buf (offset + i) = want) [0..<count]"

definition sim_byteAt :: "byte list \<Rightarrow> nat \<Rightarrow> byte" where
  "sim_byteAt buf offset =
     fold (\<lambda>i value. if bitAt buf (offset + i) then value OR push_bit i 1 else value) [0..<8] 0"

definition sim_uint32At :: "byte list \<Rightarrow> nat \<Rightarrow> uint32" where
  "sim_uint32At buf offset =
     fold (\<lambda>i value. if bitAt buf (offset + i) then value OR push_bit i 1 else value) [0..<32] 0"

definition sim_setUint32At :: "nat \<Rightarrow> uint32 \<Rightarrow> byte list \<Rightarrow> byte list" where
  "sim_setUint32At offset value buf =
     fold (\<lambda>i buf. swd_setBit buf (offset + i) (drop_bit i value AND 1 \<noteq> 0)) [0..<32] buf"

definition sim_parity32 :: "uint32 \<Rightarrow> bool" where
  "sim_parity32 value =
     (let value = value XOR drop_bit 16 value;
          value = value XOR drop_bit 8 value;
          value = value XOR drop_bit 4 value;
          value = value XOR drop_bit 2 value;
          value = value XOR drop_bit 1 value
      in value AND 1 \<noteq> 0)"

definition sim_bad_header :: "byte \<Rightarrow> err" where
  "sim_bad_header header = New ''swd/sim: invalid request header %#02x'' [uint header]"

definition sim_decodeRequest :: "byte \<Rightarrow> err + request" where
  "sim_decodeRequest header =
     (let fields = drop_bit 1 header AND 0x0F in
      if header AND 0xC1 \<noteq> 0x81 \<or> (drop_bit 5 header AND 1 \<noteq> 0) \<noteq> sim_parity32 (ucast fields)
      then Inl (sim_bad_header header)
      else Inr \<lparr>req_ap = (fields AND 1 \<noteq> 0), req_read = (fields AND 2 \<noteq> 0),
                req_addr = push_bit 2 (drop_bit 2 fields)\<rparr>)"

definition sim_lineReset :: "byte list \<Rightarrow> byte list \<Rightarrow> nat \<Rightarrow> bool" where
  "sim_lineReset direction output bits =
     (bits = 64 \<and> sim_allBits direction 0 bits True \<and> sim_allBits output 0 56 True \<and>
      sim_allBits output 56 8 False)"

definition sim_jtagToSWD :: "byte list \<Rightarrow> byte list \<Rightarrow> nat \<Rightarrow> bool" where
  "sim_jtagToSWD direction output bits =
     (bits = 136 \<and> sim_allBits direction 0 bits True \<and> sim_allBits output 0 56 True \<and>
      sim_byteAt output 56 = 0x9E \<and> sim_byteAt output 64 = 0xE7 \<and>
      sim_allBits output 72 56 True \<and> sim_allBits output 128 8 False)"

definition protocolEntryResets :: "byte list \<Rightarrow> byte list \<Rightarrow> nat \<Rightarrow> nat" where
  "protocolEntryResets direction output bits =
     (if sim_lineReset direction output bits then 1
      else if sim_jtagToSWD direction output bits then 2 else 0)"

section \<open>What the wire asks of a target\<close>

definition overrunEnabled :: "'t sim_target \<Rightarrow> 't \<Rightarrow> bool" where
  "overrunEnabled T t = (case st_OverrunDetectEnabled T of None \<Rightarrow> False | Some f \<Rightarrow> f t)"

definition observeResponse :: "'t sim_target \<Rightarrow> byte \<Rightarrow> 't \<Rightarrow> 't" where
  "observeResponse T ack t =
     (case st_ObserveResponse T of
        None \<Rightarrow> t
      | Some observe \<Rightarrow>
          if ack = 1 then t
          else if ack = 2 then observe ErrWait t
          else if ack = 4 then observe ErrFault t
          else observe ErrProtocol t)"

definition observeLineReset :: "'t sim_target \<Rightarrow> nat \<Rightarrow> 't \<Rightarrow> 't" where
  "observeLineReset T resets t =
     (case st_ObserveLineReset T of None \<Rightarrow> t | Some observe \<Rightarrow> (observe ^^ resets) t)"

definition sim_acknowledge :: "'t sim_target \<Rightarrow> ctx \<Rightarrow> request \<Rightarrow> 't \<Rightarrow> (err + byte) \<times> 't" where
  "sim_acknowledge T ctx req t =
     (case st_Acknowledge T of
        None \<Rightarrow> (Inr 1, t)
      | Some acknowledge \<Rightarrow>
          (case acknowledge ctx req t of
             (None, t) \<Rightarrow> (Inr 1, t)
           | (Some e, t) \<Rightarrow>
               if err_is e SwdErrFault then (Inr 4, t)
               else if err_is e SwdErrWait then (Inr 2, t)
               else (Inl e, t)))"

section \<open>Exchanges\<close>

definition sim_bad_request_direction :: err where
  "sim_bad_request_direction = New ''swd/sim: invalid request direction'' []"
definition sim_no_target :: err where
  "sim_no_target = New ''swd/sim: no target is configured'' []"
definition sim_bad_read_direction :: err where
  "sim_bad_read_direction = New ''swd/sim: invalid read-data direction'' []"
definition sim_bad_write_direction :: err where
  "sim_bad_write_direction = New ''swd/sim: invalid write-data direction'' []"
definition sim_bad_write_parity :: err where
  "sim_bad_write_parity = New ''swd/sim: invalid write-data parity'' []"
definition sim_bad_cleanup :: err where
  "sim_bad_cleanup = New ''swd/sim: invalid transfer cleanup after WAIT or FAULT'' []"
definition sim_needs_data_phase :: err where
  "sim_needs_data_phase = New ''swd/sim: overrun response requires a data phase'' []"

type_synonym 't sim_reply = "(byte list \<times> go_error) \<times> 't sim_wire"

definition ack_bits :: "nat \<Rightarrow> byte \<Rightarrow> byte list \<Rightarrow> byte list" where
  "ack_bits offset ack input =
     fold (\<lambda>i input. swd_setBit input (offset + i) (drop_bit i ack AND 1 \<noteq> 0)) [0..<3] input"

definition sim_request ::
  "'t sim_target option \<Rightarrow> ctx \<Rightarrow> byte list \<Rightarrow> byte list \<Rightarrow> nat \<Rightarrow> 't sim_wire \<Rightarrow> 't sim_reply" where
  "sim_request target ctx direction output bits w =
     (if bits \<noteq> 12 \<or> \<not> sim_allBits direction 0 8 True \<or> \<not> sim_allBits direction 8 4 False
      then (([], Some sim_bad_request_direction), w)
      else
        (case sim_decodeRequest (sim_byteAt output 0) of
           Inl e \<Rightarrow> (([], Some e), w)
         | Inr req \<Rightarrow>
             (case target of
                None \<Rightarrow> (([], Some sim_no_target), w)
              | Some T \<Rightarrow>
                  (case sim_acknowledge T ctx req (sw_target w) of
                     (Inl e, t) \<Rightarrow> (([], Some e), w\<lparr>sw_target := t\<rparr>)
                   | (Inr ack, t) \<Rightarrow>
                       ((ack_bits 9 ack [0, 0], None),
                        w\<lparr>sw_target := observeResponse T ack t, sw_pending := Some req,
                          sw_pendingACK := ack\<rparr>)))))"

definition sim_failedACK :: "byte list \<Rightarrow> byte list \<Rightarrow> nat \<Rightarrow> byte list \<times> go_error" where
  "sim_failedACK direction output bits =
     (if bits \<noteq> 9 \<or> bitAt direction 0 \<or> \<not> sim_allBits direction 1 8 True \<or> \<not> sim_allBits output 1 8 False
      then ([], Some sim_bad_cleanup) else ([0, 0], None))"

definition sim_read ::
  "'t sim_target \<Rightarrow> ctx \<Rightarrow> byte list \<Rightarrow> byte list \<Rightarrow> nat \<Rightarrow> request \<Rightarrow> 't sim_wire \<Rightarrow> 't sim_reply" where
  "sim_read T ctx direction output bits req w =
     (if bits \<noteq> 42 \<or> \<not> sim_allBits direction 0 34 False \<or> \<not> sim_allBits direction 34 8 True \<or>
         \<not> sim_allBits output 34 8 False
      then (([], Some sim_bad_read_direction), w)
      else
        (case st_Read T ctx req (sw_target w) of
           ((value, e), t) \<Rightarrow>
             (if e \<noteq> None \<and> e \<noteq> Some ErrParity then ([], e)
              else (swd_setBit (sim_setUint32At 0 value (replicate 6 0)) 32
                      (sim_parity32 value \<noteq> (e = Some ErrParity)), None),
              w\<lparr>sw_target := t\<rparr>)))"

definition sim_write ::
  "'t sim_target \<Rightarrow> ctx \<Rightarrow> byte list \<Rightarrow> byte list \<Rightarrow> nat \<Rightarrow> request \<Rightarrow> 't sim_wire \<Rightarrow> 't sim_reply" where
  "sim_write T ctx direction output bits req w =
     (if bits \<noteq> 42 \<or> bitAt direction 0 \<or> \<not> sim_allBits direction 1 41 True \<or> \<not> sim_allBits output 34 8 False
      then (([], Some sim_bad_write_direction), w)
      else
        (let value = sim_uint32At output 1 in
         if bitAt output 33 \<noteq> sim_parity32 value then (([], Some sim_bad_write_parity), w)
         else (case st_Write T ctx req value (sw_target w) of
                 (e, t) \<Rightarrow> ((replicate 6 0, e), w\<lparr>sw_target := t\<rparr>))))"

text \<open>A pending request exists only with a target; the code would dereference a nil one.\<close>

definition sim_data ::
  "'t sim_target option \<Rightarrow> ctx \<Rightarrow> byte list \<Rightarrow> byte list \<Rightarrow> nat \<Rightarrow> request \<Rightarrow> 't sim_wire \<Rightarrow> 't sim_reply" where
  "sim_data target ctx direction output bits req w =
     (let w = w\<lparr>sw_pending := None\<rparr> in
      case target of
        None \<Rightarrow> (([], Some sim_no_target), w)
      | Some T \<Rightarrow>
          if sw_pendingACK w \<noteq> 1 then
            (if overrunEnabled T (sw_target w) then (([], Some sim_needs_data_phase), w)
             else (sim_failedACK direction output bits, w))
          else if req_read req then sim_read T ctx direction output bits req w
          else sim_write T ctx direction output bits req w)"

section \<open>Packed frames\<close>

definition sim_bad_fixed_direction :: err where
  "sim_bad_fixed_direction = New ''swd/sim: invalid fixed request direction'' []"
definition sim_bad_fixed_read :: err where
  "sim_bad_fixed_read = New ''swd/sim: invalid fixed read direction'' []"
definition sim_bad_fixed_write :: err where
  "sim_bad_fixed_write = New ''swd/sim: invalid fixed write direction'' []"
definition sim_fixed_idle :: err where
  "sim_fixed_idle = New ''swd/sim: fixed frame idle cycles must be low'' []"
definition sim_needs_overrun :: err where
  "sim_needs_overrun = New ''swd/sim: fixed response frame requires ORUNDETECT'' []"
definition sim_bad_fixed_parity :: err where
  "sim_bad_fixed_parity = New ''swd/sim: invalid fixed write-data parity'' []"

definition validateFixedDirection :: "request \<Rightarrow> byte list \<Rightarrow> nat \<Rightarrow> go_error" where
  "validateFixedDirection req direction offset =
     (if req_read req
      then (if \<not> sim_allBits direction (offset + 12) 34 False \<or> \<not> sim_allBits direction (offset + 46) 8 True
            then Some sim_bad_fixed_read else None)
      else (if \<not> sim_allBits direction (offset + 12) 1 False \<or> \<not> sim_allBits direction (offset + 13) 41 True
            then Some sim_bad_fixed_write else None))"

definition sim_fixedRead ::
  "'t sim_target \<Rightarrow> ctx \<Rightarrow> byte list \<Rightarrow> request \<Rightarrow> nat \<Rightarrow> 't sim_wire \<Rightarrow> 't sim_reply" where
  "sim_fixedRead T ctx input req offset w =
     (case st_Read T ctx req (sw_target w) of
        ((value, e), t) \<Rightarrow>
          (if e \<noteq> None \<and> e \<noteq> Some ErrParity then (input, e)
           else (swd_setBit (sim_setUint32At (offset + 12) value input) (offset + 44)
                   (sim_parity32 value \<noteq> (e = Some ErrParity)), None),
           w\<lparr>sw_target := t\<rparr>))"

definition sim_fixedWrite ::
  "'t sim_target \<Rightarrow> ctx \<Rightarrow> byte list \<Rightarrow> byte list \<Rightarrow> request \<Rightarrow> nat \<Rightarrow> 't sim_wire \<Rightarrow> 't sim_reply" where
  "sim_fixedWrite T ctx output input req offset w =
     (let value = sim_uint32At output (offset + 13) in
      if bitAt output (offset + 45) \<noteq> sim_parity32 value then ((input, Some sim_bad_fixed_parity), w)
      else (case st_Write T ctx req value (sw_target w) of (e, t) \<Rightarrow> ((input, e), w\<lparr>sw_target := t\<rparr>)))"

definition sim_fixedFrame ::
  "'t sim_target option \<Rightarrow> ctx \<Rightarrow> byte list \<Rightarrow> byte list \<Rightarrow> byte list \<Rightarrow> nat \<Rightarrow> 't sim_wire \<Rightarrow> 't sim_reply" where
  "sim_fixedFrame target ctx direction output input offset w =
     (let overrun = (case target of None \<Rightarrow> False | Some T \<Rightarrow> overrunEnabled T (sw_target w)) in
      if \<not> sim_allBits direction offset 8 True \<or> \<not> sim_allBits direction (offset + 8) 4 False
      then ((input, Some sim_bad_fixed_direction), w)
      else
        (case sim_decodeRequest (sim_byteAt output offset) of
           Inl e \<Rightarrow> ((input, Some e), w)
         | Inr req \<Rightarrow>
             (case target of
                None \<Rightarrow> ((input, Some sim_no_target), w)
              | Some T \<Rightarrow>
                  (case validateFixedDirection req direction offset of
                     Some e \<Rightarrow> ((input, Some e), w)
                   | None \<Rightarrow>
                       if \<not> sim_allBits output (offset + 46) 8 False then ((input, Some sim_fixed_idle), w)
                       else
                         (case sim_acknowledge T ctx req (sw_target w) of
                            (Inl e, t) \<Rightarrow> ((input, Some e), w\<lparr>sw_target := t\<rparr>)
                          | (Inr ack, t) \<Rightarrow>
                              (let w = w\<lparr>sw_target := observeResponse T ack t\<rparr>;
                                   input = ack_bits (offset + 9) ack input
                               in if ack \<noteq> 1
                                  then ((input, if overrun then None else Some sim_needs_overrun), w)
                                  else if req_read req then sim_fixedRead T ctx input req offset w
                                  else sim_fixedWrite T ctx output input req offset w))))))"

primrec sim_fixed_frames ::
  "nat list \<Rightarrow> 't sim_target option \<Rightarrow> ctx \<Rightarrow> byte list \<Rightarrow> byte list \<Rightarrow> byte list \<Rightarrow> 't sim_wire \<Rightarrow> 't sim_reply" where
  "sim_fixed_frames [] target ctx direction output input w = ((input, None), w)"
| "sim_fixed_frames (offset # offsets) target ctx direction output input w =
     (case sim_fixedFrame target ctx direction output input offset w of
        ((_, Some e), w) \<Rightarrow> (([], Some e), w)
      | ((input, None), w) \<Rightarrow> sim_fixed_frames offsets target ctx direction output input w)"

text \<open>The offsets \<open>0, 54, ...\<close> below a multiple of 54.\<close>

definition sim_fixed ::
  "'t sim_target option \<Rightarrow> ctx \<Rightarrow> byte list \<Rightarrow> byte list \<Rightarrow> nat \<Rightarrow> 't sim_wire \<Rightarrow> 't sim_reply" where
  "sim_fixed target ctx direction output bits w =
     sim_fixed_frames (map (\<lambda>i. 54 * i) [0..<(bits + 53) div 54]) target ctx direction output
       (replicate (bytes_for bits) 0) w"

section \<open>The wire\<close>

definition sim_over_limit :: "nat \<Rightarrow> int \<Rightarrow> err" where
  "sim_over_limit bits limit = New ''swd/sim: %d-bit stream exceeds %d-bit transfer limit'' [int bits, limit]"
definition sim_short_buffers :: "nat \<Rightarrow> err" where
  "sim_short_buffers bits = New ''swd/sim: direction or output is too short for %d bits'' [int bits]"
definition sim_entry_pending :: err where
  "sim_entry_pending = New ''swd/sim: protocol entry during a pending data phase'' []"
definition sim_needs_entry :: err where
  "sim_needs_entry = New ''swd/sim: protocol entry is required'' []"

definition sim_validateSWDIO ::
  "'t sim_wire go_env \<Rightarrow> ctx \<Rightarrow> byte list \<Rightarrow> byte list \<Rightarrow> nat \<Rightarrow> 't sim_wire \<Rightarrow> go_error \<times> 't sim_wire" where
  "sim_validateSWDIO E ctx direction output bits w =
     (case ctx_Err E ctx w of
        (Some x, w) \<Rightarrow> (Some (Sentinel x), w)
      | (None, w) \<Rightarrow>
          if int bits > sim_MaxTransferBits w then (Some (sim_over_limit bits (sim_MaxTransferBits w)), w)
          else if length direction < bytes_for bits \<or> length output < bytes_for bits
          then (Some (sim_short_buffers bits), w)
          else (None, w))"

definition sim_SWDIO ::
  "'t sim_wire go_env \<Rightarrow> 't sim_target option \<Rightarrow> ctx \<Rightarrow> byte list \<Rightarrow> byte list \<Rightarrow> nat \<Rightarrow>
   't sim_wire \<Rightarrow> 't sim_reply" where
  "sim_SWDIO E target ctx direction output bits w =
     (case sim_validateSWDIO E ctx direction output bits w of
        (Some e, w) \<Rightarrow> (([], Some e), w)
      | (None, w) \<Rightarrow>
          if bits = 0 then (([], None), w)
          else
            (let resets = protocolEntryResets direction output bits in
             if resets \<noteq> 0 then
               (if sw_pending w \<noteq> None then (([], Some sim_entry_pending), w)
                else ((replicate (bytes_for bits) 0, None),
                      w\<lparr>sw_active := True, sw_pending := None,
                        sw_target := (case target of None \<Rightarrow> sw_target w
                                      | Some T \<Rightarrow> observeLineReset T resets (sw_target w))\<rparr>))
             else if \<not> sw_active w then (([], Some sim_needs_entry), w)
             else
               (case sw_pending w of
                  None \<Rightarrow>
                    if bits \<ge> 54 \<and> bits mod 54 = 0 then sim_fixed target ctx direction output bits w
                    else sim_request target ctx direction output bits w
                | Some req \<Rightarrow> sim_data target ctx direction output bits req w)))"

definition sim_swd_wire :: "'t sim_wire go_env \<Rightarrow> 't sim_target option \<Rightarrow> 't sim_wire swd_wire" where
  "sim_swd_wire E target =
     \<lparr>SWDIO = sim_SWDIO E target, swd_MaxTransferBits = Some sim_MaxTransferBits\<rparr>"

end
