(* ===== verification/Swd_Sim_Refine.thy ===== *)
theory Swd_Sim_Refine
  imports Swd_Sim
begin

text \<open>
  The connection over the simulated wire of \<open>src/swd/sim/wire.go\<close> refines its target: every frame
  that \<open>transferFrame\<close> of \<open>src/swd/transfer.go\<close> clocks, in either response grammar, is one
  transfer of the target, and frames packed into one exchange are the transfers one after the other.
  The abstract side is \<open>target_transfer\<close>, which knows no bits.
\<close>

section \<open>Parity and headers\<close>

lemma parity_upto_fold: "parity_upto (n + n) v = parity_upto n (v XOR drop_bit n (v :: 'a::len word))"
proof -
  have xor: "parity_upto k (a XOR b) = (parity_upto k a \<noteq> parity_upto k b)" for k and a b :: "'a word"
    by (induction k) (auto simp: bit_xor_iff)
  have "parity_upto (n + k) v = (parity_upto n v \<noteq> parity_upto k (drop_bit n v))" for k
    by (induction k) (auto simp: bit_drop_bit_eq)
  then show ?thesis by (simp add: xor)
qed

lemma sim_parity32_eq: "sim_parity32 v = parity32 v"
proof -
  have half: "parity_upto n u = parity_upto k (u XOR drop_bit k u)" if "n = k + k" for n k and u :: uint32
    unfolding that by (rule parity_upto_fold)
  have one: "parity_upto 1 u = (u AND 1 \<noteq> 0)" for u :: uint32
    using bit_shift [of 0 u] by simp
  have "parity_upto 32 u = parity_upto 16 (u XOR drop_bit 16 u)"
    "parity_upto 16 u = parity_upto 8 (u XOR drop_bit 8 u)"
    "parity_upto 8 u = parity_upto 4 (u XOR drop_bit 4 u)"
    "parity_upto 4 u = parity_upto 2 (u XOR drop_bit 2 u)"
    "parity_upto 2 u = parity_upto 1 (u XOR drop_bit 1 u)" for u :: uint32
    by (rule half, simp)+
  then show ?thesis
    unfolding sim_parity32_def Let_def parity32_upto by (simp only: one)
qed

lemma sim_decodeRequest_requestByte:
  assumes "wf_request req"
  shows "sim_decodeRequest (requestByte req) = Inr req"
proof -
  have "list_all2 (\<lambda>req b. sim_decodeRequest b = Inr req) all_requests
      [0x81, 0xA9, 0xB1, 0x99, 0xA5, 0x8D, 0x95, 0xBD, 0xA3, 0x8B, 0x93, 0xBB, 0x87, 0xAF, 0xB7, 0x9F :: byte]"
    by code_simp
  then have "list_all2 (\<lambda>req b. sim_decodeRequest b = Inr req) all_requests (map requestByte all_requests)"
    unfolding requestByte_table .
  then have "\<forall>req \<in> set all_requests. sim_decodeRequest (requestByte req) = Inr req"
    by (simp add: list_all2_map2 list_all2_same)
  with all_requests_complete [OF assms] show ?thesis by blast
qed

section \<open>Buffers\<close>

lemma bitAt_pack: "i < length bs \<Longrightarrow> bitAt (pack bs) i = bs ! i"
  by (simp add: bitAt_tbit tbit_pack)

lemma allBits_iff: "sim_allBits buf offset n want \<longleftrightarrow> (\<forall>i < n. bitAt buf (offset + i) = want)"
  by (auto simp: sim_allBits_def list_all_iff)

lemma sim_byteAt_shows: "(\<And>i. i < 8 \<Longrightarrow> bitAt buf (offset + i) = bit b i) \<Longrightarrow> sim_byteAt buf offset = b"
proof -
  assume *: "\<And>i. i < 8 \<Longrightarrow> bitAt buf (offset + i) = bit b i"
  have "sim_byteAt buf offset = collect_bits (\<lambda>i. bitAt buf (offset + i)) 8"
    by (simp add: sim_byteAt_def collect_bits_def)
  then show ?thesis using * by (auto intro!: bit_word_eqI simp: bit_collect_bits)
qed

lemma sim_uint32At_extract: "sim_uint32At buf offset = extractUint32At buf offset"
  by (simp add: sim_uint32At_def extractUint32At_def)

lemma tbit_set_bits:
  assumes "offset + n \<le> 8 * length buf"
  shows "length (fold (\<lambda>i buf. swd_setBit buf (offset + i) (P i)) [0..<n] buf) = length buf \<and>
    (\<forall>j. tbit (fold (\<lambda>i buf. swd_setBit buf (offset + i) (P i)) [0..<n] buf) j =
      (offset \<le> j \<and> j < offset + n \<and> P (j - offset) \<or> tbit buf j))"
  using assms
proof (induction n)
  case 0
  then show ?case by auto
next
  case (Suc n)
  let ?buf = "fold (\<lambda>i buf. swd_setBit buf (offset + i) (P i)) [0..<n] buf"
  have step: "fold (\<lambda>i buf. swd_setBit buf (offset + i) (P i)) [0..<Suc n] buf = or_bit ?buf (offset + n) (P n)"
    by (simp add: swd_setBit_or_bit)
  have IH: "length ?buf = length buf"
    "tbit ?buf j = (offset \<le> j \<and> j < offset + n \<and> P (j - offset) \<or> tbit buf j)" for j
    using Suc by simp_all
  have "offset + n < 8 * length ?buf" using Suc.prems IH(1) by simp
  note bit = tbit_or_bit [OF this, of "P n"]
  have "tbit (or_bit ?buf (offset + n) (P n)) j =
      (offset \<le> j \<and> j < offset + Suc n \<and> P (j - offset) \<or> tbit buf j)" for j
    unfolding bit IH(2) by (cases "j = offset + n") auto
  then show ?case
    unfolding step using IH(1) by simp
qed

lemma length_swd_setBit [simp]: "length (swd_setBit buf i v) = length buf"
  by (simp add: swd_setBit_or_bit)

lemma ack_bits_shows:
  assumes "offset + 3 \<le> 8 * length buf"
  shows "length (ack_bits offset ack buf) = length buf"
    "tbit (ack_bits offset ack buf) j = (offset \<le> j \<and> j < offset + 3 \<and> bit ack (j - offset) \<or> tbit buf j)"
  using tbit_set_bits [OF assms, of "\<lambda>i. drop_bit i ack AND 1 \<noteq> 0"]
  by (simp_all add: ack_bits_def bit_shift)

lemma sim_setUint32At_shows:
  assumes "offset + 32 \<le> 8 * length buf"
  shows "length (sim_setUint32At offset v buf) = length buf"
    "tbit (sim_setUint32At offset v buf) j = (offset \<le> j \<and> j < offset + 32 \<and> bit v (j - offset) \<or> tbit buf j)"
  using tbit_set_bits [OF assms, of "\<lambda>i. drop_bit i v AND 1 \<noteq> 0"]
  by (simp_all add: sim_setUint32At_def bit_shift)


section \<open>The transfers of a target\<close>

text \<open>
  What one request does to a target: \<open>Inl\<close> is a failure of the exchange itself, \<open>Inr\<close> a result
  that the response carries.
\<close>

definition target_transfer ::
  "'t sim_target \<Rightarrow> ctx \<Rightarrow> request \<Rightarrow> uint32 \<Rightarrow> 't \<Rightarrow> (err + uint32 \<times> go_error) \<times> 't" where
  "target_transfer T ctx req data t =
     (case sim_acknowledge T ctx req t of
        (Inl e, t) \<Rightarrow> (Inl e, t)
      | (Inr ack, t) \<Rightarrow>
          (let t = observeResponse T ack t in
           case ackError ack of
             Some e \<Rightarrow> (Inr (0, Some e), t)
           | None \<Rightarrow>
               if req_read req then
                 (case st_Read T ctx req t of
                    ((v, None), t) \<Rightarrow> (Inr (v, None), t)
                  | ((v, Some e), t) \<Rightarrow> (if e = ErrParity then Inr (0, Some ErrParity) else Inl e, t))
               else
                 (case st_Write T ctx req data t of
                    (None, t) \<Rightarrow> (Inr (0, None), t)
                  | (Some e, t) \<Rightarrow> (Inl e, t))))"

definition transfer_result :: "err + uint32 \<times> go_error \<Rightarrow> uint32 \<times> go_error" where
  "transfer_result r = (case r of Inl e \<Rightarrow> (0, Some e) | Inr p \<Rightarrow> p)"

lemma sim_acknowledge_ack: "sim_acknowledge T ctx req t = (Inr ack, t') \<Longrightarrow> ack \<in> {1, 2, 4}"
  by (auto simp: sim_acknowledge_def split: option.splits prod.splits if_splits)

text \<open>A frame of the host in two buffers, from a bit position on.\<close>

definition frame_bits :: "request \<Rightarrow> uint32 \<Rightarrow> (bool \<times> bool) list" where
  "frame_bits req v = fixed_bits 1 8 req v"

definition shows_frame :: "byte list \<Rightarrow> byte list \<Rightarrow> nat \<Rightarrow> request \<Rightarrow> uint32 \<Rightarrow> bool" where
  "shows_frame direction output offset req v \<longleftrightarrow>
     (\<forall>i < 54. bitAt direction (offset + i) = fst (frame_bits req v ! i) \<and>
               bitAt output (offset + i) = snd (frame_bits req v ! i))"

lemma fixed_bits_nth:
  "i < 8 \<Longrightarrow> frame_bits req v ! i = (True, bit (requestByte req) i)"
  "8 \<le> i \<Longrightarrow> i < 13 \<Longrightarrow> frame_bits req v ! i = (False, False)"
  "req_read req \<Longrightarrow> 13 \<le> i \<Longrightarrow> i < 46 \<Longrightarrow> frame_bits req v ! i = (False, False)"
  "\<not> req_read req \<Longrightarrow> 13 \<le> i \<Longrightarrow> i < 45 \<Longrightarrow> frame_bits req v ! i = (True, bit v (i - 13))"
  "\<not> req_read req \<Longrightarrow> frame_bits req v ! 45 = (True, parity32 v)"
  "46 \<le> i \<Longrightarrow> i < 54 \<Longrightarrow> frame_bits req v ! i = (True, False)"
  by (auto simp: frame_bits_def fixed_bits_def request_bits_def value_bits_def nth_append)

lemma fixed_bits_direction:
  "i < 54 \<Longrightarrow> fst (frame_bits req v ! i) = (i < 8 \<or> 46 \<le> i \<or> \<not> req_read req \<and> 13 \<le> i)"
  by (auto simp: frame_bits_def fixed_bits_def request_bits_def value_bits_def nth_append nth_Cons split: nat.splits)

lemma frame_checks:
  assumes "shows_frame direction output offset req v"
  shows "sim_allBits direction offset 8 True" "sim_allBits direction (offset + 8) 4 False"
    "sim_byteAt output offset = requestByte req"
    "validateFixedDirection req direction offset = None"
    "sim_allBits output (offset + 46) 8 False"
    "\<not> req_read req \<Longrightarrow> sim_uint32At output (offset + 13) = v"
    "\<not> req_read req \<Longrightarrow> bitAt output (offset + 45) = parity32 v"
proof -
  have d: "bitAt direction (offset + i) = fst (frame_bits req v ! i)"
    "bitAt output (offset + i) = snd (frame_bits req v ! i)" if "i < 54" for i
    using assms that by (simp_all add: shows_frame_def)
  have d': "bitAt direction (offset + k + i) = fst (frame_bits req v ! (k + i))"
    "bitAt output (offset + k + i) = snd (frame_bits req v ! (k + i))" if "k + i < 54" for i k
    using d [OF that] by (simp_all add: add.assoc)
  show "sim_allBits direction offset 8 True" "sim_allBits direction (offset + 8) 4 False"
    "sim_allBits output (offset + 46) 8 False" "sim_byteAt output offset = requestByte req"
    by (auto simp: allBits_iff d d' fixed_bits_nth intro!: sim_byteAt_shows)
  show "validateFixedDirection req direction offset = None"
    using d(1) [of 12] by (simp add: validateFixedDirection_def allBits_iff d' fixed_bits_direction)
  show "\<not> req_read req \<Longrightarrow> sim_uint32At output (offset + 13) = v"
    unfolding sim_uint32At_extract
    by (rule extractUint32At_shows) (simp add: bitAt_tbit [symmetric] d' fixed_bits_nth)
  show "\<not> req_read req \<Longrightarrow> bitAt output (offset + 45) = parity32 v"
    by (simp add: d fixed_bits_nth)
qed

text \<open>What a packed frame leaves in the response: zeros become this frame's answer.\<close>

definition blank :: "byte list \<Rightarrow> nat \<Rightarrow> bool" where
  "blank buf offset \<longleftrightarrow> offset + 54 \<le> 8 * length buf \<and> (\<forall>i < 54. \<not> tbit buf (offset + i))"

definition same_outside :: "nat \<Rightarrow> byte list \<Rightarrow> byte list \<Rightarrow> bool" where
  "same_outside offset buf buf' \<longleftrightarrow> length buf' = length buf \<and>
     (\<forall>j. j < offset \<or> offset + 54 \<le> j \<longrightarrow> tbit buf' j = tbit buf j)"

lemma response_ack:
  assumes "blank buf offset" "ack \<in> {1, 2, 4}"
  shows "readACK (ack_bits (offset + 9) ack buf) (offset + 9) = ack" "same_outside offset buf (ack_bits (offset + 9) ack buf)"
proof -
  have len: "offset + 9 + 3 \<le> 8 * length buf" using assms(1) by (simp add: blank_def)
  show "readACK (ack_bits (offset + 9) ack buf) (offset + 9) = ack"
    using assms(1) ack_bits_shows(2) [OF len, of ack]
    by (intro readACK_shows [OF _ assms(2)]) (auto simp: blank_def add.assoc)
  show "same_outside offset buf (ack_bits (offset + 9) ack buf)"
    using ack_bits_shows [OF len, of ack] by (auto simp: same_outside_def)
qed

lemma response_data:
  fixes v :: uint32 and p :: bool
  assumes "blank buf offset"
  defines "buf' \<equiv> swd_setBit (sim_setUint32At (offset + 12) v (ack_bits (offset + 9) 1 buf)) (offset + 44) p"
  shows "readACK buf' (offset + 9) = 1" "extractUint32At buf' (offset + 12) = v" "bitAt buf' (offset + 44) = p"
    "same_outside offset buf buf'"
proof -
  let ?a = "ack_bits (offset + 9) 1 buf"
  let ?d = "sim_setUint32At (offset + 12) v ?a"
  have len: "offset + 9 + 3 \<le> 8 * length buf" using assms(1) by (simp add: blank_def)
  note a = ack_bits_shows [OF len, of 1]
  have "offset + 12 + 32 \<le> 8 * length ?a" using assms(1) a by (simp add: blank_def)
  note d = sim_setUint32At_shows [OF this, of v]
  have last: "offset + 44 < 8 * length ?d" using assms(1) a d by (simp add: blank_def)
  have zero: "\<not> tbit buf j" if "offset \<le> j" "j < offset + 54" for j
  proof -
    have "j - offset < 54" using that by simp
    then have "\<not> tbit buf (offset + (j - offset))" using assms(1) unfolding blank_def by blast
    then show ?thesis using that(1) by simp
  qed
  have t: "tbit buf' j = (j = offset + 44 \<and> p \<or> offset + 12 \<le> j \<and> j < offset + 44 \<and> bit v (j - (offset + 12)) \<or>
      offset + 9 \<le> j \<and> j < offset + 12 \<and> bit (1 :: byte) (j - (offset + 9)) \<or> tbit buf j)" for j
    unfolding buf'_def swd_setBit_or_bit tbit_or_bit [OF last] d(2) a(2)
    by (cases "j = offset + 44") auto
  show "readACK buf' (offset + 9) = 1"
    by (rule readACK_shows) (auto simp: t zero)
  show "extractUint32At buf' (offset + 12) = v"
    by (rule extractUint32At_shows) (auto simp: t zero)
  show "bitAt buf' (offset + 44) = p"
    by (auto simp: bitAt_tbit t zero)
  show "same_outside offset buf buf'"
    using a d by (auto simp: same_outside_def t) (simp add: buf'_def)
qed

lemma decode_data:
  assumes "blank buf offset" "req_read req"
  shows "decodeFixedFrame (swd_setBit (sim_setUint32At (offset + 12) v (ack_bits (offset + 9) 1 buf)) (offset + 44) p)
     offset req = (if p = parity32 v then (v, None) else (0, Some ErrParity))"
proof -
  define B where "B = swd_setBit (sim_setUint32At (offset + 12) v (ack_bits (offset + 9) 1 buf)) (offset + 44) p"
  have B: "readACK B (offset + 9) = 1" "extractUint32At B (offset + 12) = v" "bitAt B (offset + 44) = p"
    unfolding B_def by (rule response_data [OF assms(1)])+
  have "offset + 12 + 32 = offset + 44" by simp
  with B(3) have "bitAt B (offset + 12 + 32) = p" by metis
  then show ?thesis
    unfolding B_def [symmetric] decodeFixedFrame_def Let_def B(1,2)
    using assms(2) by (simp add: ackError_def)
qed

lemma sim_fixedFrame_host:
  assumes frame: "shows_frame direction output offset req v" "wf_request req" and b: "blank input offset"
    and overrun: "overrunEnabled T (sw_target w)"
    and tt: "target_transfer T ctx req v (sw_target w) = (r, t')"
  shows "case r of
      Inl e \<Rightarrow> \<exists>input'. sim_fixedFrame (Some T) ctx direction output input offset w =
                 ((input', Some e), w\<lparr>sw_target := t'\<rparr>)
    | Inr p \<Rightarrow> \<exists>input'. sim_fixedFrame (Some T) ctx direction output input offset w =
                 ((input', None), w\<lparr>sw_target := t'\<rparr>) \<and>
               decodeFixedFrame input' offset req = p \<and> same_outside offset input input'"
proof -
  note checks = frame_checks [OF frame(1)] sim_decodeRequest_requestByte [OF frame(2)]
  obtain x t1 where ack: "sim_acknowledge T ctx req (sw_target w) = (x, t1)" by (metis surj_pair)
  show ?thesis
  proof (cases x)
    case (Inl e)
    then show ?thesis
      using checks ack tt by (auto simp: sim_fixedFrame_def target_transfer_def Let_def)
  next
    case (Inr a)
    have a: "a \<in> {1, 2, 4}" using sim_acknowledge_ack ack Inr by metis
    show ?thesis
    proof (cases "a = 1")
      case False
      then show ?thesis
        using checks ack tt Inr overrun a response_ack [OF b a]
        by (auto simp: sim_fixedFrame_def target_transfer_def Let_def ackError_def decodeFixedFrame_def)
    next
      case True
      let ?t = "observeResponse T 1 t1"
      have sim: "sim_fixedFrame (Some T) ctx direction output input offset w =
          (if req_read req then sim_fixedRead T ctx (ack_bits (offset + 9) 1 input) req offset (w\<lparr>sw_target := ?t\<rparr>)
           else sim_fixedWrite T ctx output (ack_bits (offset + 9) 1 input) req offset (w\<lparr>sw_target := ?t\<rparr>))"
        using checks ack Inr True by (simp add: sim_fixedFrame_def Let_def)
      show ?thesis
      proof (cases "req_read req")
        case r: True
        obtain u e t2 where "st_Read T ctx req ?t = ((u, e), t2)" by (metis surj_pair)
        then show ?thesis
          using sim r tt ack Inr True response_data(4) [OF b] decode_data [OF b r]
          by (cases e) (auto simp: target_transfer_def Let_def ackError_def sim_fixedRead_def sim_parity32_eq)
      next
        case r: False
        obtain e t2 where "st_Write T ctx req v ?t = (e, t2)" by (metis surj_pair)
        then show ?thesis
          using sim r tt ack Inr True checks(6,7) response_ack [OF b a]
          by (cases e) (auto simp: target_transfer_def Let_def ackError_def sim_fixedWrite_def sim_parity32_eq
              decodeFixedFrame_def)
      qed
    qed
  qed
qed


section \<open>Packed frames are sequential transfers\<close>

fun target_run ::
  "'t sim_target \<Rightarrow> ctx \<Rightarrow> (request \<times> uint32) list \<Rightarrow> 't \<Rightarrow> ((uint32 \<times> go_error) list \<times> 't) option" where
  "target_run T ctx [] t = Some ([], t)"
| "target_run T ctx ((req, v) # ops) t =
     (if \<not> overrunEnabled T t then None
      else case target_transfer T ctx req v t of
             (Inl e, t) \<Rightarrow> None
           | (Inr p, t) \<Rightarrow> map_option (\<lambda>(ps, t). (p # ps, t)) (target_run T ctx ops t))"

lemma length_target_run: "target_run T ctx ops t = Some (rs, t') \<Longrightarrow> length rs = length ops"
  by (induction T ctx ops t arbitrary: rs rule: target_run.induct) (auto split: prod.splits sum.splits if_splits)

lemma decodeFixedFrame_cong:
  assumes "\<And>i. i < 54 \<Longrightarrow> tbit a (offset + i) = tbit b (offset + i)"
  shows "decodeFixedFrame a offset req = decodeFixedFrame b offset req"
proof -
  have ack: "readACK a (offset + 9) = readACK b (offset + 9)"
    unfolding readACK_collect using assms by (intro collect_bits_cong) (simp add: add.assoc)
  have data: "extractUint32At a (offset + 12) = extractUint32At b (offset + 12)"
    unfolding extractUint32At_collect using assms by (intro collect_bits_cong) (simp add: add.assoc)
  have "bitAt a (offset + 12 + 32) = bitAt b (offset + 12 + 32)"
    unfolding bitAt_tbit using assms [of 44] by (simp add: add.assoc)
  with ack data show ?thesis by (simp only: decodeFixedFrame_def Let_def)
qed

lemma frames_run:
  assumes "\<And>j. k \<le> j \<Longrightarrow> j < k + length ops \<Longrightarrow>
      shows_frame direction output (54 * j) (fst (ops ! (j - k))) (snd (ops ! (j - k))) \<and>
      wf_request (fst (ops ! (j - k))) \<and> blank input (54 * j)"
    and "target_run T ctx ops (sw_target w) = Some (rs, t')"
  shows "\<exists>input'. sim_fixed_frames (map (\<lambda>i. 54 * i) [k..<k + length ops]) (Some T) ctx direction output input w =
      ((input', None), w\<lparr>sw_target := t'\<rparr>) \<and> length input' = length input \<and>
      (\<forall>j < 54 * k. tbit input' j = tbit input j) \<and>
      (\<forall>j < length ops. decodeFixedFrame input' (54 * (k + j)) (fst (ops ! j)) = rs ! j)"
  using assms
proof (induction ops arbitrary: k input w rs)
  case Nil
  then show ?case by simp
next
  case (Cons op ops)
  obtain req v where op: "op = (req, v)" by (cases op)
  obtain p t1 where tt: "target_transfer T ctx req v (sw_target w) = (Inr p, t1)"
    and over: "overrunEnabled T (sw_target w)"
    using Cons.prems(2) op by (auto split: if_splits prod.splits sum.splits)
  obtain ps where run: "target_run T ctx ops t1 = Some (ps, t')" and rs: "rs = p # ps"
    using Cons.prems(2) op tt over by auto
  have here: "shows_frame direction output (54 * k) req v" "wf_request req" "blank input (54 * k)"
    using Cons.prems(1) [of k] op by simp_all
  from sim_fixedFrame_host [OF here over tt] obtain input1 where
    first: "sim_fixedFrame (Some T) ctx direction output input (54 * k) w = ((input1, None), w\<lparr>sw_target := t1\<rparr>)"
    "decodeFixedFrame input1 (54 * k) req = p" "same_outside (54 * k) input input1" by auto
  have later: "shows_frame direction output (54 * j) (fst (ops ! (j - Suc k))) (snd (ops ! (j - Suc k))) \<and>
      wf_request (fst (ops ! (j - Suc k))) \<and> blank input1 (54 * j)" if "Suc k \<le> j" "j < Suc k + length ops" for j
  proof -
    have j: "(op # ops) ! (j - k) = ops ! (j - Suc k)"
    proof -
      have "j - k = Suc (j - Suc k)" using that(1) by simp
      then show ?thesis by simp
    qed
    have "blank input1 (54 * j)"
      using Cons.prems(1) [of j] that first(3) by (auto simp: blank_def same_outside_def)
    then show ?thesis using Cons.prems(1) [of j] that j by simp
  qed
  from Cons.IH [of "Suc k" input1 "w\<lparr>sw_target := t1\<rparr>" ps] later run obtain input' where
    rest: "sim_fixed_frames (map (\<lambda>i. 54 * i) [Suc k..<Suc k + length ops]) (Some T) ctx direction output input1
        (w\<lparr>sw_target := t1\<rparr>) = ((input', None), w\<lparr>sw_target := t'\<rparr>)"
    "length input' = length input1" "\<forall>j < 54 * Suc k. tbit input' j = tbit input1 j"
    "\<forall>j < length ops. decodeFixedFrame input' (54 * (Suc k + j)) (fst (ops ! j)) = ps ! j"
    by auto
  have "[k..<k + length (op # ops)] = k # [Suc k..<Suc k + length ops]"
    by (simp add: upt_rec)
  moreover have "decodeFixedFrame input' (54 * k) req = p"
    using first(2) decodeFixedFrame_cong [of input' "54 * k" input1] rest(3) by auto
  ultimately show ?case
    using first rest op rs
    by (intro exI [of _ input']) (auto simp: same_outside_def less_Suc_eq_0_disj add.left_commute)
qed


text \<open>A host connection on the simulated wire, between two transfers.\<close>

definition sim_ready :: "'t sim_wire go_env \<Rightarrow> 't sim_target \<Rightarrow> 't sim_wire swd_conn \<Rightarrow> 't sim_wire \<Rightarrow> bool" where
  "sim_ready E T c w \<longleftrightarrow> sc_wire c = Some (sim_swd_wire E (Some T)) \<and> sc_turnaround c = 1 \<and>
     sc_idleCycles c = 8 \<and> 0 < sc_completionTimeout c \<and> sw_active w \<and> sw_pending w = None \<and>
     54 \<le> sim_MaxTransferBits w"

lemma sim_exchange:
  assumes "sc_wire c = Some (sim_swd_wire E (Some T))" "0 < sc_completionTimeout c" "live E ctx"
    and "sim_SWDIO E (Some T) ctx (seq_direction q) (seq_output q) (seq_bits q) w = ((input, e), w')"
  shows "run_state (swd_exchange E ctx q) (c, w) =
    (case e of Some x \<Rightarrow> Inl x
     | None \<Rightarrow> if length input < bytes_for (seq_bits q)
               then Inl (swd_short_response (length input) (seq_bits q) (bytes_for (seq_bits q))) else Inr input,
     (c, w'))"
  using assms
  by (auto simp: swd_exchange_def bind_def swd_validateCompletion_def ctx_Err_def Let_def live_def
      sim_swd_wire_def split: option.splits)

lemma sim_SWDIO_plain:
  assumes "live E ctx" "int (length xs) \<le> sim_MaxTransferBits w" "0 < length xs" "length xs \<noteq> 64" "length xs \<noteq> 136"
    and "sw_active w"
  shows "sim_SWDIO E target ctx (pack (map fst xs)) (pack (map snd xs)) (length xs) w =
    (case sw_pending w of
       None \<Rightarrow>
         if length xs \<ge> 54 \<and> length xs mod 54 = 0
         then sim_fixed target ctx (pack (map fst xs)) (pack (map snd xs)) (length xs) w
         else sim_request target ctx (pack (map fst xs)) (pack (map snd xs)) (length xs) w
     | Some req \<Rightarrow> sim_data target ctx (pack (map fst xs)) (pack (map snd xs)) (length xs) req w)"
  using assms
  by (simp add: sim_SWDIO_def sim_validateSWDIO_def ctx_Err_def Let_def live_def protocolEntryResets_def
      sim_lineReset_def sim_jtagToSWD_def)

lemma length_frame_bits [simp]: "length (frame_bits req v) = 54"
  by (simp add: frame_bits_def length_fixed_bits)

abbreviation chunk_bits :: "(request \<times> uint32) list \<Rightarrow> (bool \<times> bool) list" where
  "chunk_bits ops \<equiv> concat (map (\<lambda>op. frame_bits (fst op) (snd op)) ops)"

lemma length_chunk_bits: "length (chunk_bits ops) = 54 * length ops"
  by (induction ops) simp_all

lemma nth_chunk_bits:
  "j < length ops \<Longrightarrow> i < 54 \<Longrightarrow> chunk_bits ops ! (54 * j + i) = frame_bits (fst (ops ! j)) (snd (ops ! j)) ! i"
proof (induction ops arbitrary: j)
  case Nil
  then show ?case by simp
next
  case (Cons op ops)
  show ?case
  proof (cases j)
    case 0
    then show ?thesis using Cons.prems by (simp add: nth_append)
  next
    case (Suc k)
    then have "54 * j + i = 54 + (54 * k + i)" by simp
    then show ?thesis using Cons Suc by (simp add: nth_append)
  qed
qed

lemma chunk_shows_frame:
  assumes "j < length ops"
  shows "shows_frame (pack (map fst (chunk_bits ops))) (pack (map snd (chunk_bits ops))) (54 * j)
     (fst (ops ! j)) (snd (ops ! j))"
proof -
  have "54 * j + i < length (chunk_bits ops)" if "i < 54" for i
    using assms that unfolding length_chunk_bits by auto
  then show ?thesis
    unfolding shows_frame_def using nth_chunk_bits [OF assms] by (simp add: bitAt_pack del: map_concat)
qed

lemma sim_fixed_run:
  assumes "\<forall>op \<in> set ops. wf_request (fst op)" "target_run T ctx ops (sw_target w) = Some (rs, t')"
  shows "\<exists>input. sim_fixed (Some T) ctx (pack (map fst (chunk_bits ops))) (pack (map snd (chunk_bits ops)))
      (54 * length ops) w = ((input, None), w\<lparr>sw_target := t'\<rparr>) \<and> length input = bytes_for (54 * length ops) \<and>
      map (\<lambda>j. decodeFixedFrame input (54 * j) (fst (ops ! j))) [0..<length ops] = rs"
proof -
  have "blank (replicate (bytes_for (54 * length ops)) 0) (54 * j)" if "j < length ops" for j
  proof -
    have "54 * j + 54 \<le> 54 * length ops" using that by simp
    also have "\<dots> \<le> 8 * bytes_for (54 * length ops)" by (rule bytes_for_le)
    finally show ?thesis by (auto simp: blank_def)
  qed
  then have frames: "shows_frame (pack (map fst (chunk_bits ops))) (pack (map snd (chunk_bits ops))) (54 * j)
      (fst (ops ! (j - 0))) (snd (ops ! (j - 0))) \<and> wf_request (fst (ops ! (j - 0))) \<and>
      blank (replicate (bytes_for (54 * length ops)) 0) (54 * j)" if "j < 0 + length ops" for j
    using chunk_shows_frame [of j ops] assms(1) that by simp
  have count: "(54 * length ops + 53) div 54 = length ops" by simp
  from frames_run [of 0 ops, OF frames assms(2)] obtain input where
    "sim_fixed (Some T) ctx (pack (map fst (chunk_bits ops))) (pack (map snd (chunk_bits ops)))
      (54 * length ops) w = ((input, None), w\<lparr>sw_target := t'\<rparr>)" "length input = bytes_for (54 * length ops)"
    "\<forall>j < length ops. decodeFixedFrame input (54 * j) (fst (ops ! j)) = rs ! j"
    unfolding sim_fixed_def count by auto
  then show ?thesis
    using length_target_run [OF assms(2)] by (intro exI [of _ input]) (auto intro: nth_equalityI)
qed

lemma packed_sequence:
  "fold (\<lambda>op. seq_appendSequence (fixedFrame 1 8 (fst op) (snd op))) ops (seq_of xs) = seq_of (xs @ chunk_bits ops)"
  by (induction ops arbitrary: xs) (simp_all add: fixedFrame_of seq_ops_of frame_bits_def)

text \<open>Acknowledging a request does not change the response grammar.\<close>

definition keeps_grammar :: "'t sim_target \<Rightarrow> bool" where
  "keeps_grammar T \<longleftrightarrow> (\<forall>ctx req t ack t'. sim_acknowledge T ctx req t = (Inr ack, t') \<longrightarrow>
     overrunEnabled T (observeResponse T ack t') = overrunEnabled T t)"

lemma overrun_frame:
  assumes "sim_ready E T c w" "live E ctx" "wf_request req" "overrunEnabled T (sw_target w)"
    and "target_transfer T ctx req data (sw_target w) = (r, t')"
  shows "run_state (swd_transferOverrun E ctx req data) (c, w) = (transfer_result r, (c, w\<lparr>sw_target := t'\<rparr>))"
proof -
  let ?xs = "frame_bits req data"
  have q: "fixedFrame (Suc 0) 8 req data = seq_of ?xs"
    by (simp add: fixedFrame_of frame_bits_def)
  have frame: "shows_frame (pack (map fst ?xs)) (pack (map snd ?xs)) 0 req data"
    using chunk_shows_frame [of 0 "[(req, data)]"] by simp
  have "blank (replicate (bytes_for 54) 0) 0"
    by (auto simp: blank_def bytes_for_def intro!: tbit_zeros)
  note host = sim_fixedFrame_host [OF frame assms(3) this assms(4,5)]
  have io: "sim_SWDIO E (Some T) ctx (pack (map fst ?xs)) (pack (map snd ?xs)) (length ?xs) w =
      sim_fixed_frames [0] (Some T) ctx (pack (map fst ?xs)) (pack (map snd ?xs)) (replicate (bytes_for 54) 0) w"
    using assms(1) by (subst sim_SWDIO_plain [OF assms(2)]) (simp_all add: sim_ready_def sim_fixed_def)
  show ?thesis
  proof (cases r)
    case (Inl e)
    then obtain i where "sim_SWDIO E (Some T) ctx (pack (map fst ?xs)) (pack (map snd ?xs)) (length ?xs) w =
        (([], Some e), w\<lparr>sw_target := t'\<rparr>)" using host io by auto
    then show ?thesis
      using sim_exchange [of c E T ctx "seq_of ?xs" w] assms(1,2) Inl
      by (simp add: swd_transferOverrun_def bind_def q sim_ready_def transfer_result_def)
  next
    case (Inr p)
    then obtain i where "sim_SWDIO E (Some T) ctx (pack (map fst ?xs)) (pack (map snd ?xs)) (length ?xs) w =
        ((i, None), w\<lparr>sw_target := t'\<rparr>)" "decodeFixedFrame i 0 req = p" "length i = bytes_for 54"
      using host io by (auto simp: same_outside_def)
    then show ?thesis
      using sim_exchange [of c E T ctx "seq_of ?xs" w] assms(1,2) Inr
      by (simp add: swd_transferOverrun_def bind_def q sim_ready_def transfer_result_def)
  qed
qed

lemma list_bits:
  "(\<And>i. i < n \<Longrightarrow> bs ! (k + i) = want) \<Longrightarrow> k + n \<le> length bs \<Longrightarrow> sim_allBits (pack bs) k n want"
  by (auto simp: allBits_iff bitAt_pack)

lemma request_exchange:
  assumes "wf_request req"
  shows "sim_request (Some T) ctx (pack (map fst (request_bits 1 req))) (pack (map snd (request_bits 1 req))) 12 w =
    (case sim_acknowledge T ctx req (sw_target w) of
       (Inl e, t) \<Rightarrow> (([], Some e), w\<lparr>sw_target := t\<rparr>)
     | (Inr ack, t) \<Rightarrow>
         ((ack_bits 9 ack [0, 0], None),
          w\<lparr>sw_target := observeResponse T ack t, sw_pending := Some req, sw_pendingACK := ack\<rparr>))"
proof -
  have "sim_allBits (pack (map fst (request_bits 1 req))) 0 8 True"
    "sim_allBits (pack (map fst (request_bits 1 req))) 8 4 False"
    by (rule list_bits; simp add: request_bits_def nth_append)+
  moreover have "sim_byteAt (pack (map snd (request_bits 1 req))) 0 = requestByte req"
    by (rule sim_byteAt_shows) (simp add: bitAt_pack request_bits_def nth_append)
  ultimately show ?thesis
    using sim_decodeRequest_requestByte [OF assms] by (simp add: sim_request_def)
qed

section \<open>Frames in two or three exchanges\<close>

text \<open>One exchange of the connection with the simulated wire outside the entry sequences.\<close>

lemma plain_exchange:
  assumes "sc_wire c = Some (sim_swd_wire E (Some T))" "0 < sc_completionTimeout c" "live E ctx"
    and "int (length xs) \<le> sim_MaxTransferBits w" "0 < length xs" "length xs < 54" "sw_active w"
    and "(case sw_pending w of
            None \<Rightarrow> sim_request (Some T) ctx (pack (map fst xs)) (pack (map snd xs)) (length xs) w
          | Some req \<Rightarrow> sim_data (Some T) ctx (pack (map fst xs)) (pack (map snd xs)) (length xs) req w) =
         ((input, e), w')"
    and "e = None \<Longrightarrow> bytes_for (length xs) \<le> length input"
  shows "run_state (swd_exchange E ctx (seq_of xs)) (c, w) = (case e of Some x \<Rightarrow> Inl x | None \<Rightarrow> Inr input, (c, w'))"
proof -
  have "sim_SWDIO E (Some T) ctx (pack (map fst xs)) (pack (map snd xs)) (length xs) w = ((input, e), w')"
    using assms by (subst sim_SWDIO_plain) (auto split: option.splits)
  with sim_exchange [of c E T ctx "seq_of xs" w] assms show ?thesis
    by (cases e) simp_all
qed

text \<open>The data phases: a turnaround and idle cycles, a read word, a written word.\<close>

definition tail_bits :: "nat \<Rightarrow> (bool \<times> bool) list" where
  "tail_bits n = replicate n (False, False) @ replicate 8 (True, False)"

definition ask_bits :: "request \<Rightarrow> (bool \<times> bool) list" where
  "ask_bits req = request_bits 1 req"

definition write_bits :: "uint32 \<Rightarrow> (bool \<times> bool) list" where
  "write_bits v = (False, False) # value_bits v @ replicate 8 (True, False)"

lemma tail_seq: "seq_appendN 8 True False (seq_appendN n False False seq_empty) = seq_of (tail_bits n)"
  by (simp add: seq_empty_of seq_ops_of tail_bits_def)

lemma write_seq:
  "seq_appendN 8 True False (seq_append True (parity32 v) (seq_value v (seq_appendN 1 False False seq_empty))) =
   seq_of (write_bits v)"
  by (simp add: seq_empty_of seq_ops_of seq_append_of write_bits_def value_bits_def)

lemma request_seq:
  "seq_appendN 4 False False (seq_appendByte True (requestByte req) seq_empty) = seq_of (ask_bits req)"
  by (simp add: seq_empty_of seq_ops_of ask_bits_def request_bits_def)

lemma tail_length [simp]: "length (tail_bits n) = n + 8" "length (write_bits v) = 42" "length (ask_bits req) = 12"
  by (simp_all add: tail_bits_def write_bits_def value_bits_def ask_bits_def request_bits_def)

lemma tail_checks:
  "sim_allBits (pack (map fst (tail_bits n))) 0 n False" "sim_allBits (pack (map fst (tail_bits n))) n 8 True"
  "sim_allBits (pack (map snd (tail_bits n))) n 8 False"
  by (rule list_bits; simp add: tail_bits_def nth_append)+

lemma write_checks:
  "\<not> bitAt (pack (map fst (write_bits v))) 0" "sim_allBits (pack (map fst (write_bits v))) 1 41 True"
  "sim_allBits (pack (map snd (write_bits v))) 34 8 False"
  "sim_uint32At (pack (map snd (write_bits v))) 1 = v" "bitAt (pack (map snd (write_bits v))) 33 = parity32 v"
proof -
  show "\<not> bitAt (pack (map fst (write_bits v))) 0" "bitAt (pack (map snd (write_bits v))) 33 = parity32 v"
    by (simp_all add: bitAt_pack write_bits_def value_bits_def nth_append)
  show "sim_allBits (pack (map fst (write_bits v))) 1 41 True" "sim_allBits (pack (map snd (write_bits v))) 34 8 False"
    by (rule list_bits; auto simp: write_bits_def value_bits_def nth_append nth_Cons split: nat.splits)+
  show "sim_uint32At (pack (map snd (write_bits v))) 1 = v"
    unfolding sim_uint32At_extract
    by (rule extractUint32At_shows)
       (simp add: bitAt_tbit [symmetric] bitAt_pack write_bits_def value_bits_def nth_append)
qed

lemma read_response:
  fixes v :: uint32 and p :: bool
  defines "B \<equiv> swd_setBit (sim_setUint32At 0 v (replicate 6 0)) 32 p"
  shows "length (sim_setUint32At 0 v (replicate 6 0)) = 6" "length B = 6" "extractUint32At B 0 = v" "bitAt B 32 = p"
proof -
  let ?d = "sim_setUint32At 0 v (replicate 6 0)"
  have d: "length ?d = 6" "j < 48 \<Longrightarrow> tbit ?d j = (j < 32 \<and> bit v j)" for j
    using sim_setUint32At_shows [of 0 "replicate 6 0" v] by simp_all
  have last: "32 < 8 * length ?d" by (simp add: d)
  have t: "tbit B j = (j = 32 \<and> p \<or> j < 32 \<and> bit v j)" if "j < 48" for j
    unfolding B_def swd_setBit_or_bit tbit_or_bit [OF last] d(2) [OF that] by (cases "j = 32") auto
  show "length ?d = 6" "length B = 6" by (simp_all add: B_def d)
  show "extractUint32At B 0 = v" by (rule extractUint32At_shows) (simp add: t)
  show "bitAt B 32 = p" by (simp add: bitAt_tbit t)
qed

lemma ack_response:
  assumes "ack \<in> {1, 2, 4}"
  shows "readACK (ack_bits 9 ack [0, 0]) 9 = ack" "length (ack_bits 9 ack [0, 0]) = 2"
proof -
  have zero: "\<not> tbit [0, 0] j" if "j < 16" for j
    using tbit_zeros [of j 2] that by (simp add: numeral_2_eq_2)
  show "readACK (ack_bits 9 ack [0, 0]) 9 = ack"
    using ack_bits_shows(2) [of 9 "[0, 0]" ack] by (intro readACK_shows [OF _ assms]) (simp add: zero)
  show "length (ack_bits 9 ack [0, 0]) = 2"
    using ack_bits_shows(1) [of 9 "[0, 0]" ack] by simp
qed

text \<open>The three ways a frame goes on after its acknowledgement.\<close>

abbreviation awaits :: "request \<Rightarrow> byte \<Rightarrow> 't \<Rightarrow> 't sim_wire \<Rightarrow> 't sim_wire" where
  "awaits req ack t w \<equiv> w\<lparr>sw_target := t, sw_pending := Some req, sw_pendingACK := ack\<rparr>"

abbreviation settled :: "byte \<Rightarrow> 't \<Rightarrow> 't sim_wire \<Rightarrow> 't sim_wire" where
  "settled ack t w \<equiv> w\<lparr>sw_target := t, sw_pending := None, sw_pendingACK := ack\<rparr>"

lemma max_awaits [simp]: "sim_MaxTransferBits (awaits req ack t w) = sim_MaxTransferBits w"
  by (simp add: sim_MaxTransferBits_def)

lemma finishFailed_sim:
  assumes "sim_ready E T c w" "live E ctx" "ack \<in> {2, 4}" "\<not> overrunEnabled T t" "ackError ack = Some e"
  shows "run_state (swd_finishFailed E ctx e) (c, awaits req ack t w) = (Some e, (c, settled ack t w))"
proof -
  have e: "e \<noteq> ErrProtocol" "ack \<noteq> 1" using assms(3,5) by (auto simp: ackError_def)
  have "run_state (swd_exchange E ctx (seq_of (tail_bits 1))) (c, awaits req ack t w) = (Inr [0, 0], (c, settled ack t w))"
    using assms tail_checks [of 1] e
    by (subst plain_exchange [where T = T and input = "[0, 0]" and e = None and w' = "settled ack t w"])
       (simp_all add: sim_ready_def sim_data_def Let_def sim_failedACK_def allBits_iff bytes_for_def)
  then show ?thesis
    using assms(1) e tail_seq [of 1] by (simp add: swd_finishFailed_def bind_def sim_ready_def)
qed

lemma readData_sim:
  assumes "sim_ready E T c w" "live E ctx" "req_read req" "st_Read T ctx req t = ((v, e), t')"
  shows "run_state (swd_readData E ctx) (c, awaits req 1 t w) =
    (case e of None \<Rightarrow> (v, None) | Some x \<Rightarrow> (0, Some x), (c, settled 1 t' w))"
proof -
  let ?B = "swd_setBit (sim_setUint32At 0 v (replicate 6 0)) 32 (sim_parity32 v \<noteq> (e = Some ErrParity))"
  let ?ok = "e = None \<or> e = Some ErrParity"
  have "run_state (swd_exchange E ctx (seq_of (tail_bits 34))) (c, awaits req 1 t w) =
      (if ?ok then Inr ?B else Inl (the e), (c, settled 1 t' w))"
    using assms tail_checks [of 34]
    by (subst plain_exchange [where T = T and input = "if ?ok then ?B else []" and e = "if ?ok then None else e"
          and w' = "settled 1 t' w"])
       (auto simp: sim_ready_def sim_data_def Let_def sim_read_def read_response bytes_for_def)
  then show ?thesis
    using assms(1) tail_seq [of 34]
    by (cases e) (auto simp: swd_readData_def bind_def sim_ready_def read_response sim_parity32_eq Let_def)
qed

lemma writeData_sim:
  assumes "sim_ready E T c w" "live E ctx" "\<not> req_read req" "st_Write T ctx req v t = (e, t')"
  shows "run_state (swd_writeData E ctx v) (c, awaits req 1 t w) = (e, (c, settled 1 t' w))"
proof -
  have "run_state (swd_exchange E ctx (seq_of (write_bits v))) (c, awaits req 1 t w) =
      (case e of Some x \<Rightarrow> Inl x | None \<Rightarrow> Inr (replicate 6 0), (c, settled 1 t' w))"
    using assms write_checks [of v]
    by (subst plain_exchange [where T = T and input = "replicate 6 0" and e = e and w' = "settled 1 t' w"])
       (auto simp: sim_ready_def sim_data_def Let_def sim_write_def sim_parity32_eq bytes_for_def)
  then show ?thesis
    using assms(1) write_seq [of v] by (cases e) (simp_all add: swd_writeData_def bind_def sim_ready_def)
qed

lemma simple_frame:
  assumes "sim_ready E T c w" "live E ctx" "wf_request req" "sc_response c \<noteq> responseOverrun"
    and "\<not> overrunEnabled T (sw_target w)" "keeps_grammar T"
    and "target_transfer T ctx req data (sw_target w) = (r, t')"
  shows "\<exists>a. run_state (swd_transferFrame E ctx req data) (c, w) =
    (transfer_result r, (c, w\<lparr>sw_target := t', sw_pendingACK := a\<rparr>))"
proof -
  obtain x t1 where ack: "sim_acknowledge T ctx req (sw_target w) = (x, t1)" by (metis surj_pair)
  define frame where "frame = run_state (swd_exchange E ctx (seq_of (ask_bits req))) (c, w)"
  have frame: "run_state (swd_transferFrame E ctx req data) (c, w) =
      (case frame of (r, s) \<Rightarrow> run_state (case r of
         Inl e \<Rightarrow> ret (0, Some e)
       | Inr input \<Rightarrow>
           (case ackError (readACK input 9) of
              Some e \<Rightarrow> do { e1 \<leftarrow> swd_finishFailed E ctx e; ret (0, e1) }
            | None \<Rightarrow>
                if req_read req then swd_readData E ctx
                else do { e1 \<leftarrow> swd_writeData E ctx data; ret (0, e1) })) s)"
    using assms(1,4) request_seq [of req] by (simp add: swd_transferFrame_def bind_def sim_ready_def frame_def)
  have first: "frame =
      (case x of Inl e \<Rightarrow> (Inl e, (c, w\<lparr>sw_target := t1\<rparr>))
       | Inr ack \<Rightarrow> (Inr (ack_bits 9 ack [0, 0]), (c, awaits req ack (observeResponse T ack t1) w)))"
    unfolding frame_def using assms(1,2) ack ack_response(2) sim_acknowledge_ack [of T ctx req "sw_target w"]
    by (subst plain_exchange [where T = T
          and input = "case x of Inl e \<Rightarrow> [] | Inr ack \<Rightarrow> ack_bits 9 ack [0, 0]"
          and e = "case x of Inl e \<Rightarrow> Some e | Inr ack \<Rightarrow> None"
          and w' = "case x of Inl e \<Rightarrow> w\<lparr>sw_target := t1\<rparr> | Inr ack \<Rightarrow> awaits req ack (observeResponse T ack t1) w"])
       (auto simp: sim_ready_def request_exchange [OF assms(3), folded ask_bits_def] bytes_for_def split: sum.splits)
  have same: "settled a t w = w\<lparr>sw_target := t, sw_pendingACK := a\<rparr>" for a t
    using assms(1) by (cases w) (simp add: sim_ready_def)
  show ?thesis
  proof (cases x)
    case (Inl e)
    then show ?thesis
      using assms(7) ack first frame by (cases w) (auto simp: target_transfer_def transfer_result_def)
  next
    case (Inr a)
    have a: "a \<in> {1, 2, 4}" using sim_acknowledge_ack ack Inr by metis
    let ?t = "observeResponse T a t1"
    have grammar: "\<not> overrunEnabled T ?t" using assms(5,6) ack Inr by (auto simp: keeps_grammar_def)
    show ?thesis
    proof (cases "ackError a")
      case (Some e)
      then have "a \<in> {2, 4}" using a by (auto simp: ackError_def)
      from finishFailed_sim [OF assms(1,2) this grammar Some, of req] show ?thesis
        using Some assms(7) ack first frame Inr ack_response [OF a] same
        by (auto simp: target_transfer_def transfer_result_def bind_def)
    next
      case None
      then have one: "a = 1" using a by (auto simp: ackError_def split: if_splits)
      show ?thesis
      proof (cases "req_read req")
        case True
        obtain v e t2 where rd: "st_Read T ctx req ?t = ((v, e), t2)" by (metis surj_pair)
        with readData_sim [OF assms(1,2) True, of ?t v e t2] show ?thesis
          using None assms(7) ack first frame Inr ack_response [OF a] same one True
          by (cases e) (auto simp: target_transfer_def transfer_result_def split: if_splits)
      next
        case False
        obtain e t2 where wr: "st_Write T ctx req data ?t = (e, t2)" by (metis surj_pair)
        with writeData_sim [OF assms(1,2) False, of data ?t e t2] show ?thesis
          using None assms(7) ack first frame Inr ack_response [OF a] same one False
          by (cases e) (auto simp: target_transfer_def transfer_result_def bind_def)
      qed
    qed
  qed
qed

section \<open>Frames are transfers of the target\<close>

lemma transferFrame_target:
  assumes "sim_ready E T c w" "live E ctx" "wf_request req"
    and "(sc_response c = responseOverrun) = overrunEnabled T (sw_target w)" "keeps_grammar T"
    and "target_transfer T ctx req data (sw_target w) = (r, t')"
  shows "\<exists>w'. run_state (swd_transferFrame E ctx req data) (c, w) = (transfer_result r, (c, w')) \<and>
     sw_target w' = t' \<and> sim_ready E T c w'"
proof (cases "sc_response c = responseOverrun")
  case True
  have "run_state (swd_transferFrame E ctx req data) (c, w) = run_state (swd_transferOverrun E ctx req data) (c, w)"
    using True by (simp add: swd_transferFrame_def bind_def)
  with overrun_frame [OF assms(1,2,3) _ assms(6)] show ?thesis
    using True assms(1,4) by (auto simp: sim_ready_def sim_MaxTransferBits_def)
next
  case False
  with simple_frame [OF assms(1,2,3) _ _ assms(5,6)] assms(4) show ?thesis
    using assms(1) by (fastforce simp: sim_ready_def sim_MaxTransferBits_def)
qed

text \<open>
  C23: the connection refines the target. Over the simulated wire a frame of a valid request, in the simple
  or in the overrun response grammar, changes the target exactly as the transfer of that request does,
  returns the value, the acknowledgement error or the failure of that transfer, and leaves connection
  and wire ready for the next frame. The target's acknowledgements do not switch the grammar.
\<close>

theorem transferFrame_refines_target:
  assumes "sim_ready E T c w" "live E ctx" "wf_request req"
    and "(sc_response c = responseOverrun) = overrunEnabled T (sw_target w)" "keeps_grammar T"
  shows "\<exists>w'. run_state (swd_transferFrame E ctx req data) (c, w) =
       (transfer_result (fst (target_transfer T ctx req data (sw_target w))), (c, w')) \<and>
     sw_target w' = snd (target_transfer T ctx req data (sw_target w)) \<and> sim_ready E T c w'"
  by (rule transferFrame_target [OF assms]) simp

text \<open>A target with one cell, which either never or always answers with a data phase.\<close>

definition cell_target :: "bool \<Rightarrow> uint32 sim_target" where
  "cell_target overrun =
     \<lparr>st_Read = (\<lambda>ctx req t. ((t, None), t)), st_Write = (\<lambda>ctx req v t. (None, v)),
      st_Acknowledge = None, st_OverrunDetectEnabled = Some (\<lambda>t. overrun),
      st_ObserveResponse = None, st_ObserveLineReset = None\<rparr>"

definition cell_conn :: "bool \<Rightarrow> uint32 sim_wire swd_conn" where
  "cell_conn overrun = swd_New (Some (sim_swd_wire still_env (Some (cell_target overrun)))) []"

definition cell_wire :: "uint32 \<Rightarrow> uint32 sim_wire" where
  "cell_wire v = (sim_New v)\<lparr>sw_active := True\<rparr>"

definition cell_request :: "bool \<Rightarrow> request" where
  "cell_request read = \<lparr>req_ap = True, req_read = read, req_addr = 0x0C\<rparr>"

lemma cell_ready:
  "sim_ready still_env (cell_target overrun) (cell_conn overrun) (cell_wire v)"
  "wf_request (cell_request read)" "keeps_grammar (cell_target overrun)"
  "sc_response (cell_conn overrun) = responseSimple" "overrunEnabled (cell_target overrun) t = overrun"
  "sw_target (cell_wire v) = v" "sim_MaxTransferBits (cell_wire v) = 16384"
  by (simp_all add: sim_ready_def cell_conn_def swd_New_def cell_wire_def sim_New_def sim_MaxTransferBits_def
      wf_request_def cell_request_def keeps_grammar_def overrunEnabled_def cell_target_def)

lemma cell_transfer:
  "target_transfer (cell_target overrun) ctx (cell_request True) v t = (Inr (t, None), t)"
  "target_transfer (cell_target overrun) ctx (cell_request False) v t = (Inr (0, None), v)"
  by (simp_all add: target_transfer_def sim_acknowledge_def cell_target_def cell_request_def observeResponse_def
      ackError_def)

theorem transferFrame_refines_target_witness:
  "\<exists>w'. run_state (swd_transferFrame still_env (Caller 0) (cell_request False) 7) (cell_conn False, cell_wire 5) =
     ((0, None), (cell_conn False, w')) \<and> sw_target w' = 7 \<and>
     sim_ready still_env (cell_target False) (cell_conn False) w'"
  using transferFrame_refines_target [OF cell_ready(1) live_still(1) cell_ready(2) _ cell_ready(3),
      of False 5 0 False 7]
  by (simp add: cell_ready cell_transfer transfer_result_def)

text \<open>
  C24: packing is transparent. Frames of valid requests, concatenated into one exchange with the simulated
  wire, leave the target where transferring them one after the other does, and the response decodes,
  frame by frame, to the results of these transfers.
\<close>

theorem packed_frames_are_sequential_transfers:
  assumes "sim_ready E T c w" "live E ctx" "ops \<noteq> []" "\<forall>op \<in> set ops. wf_request (fst op)"
    and "int (54 * length ops) \<le> sim_MaxTransferBits w"
    and "target_run T ctx ops (sw_target w) = Some (rs, t')"
  shows "\<exists>input. run_state (swd_exchange E ctx
       (fold (\<lambda>op. seq_appendSequence (fixedFrame (sc_turnaround c) (sc_idleCycles c) (fst op) (snd op))) ops seq_empty))
       (c, w) = (Inr input, (c, w\<lparr>sw_target := t'\<rparr>)) \<and>
     map (\<lambda>j. decodeFixedFrame input (j * fixedFrameBits) (fst (ops ! j))) [0..<length ops] = rs"
proof -
  from sim_fixed_run [OF assms(4,6)] obtain input where
    fixed: "sim_fixed (Some T) ctx (pack (map fst (chunk_bits ops))) (pack (map snd (chunk_bits ops)))
      (54 * length ops) w = ((input, None), w\<lparr>sw_target := t'\<rparr>)" "length input = bytes_for (54 * length ops)"
    and rs: "map (\<lambda>j. decodeFixedFrame input (54 * j) (fst (ops ! j))) [0..<length ops] = rs" by blast
  have n: "0 < length ops" "Suc 0 \<le> length ops" using assms(3) by (simp_all add: Suc_le_eq)
  have "54 * length ops \<noteq> 64" "54 * length ops \<noteq> 136" by presburger+
  then have io: "sim_SWDIO E (Some T) ctx (pack (map fst (chunk_bits ops))) (pack (map snd (chunk_bits ops)))
      (length (chunk_bits ops)) w = ((input, None), w\<lparr>sw_target := t'\<rparr>)"
    using assms n fixed
    by (subst sim_SWDIO_plain) (simp_all only: length_chunk_bits sim_ready_def, simp_all)
  let ?q = "seq_of (chunk_bits ops)"
  have "run_state (swd_exchange E ctx ?q) (c, w) = (Inr input, (c, w\<lparr>sw_target := t'\<rparr>))"
    using sim_exchange [of c E T ctx ?q w input None "w\<lparr>sw_target := t'\<rparr>"] assms(1,2) io fixed(2)
    by (simp add: sim_ready_def length_chunk_bits)
  moreover have "fold (\<lambda>op. seq_appendSequence (fixedFrame 1 8 (fst op) (snd op))) ops seq_empty = ?q"
    using packed_sequence [of ops "[]"] by (simp add: seq_empty_of)
  ultimately show ?thesis
    using assms(1) rs by (intro exI [of _ input]) (simp add: sim_ready_def fixedFrameBits_def mult.commute)
qed

theorem packed_frames_are_sequential_transfers_witness:
  "\<exists>input. run_state (swd_exchange still_env (Caller 0)
       (fold (\<lambda>op. seq_appendSequence (fixedFrame 1 8 (fst op) (snd op)))
          [(cell_request False, 7), (cell_request True, 0)] seq_empty))
       (cell_conn True, cell_wire 5) = (Inr input, (cell_conn True, cell_wire 7)) \<and>
     map (\<lambda>j. decodeFixedFrame input (j * fixedFrameBits)
         (fst ([(cell_request False, 7), (cell_request True, 0 :: uint32)] ! j))) [0..<2] = [(0, None), (7, None)]"
proof -
  let ?ops = "[(cell_request False, 7), (cell_request True, 0 :: uint32)]"
  have run: "target_run (cell_target True) (Caller 0) ?ops (sw_target (cell_wire 5)) = Some ([(0, None), (7, None)], 7)"
    by (simp add: cell_ready cell_transfer)
  have ok: "?ops \<noteq> []" "\<forall>op \<in> set ?ops. wf_request (fst op)"
    "int (54 * length ?ops) \<le> sim_MaxTransferBits (cell_wire 5)"
    by (simp_all add: cell_ready)
  have conn: "sc_turnaround (cell_conn True) = 1" "sc_idleCycles (cell_conn True) = 8"
    "(cell_wire 5)\<lparr>sw_target := 7\<rparr> = cell_wire 7" "length ?ops = 2"
    by (simp_all add: cell_conn_def swd_New_def cell_wire_def sim_New_def)
  show ?thesis
    using packed_frames_are_sequential_transfers [OF cell_ready(1) live_still(1) ok run] unfolding conn .
qed

text \<open>
  C25: the header of every valid request reads back as that request on the other side of the wire.
\<close>

theorem request_header_round_trip:
  assumes "wf_request req"
  shows "sim_decodeRequest (requestByte req) = Inr req"
  using sim_decodeRequest_requestByte [OF assms] .

theorem request_header_round_trip_witness:
  "sim_decodeRequest (requestByte (cell_request True)) = Inr (cell_request True)"
  using request_header_round_trip [OF cell_ready(2)] .

end
