(* ===== verification/Cs_Component.thy ===== *)
theory Cs_Component
  imports Dap_Types
begin

text \<open>
  Identification of debug components and ROM tables: \<open>src/coresight/component.go\<close> and
  \<open>src/coresight/rom.go\<close>. The scalar reader is a parameter: a function on the world behind it. The
  lemmas show what the packed identification registers decode to, that every identified component has
  a well-formed ROM layout, and that entry addresses are computed without wrap-around.
\<close>

section \<open>Readers\<close>

type_synonym 'w scalar_reader = "ctx \<Rightarrow> uint64 \<Rightarrow> byte \<Rightarrow> 'w \<Rightarrow> (uint64 \<times> go_error) \<times> 'w"

definition cs_read_error :: "uint64 \<Rightarrow> err \<Rightarrow> err" where
  "cs_read_error address e = Wrap ''coresight: read %#x: %w'' [uint address] [e]"

definition cs_readWord ::
  "'w go_env \<Rightarrow> ctx \<Rightarrow> 'w scalar_reader \<Rightarrow> uint64 \<Rightarrow> ('c, 'w, err + uint32) prog" where
  "cs_readWord E ctx reader address = do {
     e \<leftarrow> outside (ctx_Err E ctx);
     case e of
       Some x \<Rightarrow> ret (Inl (Sentinel x))
     | None \<Rightarrow> do {
         r \<leftarrow> outside (reader ctx address Size32);
         case r of
           (word, Some x) \<Rightarrow> ret (Inl (cs_read_error address x))
         | (word, None) \<Rightarrow> ret (Inr (ucast word))
       }
   }"

text \<open>The loop over the offsets, from the \<open>i\<close>-th one on.\<close>

primrec cs_readID_from ::
  "'w go_env \<Rightarrow> ctx \<Rightarrow> 'w scalar_reader \<Rightarrow> uint64 \<Rightarrow> uint64 list \<Rightarrow> nat \<Rightarrow> uint64 \<Rightarrow>
   ('c, 'w, err + uint64) prog" where
  "cs_readID_from E ctx reader base [] i ident = ret (Inr ident)"
| "cs_readID_from E ctx reader base (offset # offsets) i ident =
     attempt (cs_readWord E ctx reader (base + offset)) (\<lambda>word.
       cs_readID_from E ctx reader base offsets (Suc i) (ident OR push_bit (8 * i) (ucast (word AND 0xFF))))"

definition cs_readID ::
  "'w go_env \<Rightarrow> ctx \<Rightarrow> 'w scalar_reader \<Rightarrow> uint64 \<Rightarrow> uint64 list \<Rightarrow> ('c, 'w, err + uint64) prog" where
  "cs_readID E ctx reader base offsets = cs_readID_from E ctx reader base offsets 0 0"

section \<open>Components\<close>

record component =
  Base :: uint64
  CIDR :: uint32
  PIDR :: uint64
  DEVARCH :: uint32
  DEVID :: uint32
  DEVTYPE :: byte

definition Class :: "component \<Rightarrow> byte" where
  "Class c = ucast (drop_bit 12 (CIDR c) AND 0xF)"

definition Part :: "component \<Rightarrow> uint16" where
  "Part c = ucast (PIDR c AND 0xFFF)"

definition Designer :: "component \<Rightarrow> uint16 \<times> bool" where
  "Designer c =
     (push_bit 7 (ucast (drop_bit 32 (PIDR c) AND 0xF)) OR ucast (drop_bit 12 (PIDR c) AND 0x7F),
      PIDR c AND push_bit 19 1 \<noteq> 0)"

definition Revision :: "component \<Rightarrow> byte" where
  "Revision c = ucast (drop_bit 20 (PIDR c) AND 0xF)"

record architecture =
  Architect :: uint16
  arch_ID :: uint16
  arch_Revision :: byte

definition Architecture :: "component \<Rightarrow> architecture option" where
  "Architecture c =
     (if Class c \<noteq> 9 \<or> DEVARCH c AND push_bit 20 1 = 0 then None
      else Some \<lparr>Architect = ucast (drop_bit 21 (DEVARCH c)), arch_ID = ucast (DEVARCH c),
                 arch_Revision = ucast (drop_bit 16 (DEVARCH c) AND 0xF)\<rparr>)"

text \<open>A failing read leaves a component that the caller discards; the errors alone are kept.\<close>

definition readDevice ::
  "'w go_env \<Rightarrow> ctx \<Rightarrow> 'w scalar_reader \<Rightarrow> component \<Rightarrow> ('c, 'w, err + component) prog" where
  "readDevice E ctx reader c =
     attempt (cs_readWord E ctx reader (Base c + 0xFBC)) (\<lambda>devarch.
     attempt (cs_readWord E ctx reader (Base c + 0xFC8)) (\<lambda>devid.
     attempt (cs_readWord E ctx reader (Base c + 0xFCC)) (\<lambda>devtype.
       ret (Inr (c\<lparr>DEVARCH := devarch, DEVID := devid, DEVTYPE := ucast devtype\<rparr>)))))"

definition cidr_offsets :: "uint64 list" where
  "cidr_offsets = [0xFF0, 0xFF4, 0xFF8, 0xFFC]"

definition pidr_offsets :: "uint64 list" where
  "pidr_offsets = [0xFE0, 0xFE4, 0xFE8, 0xFEC, 0xFD0, 0xFD4, 0xFD8, 0xFDC]"

definition valid_CIDR :: "uint32 \<Rightarrow> bool" where
  "valid_CIDR cidr \<longleftrightarrow> cidr AND 0xFFFF0FFF = 0xB105000D"

definition cs_nil_context :: err where "cs_nil_context = New ''coresight: nil context'' []"
definition cs_nil_reader :: err where "cs_nil_reader = New ''coresight: nil scalar reader'' []"
definition cs_unaligned :: "uint64 \<Rightarrow> err" where
  "cs_unaligned base = New ''coresight: unaligned identification page %#x'' [uint base]"
definition cs_bad_CIDR :: "uint64 \<Rightarrow> uint64 \<Rightarrow> err" where
  "cs_bad_CIDR cidr base = New ''coresight: invalid CIDR %#08x at %#x'' [uint cidr, uint base]"

text \<open>What \<open>Identify\<close> reads after its arguments are checked.\<close>

definition identify_page ::
  "'w go_env \<Rightarrow> ctx \<Rightarrow> 'w scalar_reader \<Rightarrow> uint64 \<Rightarrow> ('c, 'w, err + component) prog" where
  "identify_page E ctx reader base =
     attempt (cs_readID E ctx reader base cidr_offsets) (\<lambda>cidr.
       if \<not> valid_CIDR (ucast cidr) then ret (Inl (cs_bad_CIDR cidr base))
       else attempt (cs_readID E ctx reader base pidr_offsets) (\<lambda>pidr.
         let c = \<lparr>Base = base, CIDR = ucast cidr, PIDR = pidr, DEVARCH = 0, DEVID = 0, DEVTYPE = 0\<rparr> in
         if Class c = 9 then readDevice E ctx reader c else ret (Inr c)))"

definition Identify ::
  "'w go_env \<Rightarrow> ctx option \<Rightarrow> 'w scalar_reader option \<Rightarrow> uint64 \<Rightarrow> ('c, 'w, err + component) prog" where
  "Identify E ctx reader base =
     (case ctx of
        None \<Rightarrow> ret (Inl cs_nil_context)
      | Some cx \<Rightarrow>
          (case reader of
             None \<Rightarrow> ret (Inl cs_nil_reader)
           | Some rd \<Rightarrow>
               if base AND 0xFFF \<noteq> 0 then ret (Inl (cs_unaligned base))
               else do {
                 e \<leftarrow> outside (ctx_Err E cx);
                 case e of
                   Some x \<Rightarrow> ret (Inl (Sentinel x))
                 | None \<Rightarrow> identify_page E cx rd base
               }))"

section \<open>ROM tables\<close>

record rom_table =
  tb_base :: uint64
  tb_count :: int
  tb_stride :: uint64
  tb_class :: byte

abbreviation ErrNotROMTable :: err where "ErrNotROMTable \<equiv> Sentinel CsErrNotROMTable"

definition cs_bad_snapshot :: err where "cs_bad_snapshot = New ''coresight: invalid component snapshot'' []"
definition cs_unsupported_ROM :: "byte \<Rightarrow> uint32 \<Rightarrow> err" where
  "cs_unsupported_ROM revision format =
     New ''coresight: unsupported ROM revision %d or format %#x'' [uint revision, uint format]"

definition ROMTable :: "component \<Rightarrow> err + rom_table" where
  "ROMTable c =
     (if Base c AND 0xFFF \<noteq> 0 \<or> \<not> valid_CIDR (CIDR c) then Inl cs_bad_snapshot
      else
        let table = \<lparr>tb_base = Base c, tb_count = 960, tb_stride = 4, tb_class = Class c\<rparr> in
        if Class c = 1 then Inr table
        else
          (case Architecture c of
             None \<Rightarrow> Inl ErrNotROMTable
           | Some arch \<Rightarrow>
               if Architect arch \<noteq> 0x23B \<or> arch_ID arch \<noteq> 0x0AF7 then Inl ErrNotROMTable
               else if arch_Revision arch \<noteq> 0 \<or> DEVID c AND 0xF > 1
               then Inl (cs_unsupported_ROM (arch_Revision arch) (DEVID c AND 0xF))
               else if DEVID c AND 0xF = 1 then Inr (table\<lparr>tb_count := 256, tb_stride := 8\<rparr>)
               else Inr (table\<lparr>tb_count := 512\<rparr>)))"

definition EntryCount :: "rom_table \<Rightarrow> int" where
  "EntryCount t = tb_count t"

record rom_entry =
  re_Raw :: uint64
  re_Base :: uint64
  re_Present :: bool
  re_End :: bool
  re_PowerID :: byte
  re_PowerIDValid :: bool

definition zero_entry :: rom_entry where
  "zero_entry = \<lparr>re_Raw = 0, re_Base = 0, re_Present = False, re_End = False, re_PowerID = 0,
     re_PowerIDValid = False\<rparr>"

definition rom_offset_error :: err where
  "rom_offset_error = New ''zero offset or address outside uint64 range'' []"
definition rom_format_error :: err where
  "rom_format_error = New ''invalid entry format or presence'' []"
definition rom_reserved_error :: err where
  "rom_reserved_error = New ''reserved entry bits are nonzero'' []"

text \<open>
  The offset is a signed 64-bit value: a 32-bit entry is sign-extended. \<open>sint\<close> reads it, and the
  conversion back to \<open>uint64\<close> keeps its bits.
\<close>

definition entry_offset :: "rom_table \<Rightarrow> uint64 \<Rightarrow> int" where
  "entry_offset t raw =
     (if tb_stride t = 4 then sint (ucast (raw AND NOT 0xFFF) :: uint32) else sint (raw AND NOT 0xFFF))"

definition entryBase :: "rom_table \<Rightarrow> uint64 \<Rightarrow> err + uint64" where
  "entryBase t raw =
     (let offset = entry_offset t raw;
          base = tb_base t + word_of_int offset
      in if offset = 0 \<or> offset > 0 \<and> base < tb_base t \<or> offset < 0 \<and> base > tb_base t
         then Inl rom_offset_error else Inr base)"

definition rom_decode :: "rom_table \<Rightarrow> uint64 \<Rightarrow> err + rom_entry" where
  "rom_decode t raw =
     (let e = zero_entry\<lparr>re_Raw := raw, re_End := (raw = 0)\<rparr> in
      if re_End e then Inr e
      else if tb_class t = 9 \<and> raw AND 3 = 2 then Inr e
      else if raw AND 2 = 0 \<or> tb_class t = 9 \<and> raw AND 3 \<noteq> 3 then Inl rom_format_error
      else if raw AND 0xE08 \<noteq> 0 \<or> raw AND 4 = 0 \<and> raw AND 0x1F0 \<noteq> 0 then Inl rom_reserved_error
      else
        (let e = e\<lparr>re_Present := raw AND 1 \<noteq> 0\<rparr> in
         if \<not> re_Present e then Inr e
         else
           (case entryBase t raw of
              Inl x \<Rightarrow> Inl x
            | Inr base \<Rightarrow>
                Inr (e\<lparr>re_Base := base, re_PowerID := ucast (drop_bit 4 raw AND 0x1F),
                       re_PowerIDValid := raw AND 4 \<noteq> 0\<rparr>))))"

definition rom_bad_arguments :: err where
  "rom_bad_arguments = New ''coresight: nil context or scalar reader'' []"
definition rom_bad_index :: "int \<Rightarrow> err" where
  "rom_bad_index index = New ''coresight: invalid ROM entry index %d'' [index]"
definition rom_entry_error :: "uint64 \<Rightarrow> err \<Rightarrow> err" where
  "rom_entry_error address e = Wrap ''coresight: ROM entry at %#x: %w'' [uint address] [e]"

definition rom_entry_address :: "rom_table \<Rightarrow> int \<Rightarrow> uint64" where
  "rom_entry_address t index = tb_base t + word_of_int index * tb_stride t"

text \<open>Both words of a 64-bit entry are read before it is decoded.\<close>

definition read_raw_entry ::
  "'w go_env \<Rightarrow> ctx \<Rightarrow> 'w scalar_reader \<Rightarrow> rom_table \<Rightarrow> uint64 \<Rightarrow> ('c, 'w, err + uint64) prog" where
  "read_raw_entry E ctx reader t address =
     attempt (cs_readWord E ctx reader address) (\<lambda>low.
       if tb_stride t = 8
       then attempt (cs_readWord E ctx reader (address + 4)) (\<lambda>high.
         ret (Inr (ucast low OR push_bit 32 (ucast high))))
       else ret (Inr (ucast low)))"

definition ReadEntry ::
  "'w go_env \<Rightarrow> rom_table \<Rightarrow> ctx option \<Rightarrow> 'w scalar_reader option \<Rightarrow> int \<Rightarrow> ('c, 'w, err + rom_entry) prog" where
  "ReadEntry E t ctx reader index =
     (case (ctx, reader) of
        (Some cx, Some rd) \<Rightarrow>
          if index < 0 \<or> index \<ge> tb_count t then ret (Inl (rom_bad_index index))
          else attempt (read_raw_entry E cx rd t (rom_entry_address t index)) (\<lambda>raw.
            ret (case rom_decode t raw of
                   Inl x \<Rightarrow> Inl (rom_entry_error (rom_entry_address t index) x)
                 | Inr entry \<Rightarrow> Inr entry))
      | _ \<Rightarrow> ret (Inl rom_bad_arguments))"

section \<open>Entry addresses\<close>

lemma entry_offset_range: "- (2 ^ 63) \<le> entry_offset t raw" "entry_offset t raw < 2 ^ 63"
proof -
  have narrow: "- (2 ^ 31) \<le> sint v" "sint v < 2 ^ 31" for v :: uint32
    using sint_greater_eq [of v] sint_less [of v] by simp_all
  have "- (2 ^ 63) \<le> sint v" "sint v < 2 ^ 63" for v :: uint64
    using sint_greater_eq [of v] sint_less [of v] by simp_all
  with narrow [of "ucast (raw AND NOT 0xFFF)"]
  show "- (2 ^ 63) \<le> entry_offset t raw" "entry_offset t raw < 2 ^ 63"
    unfolding entry_offset_def by (simp_all split: if_splits)
qed

lemma guarded_sum:
  fixes A B S d M :: int
  assumes "0 \<le> A" "A < M" "0 \<le> B" "B < M" "- M < d" "d < M"
    and "S = (if A + d < 0 then A + d + M else if A + d < M then A + d else A + d - M)"
  shows "\<not> (d = 0 \<or> d > 0 \<and> S < A \<or> d < 0 \<and> S > A) \<and> S = B \<longleftrightarrow> d \<noteq> 0 \<and> B = A + d"
proof -
  consider "A + d < 0" "S = A + d + M" | "0 \<le> A + d" "A + d < M" "S = A + d" | "M \<le> A + d" "S = A + d - M"
    using assms(1,2,7) by (auto split: if_splits)
  then show ?thesis
  proof cases
    case 1
    then have "d < 0" "A < S" using assms by linarith+
    then show ?thesis using 1 assms(3) by auto
  next
    case 2
    then show ?thesis by auto
  next
    case 3
    then have "0 < d" "S < A" using assms by linarith+
    then show ?thesis using 3 assms(4) by auto
  qed
qed

lemma entryBase_iff:
  "entryBase t raw = Inr b \<longleftrightarrow> entry_offset t raw \<noteq> 0 \<and> uint b = uint (tb_base t) + entry_offset t raw"
proof -
  let ?d = "entry_offset t raw" and ?a = "tb_base t"
  have d: "- (2 ^ 64) < ?d" "?d < 2 ^ 64" using entry_offset_range [of t raw] by simp_all
  have sum: "uint (?a + word_of_int ?d) =
      (if uint ?a + ?d < 0 then uint ?a + ?d + 2 ^ 64
       else if uint ?a + ?d < 2 ^ 64 then uint ?a + ?d else uint ?a + ?d - 2 ^ 64)"
    using uint_add_int [of ?d ?a] d by simp
  have "0 \<le> uint ?a" "uint ?a < 2 ^ 64" "0 \<le> uint b" "uint b < 2 ^ 64"
    using uint_lt2p [of ?a] uint_lt2p [of b] by simp_all
  note guarded_sum [OF this d sum]
  moreover have "entryBase t raw = Inr b \<longleftrightarrow>
      \<not> (?d = 0 \<or> ?d > 0 \<and> uint (?a + word_of_int ?d) < uint ?a \<or> ?d < 0 \<and> uint (?a + word_of_int ?d) > uint ?a) \<and>
      uint (?a + word_of_int ?d) = uint b"
    unfolding entryBase_def Let_def word_less_def by (auto simp: word_uint_eq_iff [of "_ + _" b])
  ultimately show ?thesis by (simp only:)
qed


section \<open>Well-formed components, tables and entries\<close>

definition page_aligned :: "uint64 \<Rightarrow> bool" where
  "page_aligned a \<longleftrightarrow> a AND 0xFFF = 0"

definition wf_component :: "component \<Rightarrow> bool" where
  "wf_component c \<longleftrightarrow> page_aligned (Base c) \<and> valid_CIDR (CIDR c) \<and>
     (Class c \<noteq> 9 \<longrightarrow> DEVARCH c = 0 \<and> DEVID c = 0 \<and> DEVTYPE c = 0)"

definition wf_table :: "rom_table \<Rightarrow> bool" where
  "wf_table t \<longleftrightarrow> page_aligned (tb_base t) \<and>
     (tb_count t, tb_stride t, tb_class t) \<in> {(960, 4, 1), (512, 4, 9), (256, 8, 9)}"

definition wf_entry :: "rom_table \<Rightarrow> rom_entry \<Rightarrow> bool" where
  "wf_entry t e \<longleftrightarrow> (re_End e \<longleftrightarrow> re_Raw e = 0) \<and> (re_End e \<longrightarrow> \<not> re_Present e) \<and>
     (if re_Present e
      then page_aligned (re_Base e) \<and> uint (re_Base e) = uint (tb_base t) + entry_offset t (re_Raw e) \<and>
           re_Base e \<noteq> tb_base t
      else re_Base e = 0 \<and> re_PowerID e = 0 \<and> \<not> re_PowerIDValid e)"

lemma wp_readDevice:
  "wp (readDevice E ctx reader c)
     (\<lambda>r _. \<forall>d. r = Inr d \<longrightarrow> (\<exists>x y z. d = c\<lparr>DEVARCH := x, DEVID := y, DEVTYPE := z\<rparr>)) s"
  unfolding readDevice_def by (intro wp_attemptI; simp add: wp_simps) blast

lemma wp_identify_page:
  assumes "page_aligned base"
  shows "wp (identify_page E ctx reader base) (\<lambda>r _. \<forall>c. r = Inr c \<longrightarrow> wf_component c \<and> Base c = base) s"
  unfolding identify_page_def Let_def
proof (rule wp_attemptI, goal_cases)
  case (2 cidr s')
  show ?case
  proof (cases "valid_CIDR (ucast cidr)")
    case False
    then show ?thesis by (simp add: wp_return)
  next
    case True
    then show ?thesis
    proof (simp only: not_True_eq_False if_False, intro wp_attemptI, goal_cases)
      case (2 pidr s'')
      let ?c = "\<lparr>Base = base, CIDR = ucast cidr, PIDR = pidr, DEVARCH = 0, DEVID = 0, DEVTYPE = 0\<rparr>"
      have "wp (readDevice E ctx reader ?c) (\<lambda>r _. \<forall>c. r = Inr c \<longrightarrow> wf_component c \<and> Base c = base) s''"
        if "Class ?c = 9"
        by (rule wp_conseq [OF wp_readDevice]) (use True that assms in \<open>auto simp: wf_component_def Class_def\<close>)
      then show ?case using True assms by (simp add: wp_return wf_component_def)
    qed simp
  qed
qed simp

lemma wp_Identify: "wp (Identify E ctx reader base) (\<lambda>r _. \<forall>c. r = Inr c \<longrightarrow> wf_component c \<and> Base c = base) s"
  unfolding Identify_def wp_simps
  by (auto simp: wp_simps page_aligned_def intro!: wp_identify_page split: option.splits prod.splits)

lemma ROMTable_wf:
  assumes "wf_component c"
  shows "ROMTable c = Inr t \<Longrightarrow> wf_table t \<and> tb_base t = Base c" "ROMTable c \<noteq> Inl cs_bad_snapshot"
  using assms
  by (auto simp: ROMTable_def wf_component_def wf_table_def page_aligned_def Let_def Architecture_def
      cs_bad_snapshot_def cs_unsupported_ROM_def split: if_splits)

lemma low_bits: "(a :: uint64) AND 0xFFF = take_bit 12 a"
  by (simp add: take_bit_eq_mask mask_eq_exp_minus_1)

lemma page_aligned_iff: "page_aligned a \<longleftrightarrow> uint a mod 4096 = 0"
proof -
  have "uint (take_bit 12 a) = take_bit 12 (uint a)" by (rule unsigned_take_bit_eq)
  then have "uint (take_bit 12 a) = uint a mod 4096" by (simp only: take_bit_eq_mod) simp
  then show ?thesis unfolding page_aligned_def low_bits by (metis uint_0_iff)
qed

lemma sint_low_bits:
  fixes v :: "'a::len word"
  assumes "take_bit n v = 0" "n \<le> LENGTH('a)"
  shows "take_bit n (sint v) = 0"
proof -
  have "n \<le> Suc (LENGTH('a) - Suc 0)" using assms(2) by simp
  then have "take_bit n (sint v) = take_bit n (uint v)"
    by (simp add: sint_uint take_bit_signed_take_bit)
  also have "\<dots> = uint (take_bit n v)" by (simp add: unsigned_take_bit_eq)
  finally show ?thesis using assms(1) by simp
qed

lemma entry_offset_aligned: "entry_offset t raw mod 4096 = 0"
proof -
  have low: "take_bit 12 (raw AND NOT 0xFFF) = 0"
  proof -
    have "(0xFFF :: uint64) = mask 12" by (simp add: mask_eq_exp_minus_1)
    then show ?thesis by (simp add: take_bit_eq_mask and.left_commute and.assoc)
  qed
  have "take_bit 12 (ucast x :: uint32) = ucast (take_bit 12 x)" for x :: uint64
    by (rule bit_word_eqI) (auto simp: bit_simps)
  with low have "take_bit 12 (ucast (raw AND NOT 0xFFF) :: uint32) = 0" by (simp only: unsigned_0)
  then have "take_bit 12 (entry_offset t raw) = 0"
    unfolding entry_offset_def using low by (simp add: sint_low_bits)
  then show ?thesis by (simp add: take_bit_eq_mod)
qed

lemma rom_decode_wf:
  assumes "page_aligned (tb_base t)" "rom_decode t raw = Inr e"
  shows "wf_entry t e \<and> re_Raw e = raw"
proof (cases "re_Present e")
  case False
  then show ?thesis
    using assms(2) by (auto simp: rom_decode_def wf_entry_def zero_entry_def Let_def split: if_splits sum.splits)
next
  case True
  then have "entryBase t raw = Inr (re_Base e)" and raw: "re_Raw e = raw" "raw \<noteq> 0" "\<not> re_End e"
    using assms(2) by (auto simp: rom_decode_def zero_entry_def Let_def split: if_splits sum.splits)
  then have base: "uint (re_Base e) = uint (tb_base t) + entry_offset t raw" "entry_offset t raw \<noteq> 0"
    by (simp_all add: entryBase_iff)
  have "page_aligned (re_Base e)"
    using assms(1) entry_offset_aligned [of t raw] unfolding page_aligned_iff base(1) dvd_eq_mod_eq_0 [symmetric] by (rule dvd_add)
  moreover have "re_Base e \<noteq> tb_base t" using base by auto
  ultimately show ?thesis using True raw base by (simp add: wf_entry_def)
qed

lemma wp_ReadEntry:
  assumes "page_aligned (tb_base t)"
  shows "wp (ReadEntry E t ctx reader index)
    (\<lambda>r _. \<forall>e. r = Inr e \<longrightarrow> wf_entry t e \<and> 0 \<le> index \<and> index < tb_count t) s"
  unfolding ReadEntry_def
  by (auto simp: wp_simps rom_decode_wf [OF assms] split: option.splits sum.splits intro!: run_wp)

lemma rom_entry_address_range:
  assumes "wf_table t" "0 \<le> index" "index < tb_count t"
  shows "uint (rom_entry_address t index) = uint (tb_base t) + index * uint (tb_stride t)"
    "uint (rom_entry_address t index) + uint (tb_stride t) \<le> uint (tb_base t) + 0xF00"
proof -
  have tab: "page_aligned (tb_base t)"
    "(tb_count t, uint (tb_stride t)) \<in> {(960, 4), (512, 4), (256, 8)}"
    using assms(1) by (auto simp: wf_table_def)
  have a: "uint (tb_base t) \<le> 2 ^ 64 - 4096"
  proof -
    from tab(1) obtain k where "uint (tb_base t) = 4096 * k" unfolding page_aligned_iff by (metis mod_0_imp_dvd dvdE)
    then show ?thesis using uint_lt2p [of "tb_base t"] by simp
  qed
  have i: "0 \<le> index * uint (tb_stride t)" "index * uint (tb_stride t) + uint (tb_stride t) \<le> 3840"
    using tab(2) assms(2,3) by auto
  define d where "d = index * uint (tb_stride t)"
  have addr: "rom_entry_address t index = tb_base t + word_of_int d"
    by (simp add: rom_entry_address_def d_def)
  have "0 \<le> uint (tb_stride t)" "0 \<le> uint (tb_base t)" by simp_all
  then have "- (2 ^ 64) < d" "d < 2 ^ 64" "\<not> uint (tb_base t) + d < 0" "uint (tb_base t) + d < 2 ^ 64"
    using a i unfolding d_def [symmetric] by linarith+
  then show sum: "uint (rom_entry_address t index) = uint (tb_base t) + index * uint (tb_stride t)"
    unfolding addr d_def [symmetric] using uint_add_int [of d "tb_base t"] by simp
  show "uint (rom_entry_address t index) + uint (tb_stride t) \<le> uint (tb_base t) + 0xF00"
    unfolding sum using i by simp
qed

section \<open>Static memories\<close>

text \<open>A reader of a memory that never changes and never fails.\<close>

definition static_reader :: "(uint64 \<Rightarrow> uint64) \<Rightarrow> 'w scalar_reader" where
  "static_reader mem = (\<lambda>ctx address size w. ((mem address, None), w))"

text \<open>An identification number: the low bytes of its registers as the digits to base 256.\<close>

definition id_number :: "(uint64 \<Rightarrow> uint64) \<Rightarrow> uint64 \<Rightarrow> uint64 list \<Rightarrow> uint64" where
  "id_number mem base offsets = horner_sum (\<lambda>offset. take_bit 8 (mem (base + offset))) 256 offsets"

lemma static_readWord:
  assumes "live E ctx"
  shows "run_state (cs_readWord E ctx (static_reader mem) a) s = (Inr (ucast (mem a)), s)"
  using assms by (simp add: cs_readWord_def bind_def live_def ctx_Err_def static_reader_def)

lemma id_number_Cons:
  "id_number mem base (offset # offsets) =
   take_bit 8 (mem (base + offset)) OR push_bit 8 (id_number mem base offsets)"
proof -
  let ?H = "id_number mem base offsets"
  have "take_bit 8 (mem (base + offset)) + push_bit 8 ?H = take_bit 8 (mem (base + offset)) OR push_bit 8 ?H"
    by (rule disjunctive_add) (auto simp: bit_simps)
  then show ?thesis by (simp add: id_number_def push_bit_eq_mult mult.commute)
qed

lemma low_byte: "(ucast ((ucast (v :: uint64) :: uint32) AND 0xFF) :: uint64) = take_bit 8 v"
proof -
  have "x AND 0xFF = take_bit 8 x" for x :: uint32 by (simp add: take_bit_eq_mask mask_eq_exp_minus_1)
  then show ?thesis by (auto intro!: bit_word_eqI simp only: bit_simps possible_bit_word) simp_all
qed

lemma static_readID_from:
  assumes "live E ctx"
  shows "run_state (cs_readID_from E ctx (static_reader mem) base offsets i ident) s =
    (Inr (ident OR push_bit (8 * i) (id_number mem base offsets)), s)"
proof (induction offsets arbitrary: i ident)
  case Nil
  then show ?case by (simp add: id_number_def)
next
  case (Cons offset offsets)
  then show ?case
    by (simp add: run_attempt static_readWord [OF assms] low_byte id_number_Cons push_bit_or push_bit_push_bit
        or.assoc add.commute)
qed

lemma static_readID:
  "live E ctx \<Longrightarrow> run_state (cs_readID E ctx (static_reader mem) base offsets) s = (Inr (id_number mem base offsets), s)"
  by (simp add: cs_readID_def static_readID_from)

definition static_component :: "(uint64 \<Rightarrow> uint64) \<Rightarrow> uint64 \<Rightarrow> component" where
  "static_component mem base =
     (let c = \<lparr>Base = base, CIDR = ucast (id_number mem base cidr_offsets), PIDR = id_number mem base pidr_offsets,
               DEVARCH = 0, DEVID = 0, DEVTYPE = 0\<rparr>
      in if Class c = 9
         then c\<lparr>DEVARCH := ucast (mem (base + 0xFBC)), DEVID := ucast (mem (base + 0xFC8)),
                DEVTYPE := ucast (mem (base + 0xFCC))\<rparr>
         else c)"

lemma ucast_byte_word: "(ucast (ucast (v :: uint64) :: uint32) :: byte) = ucast v"
  by (auto intro!: bit_word_eqI simp: bit_simps)

lemma static_Identify:
  assumes "live E ctx" "page_aligned base"
  shows "run_state (Identify E (Some ctx) (Some (static_reader mem)) base) s =
    (if valid_CIDR (CIDR (static_component mem base)) then Inr (static_component mem base)
     else Inl (cs_bad_CIDR (id_number mem base cidr_offsets) base), s)"
proof -
  have poll: "run_state (outside (ctx_Err E ctx)) s = (None, s)" for s :: "'c \<times> 'a"
    using assms(1) by (simp add: live_def ctx_Err_def)
  show ?thesis
    using assms(2)
    by (simp add: Identify_def bind_def poll page_aligned_def identify_page_def run_attempt static_readID [OF assms(1)]
        static_component_def Let_def readDevice_def static_readWord [OF assms(1)] ucast_byte_word del: run_prog)
qed

section \<open>Properties\<close>

text \<open>
  C29: identification yields well-typed values. A component that \<open>Identify\<close> returns has the address asked
  for, a valid CIDR and no device registers outside class 9; it is never an invalid snapshot for \<open>ROMTable\<close>;
  a table made from it has one of the three architectural layouts; each entry read from that table
  lies between the page's start and its registers at offset F00 without address wrap-around, and a present
  entry names another page-aligned address.
\<close>

theorem identified_values_well_formed:
  assumes "fst (run_state (Identify E ctx reader base) s) = Inr c"
  shows "wf_component c \<and> Base c = base \<and> ROMTable c \<noteq> Inl cs_bad_snapshot \<and>
    (\<forall>t. ROMTable c = Inr t \<longrightarrow> wf_table t \<and> tb_base t = base \<and>
      (\<forall>index e s'. fst (run_state (ReadEntry E t ctx reader index) s') = Inr e \<longrightarrow>
        wf_entry t e \<and> uint (rom_entry_address t index) = uint base + index * uint (tb_stride t) \<and>
        uint (rom_entry_address t index) + uint (tb_stride t) \<le> uint base + 0xF00))"
proof -
  have c: "wf_component c" "Base c = base"
    using wp_Identify [of E ctx reader base s] assms by (auto simp: wp_def split: prod.splits)
  have "wf_entry t e \<and> uint (rom_entry_address t index) = uint base + index * uint (tb_stride t) \<and>
        uint (rom_entry_address t index) + uint (tb_stride t) \<le> uint base + 0xF00"
    if "ROMTable c = Inr t" "fst (run_state (ReadEntry E t ctx reader index) s') = Inr e" for t index e s'
  proof -
    have t: "wf_table t" "tb_base t = base" using ROMTable_wf(1) [OF c(1) that(1)] c(2) by simp_all
    then have "page_aligned (tb_base t)" by (simp add: wf_table_def)
    from wp_ReadEntry [OF this, of E ctx reader index s'] that(2)
    have "wf_entry t e" "0 \<le> index" "index < tb_count t" by (auto simp: wp_def split: prod.splits)
    then show ?thesis using rom_entry_address_range [OF t(1)] t(2) by simp
  qed
  then show ?thesis using c ROMTable_wf [OF c(1)] by blast
qed

text \<open>
  A memory with a class 1 table at 1000 whose first entry names a component of class E at 2000, and whose
  second entry ends it.
\<close>

definition demo_mem :: "uint64 \<Rightarrow> uint64" where
  "demo_mem a = (case map_of
     [(0x1FF0, 0x0D), (0x1FF4, 0x10), (0x1FF8, 0x05), (0x1FFC, 0xB1), (0x1000, 0x1003),
      (0x2FF0, 0x0D), (0x2FF4, 0xE0), (0x2FF8, 0x05), (0x2FFC, 0xB1), (0x2FE0, 0x0C), (0x2FE4, 0xB0)] a of
     None \<Rightarrow> 0 | Some v \<Rightarrow> v)"

definition demo_table :: component where
  "demo_table = \<lparr>Base = 0x1000, CIDR = 0xB105100D, PIDR = 0, DEVARCH = 0, DEVID = 0, DEVTYPE = 0\<rparr>"

definition demo_leaf :: component where
  "demo_leaf = \<lparr>Base = 0x2000, CIDR = 0xB105E00D, PIDR = 0xB00C, DEVARCH = 0, DEVID = 0, DEVTYPE = 0\<rparr>"

lemma demo_components:
  "static_component demo_mem 0x1000 = demo_table" "static_component demo_mem 0x2000 = demo_leaf"
  "page_aligned 0x1000" "page_aligned 0x2000" "valid_CIDR (CIDR demo_table)" "valid_CIDR (CIDR demo_leaf)"
  by (code_simp+)

lemma demo_Identify:
  "run_state (Identify still_env (Some (Caller 0)) (Some (static_reader demo_mem)) 0x1000) s = (Inr demo_table, s)"
  "run_state (Identify still_env (Some (Caller 0)) (Some (static_reader demo_mem)) 0x2000) s = (Inr demo_leaf, s)"
  using static_Identify [OF live_still(1) [of 0] demo_components(3), where mem = demo_mem and s = s]
    static_Identify [OF live_still(1) [of 0] demo_components(4), where mem = demo_mem and s = s]
  unfolding demo_components by (simp_all add: demo_components)

theorem identified_values_well_formed_witness: "wf_component demo_table \<and> Base demo_table = 0x1000"
proof -
  have "fst (run_state (Identify still_env (Some (Caller 0)) (Some (static_reader demo_mem)) 0x1000) ((), ())) =
      Inr demo_table"
    by (simp add: demo_Identify)
  from identified_values_well_formed [OF this] show ?thesis by blast
qed

text \<open>
  C30: over a memory that does not change, \<open>Identify\<close> of an aligned page returns the component whose CIDR and
  PIDR are the numbers with the registers' low bytes as digits, with the device registers exactly for class 9,
  and refuses the page exactly when its CIDR is not that of a component.
\<close>

theorem Identify_decodes_registers:
  assumes "live E ctx" "page_aligned base"
  shows "run_state (Identify E (Some ctx) (Some (static_reader mem)) base) s =
    (if valid_CIDR (CIDR (static_component mem base)) then Inr (static_component mem base)
     else Inl (cs_bad_CIDR (id_number mem base cidr_offsets) base), s)"
  using static_Identify [OF assms] .

theorem Identify_decodes_registers_witness:
  "run_state (Identify still_env (Some (Caller 0)) (Some (static_reader demo_mem)) 0x2000) ((), ()) =
     (Inr demo_leaf, ((), ()))"
  using Identify_decodes_registers [OF live_still(1) [of 0] demo_components(4), where mem = demo_mem and s = "((), ())"]
  unfolding demo_components by (simp add: demo_components)

text \<open>
  C31: the address of a ROM entry is the table's address plus the entry's signed offset, computed in 64-bit
  arithmetic; it is refused exactly when the offset is zero or the sum leaves the 64-bit range.
\<close>

theorem entryBase_is_exact:
  "entryBase t raw = Inr b \<longleftrightarrow> entry_offset t raw \<noteq> 0 \<and> uint b = uint (tb_base t) + entry_offset t raw"
  using entryBase_iff .

end
