(* ===== verification/Cs_Walk.thy ===== *)
theory Cs_Walk
  imports Cs_Component "HOL-Library.While_Combinator"
begin

text \<open>
  The bounded walk over a ROM table hierarchy: \<open>src/coresight/walk.go\<close>. The walker's context and reader
  never change and are parameters; the stack grows at the head of the list. The loop of \<open>Walk\<close> is
  \<open>while_option\<close>, whose \<open>None\<close> is a loop that never ends.
\<close>

section \<open>Walking\<close>

record walk_limits =
  MaxDepth :: int
  MaxComponents :: int
  MaxEntries :: int

definition cs_bad_limits :: err where
  "cs_bad_limits = New ''coresight: require nonnegative depth and positive component and entry limits'' []"

definition WalkLimits_Validate :: "walk_limits \<Rightarrow> go_error" where
  "WalkLimits_Validate l =
     (if MaxDepth l < 0 \<or> MaxComponents l \<le> 0 \<or> MaxEntries l \<le> 0 then Some cs_bad_limits else None)"

record visit =
  v_Parent :: int
  v_Index :: int
  v_Entry :: rom_entry
  v_Component :: "component option"
  v_Err :: go_error

record walk_frame =
  wf_table_of :: rom_table
  wf_parent :: int
  wf_next :: int
  wf_depth :: int

record walker =
  wk_limits :: walk_limits
  wk_entries :: int
  wk_visits :: "visit list"
  wk_stack :: "walk_frame list"
  wk_seen :: "uint64 set"
  wk_skipped :: "err list"

type_synonym ('w, 'a) walking = "(walker, 'w, 'a) prog"

definition cs_repeated :: "uint64 \<Rightarrow> err" where
  "cs_repeated base = Wrap ''%w at %#x'' [uint base] [Sentinel CsErrRepeatedTable]"
definition cs_table_error :: "uint64 \<Rightarrow> err \<Rightarrow> err" where
  "cs_table_error base e = Wrap ''coresight: table %#x: %w'' [uint base] [e]"
definition cs_component_limit :: "uint64 \<Rightarrow> int \<Rightarrow> err" where
  "cs_component_limit base depth =
     Wrap ''%w: component %#x at depth %d'' [uint base, depth] [Sentinel CsErrWalkLimit]"
definition cs_entry_limit :: "uint64 \<Rightarrow> int \<Rightarrow> err" where
  "cs_entry_limit base index =
     Wrap ''%w: entries at table %#x index %d'' [uint base, index] [Sentinel CsErrWalkLimit]"
definition cs_power_domain :: "uint64 \<Rightarrow> byte \<Rightarrow> err" where
  "cs_power_domain base pid =
     Wrap ''component %#x power ID %d: %w'' [uint base, uint pid] [Sentinel CsErrPowerDomain]"

definition set_visit :: "nat \<Rightarrow> (visit \<Rightarrow> visit) \<Rightarrow> walker \<Rightarrow> walker" where
  "set_visit index f wk = wk\<lparr>wk_visits := (wk_visits wk)[index := f (wk_visits wk ! index)]\<rparr>"

text \<open>What \<open>identify\<close> does with an identified component.\<close>

definition record_component :: "uint64 \<Rightarrow> nat \<Rightarrow> int \<Rightarrow> component \<Rightarrow> ('w, go_error) walking" where
  "record_component base index depth component = do {
     _ \<leftarrow> update (set_visit index (\<lambda>v. v\<lparr>v_Component := Some component\<rparr>));
     case ROMTable component of
       Inl e \<Rightarrow>
         if err_is e CsErrNotROMTable then ret None else ret (Some (cs_table_error base e))
     | Inr table \<Rightarrow> do {
         _ \<leftarrow> update (\<lambda>wk. wk\<lparr>wk_seen := insert base (wk_seen wk),
           wk_stack := \<lparr>wf_table_of = table, wf_parent = int index, wf_next = 0, wf_depth = depth\<rparr> # wk_stack wk\<rparr>);
         ret None
       }
   }"

definition identify ::
  "'w go_env \<Rightarrow> ctx \<Rightarrow> 'w scalar_reader \<Rightarrow> uint64 \<Rightarrow> nat \<Rightarrow> int \<Rightarrow> ('w, go_error) walking" where
  "identify E ctx reader base index depth = do {
     seen \<leftarrow> fetch (\<lambda>wk. base \<in> wk_seen wk);
     if seen then ret (Some (cs_repeated base))
     else do {
       r \<leftarrow> Identify E (Some ctx) (Some reader) base;
       case r of
         Inl e \<Rightarrow> ret (Some e)
       | Inr component \<Rightarrow> record_component base index depth component
     }
   }"

definition inspect ::
  "'w go_env \<Rightarrow> ctx \<Rightarrow> 'w scalar_reader \<Rightarrow> uint64 \<Rightarrow> visit \<Rightarrow> int \<Rightarrow> ('w, go_error) walking" where
  "inspect E ctx reader base visit depth = do {
     wk \<leftarrow> fetch (\<lambda>wk. wk);
     if depth > MaxDepth (wk_limits wk) \<or> int (length (wk_visits wk)) = MaxComponents (wk_limits wk)
     then ret (Some (cs_component_limit base depth))
     else do {
       let index = length (wk_visits wk);
       _ \<leftarrow> update (\<lambda>wk. wk\<lparr>wk_visits := wk_visits wk @ [visit]\<rparr>);
       if re_PowerIDValid (v_Entry visit) then do {
         let e = cs_power_domain base (re_PowerID (v_Entry visit));
         _ \<leftarrow> update (\<lambda>wk. (set_visit index (\<lambda>v. v\<lparr>v_Err := Some e\<rparr>) wk)\<lparr>wk_skipped := wk_skipped wk @ [e]\<rparr>);
         ret None
       }
       else do {
         e \<leftarrow> identify E ctx reader base index depth;
         case e of
           None \<Rightarrow> ret None
         | Some x \<Rightarrow> do { _ \<leftarrow> update (set_visit index (\<lambda>v. v\<lparr>v_Err := Some x\<rparr>)); ret (Some x) }
       }
     }
   }"

text \<open>What a step does with the entry it read.\<close>

definition follow_entry ::
  "'w go_env \<Rightarrow> ctx \<Rightarrow> 'w scalar_reader \<Rightarrow> walk_frame \<Rightarrow> rom_entry \<Rightarrow> ('w, go_error) walking" where
  "follow_entry E ctx reader frame entry = do {
     _ \<leftarrow> update (\<lambda>wk. wk\<lparr>wk_stack := frame\<lparr>wf_next := wf_next frame + 1\<rparr> # tl (wk_stack wk)\<rparr>);
     if re_End entry then do {
       _ \<leftarrow> update (\<lambda>wk. wk\<lparr>wk_stack := tl (wk_stack wk)\<rparr>); ret None
     }
     else if \<not> re_Present entry then ret None
     else inspect E ctx reader (re_Base entry)
       \<lparr>v_Parent = wf_parent frame, v_Index = wf_next frame, v_Entry = entry, v_Component = None,
        v_Err = None\<rparr> (wf_depth frame + 1)
   }"

text \<open>The step of the loop, for a walker with a top frame.\<close>

definition walk_next ::
  "'w go_env \<Rightarrow> ctx \<Rightarrow> 'w scalar_reader \<Rightarrow> ('w, go_error) walking" where
  "walk_next E ctx reader = do {
     e \<leftarrow> outside (ctx_Err E ctx);
     case e of
       Some x \<Rightarrow> ret (Some (Sentinel x))
     | None \<Rightarrow> do {
         wk \<leftarrow> fetch (\<lambda>wk. wk);
         let frame = hd (wk_stack wk);
         if wf_next frame = EntryCount (wf_table_of frame) then do {
           _ \<leftarrow> update (\<lambda>wk. wk\<lparr>wk_stack := tl (wk_stack wk)\<rparr>); ret None
         }
         else if wk_entries wk = MaxEntries (wk_limits wk)
         then ret (Some (cs_entry_limit (tb_base (wf_table_of frame)) (wf_next frame)))
         else do {
           _ \<leftarrow> update (\<lambda>wk. wk\<lparr>wk_entries := wk_entries wk + 1\<rparr>);
           r \<leftarrow> ReadEntry E (wf_table_of frame) (Some ctx) (Some reader) (wf_next frame);
           case r of
             Inl x \<Rightarrow> ret (Some x)
           | Inr entry \<Rightarrow> follow_entry E ctx reader frame entry
         }
       }
   }"

definition root_visit :: visit where
  "root_visit = \<lparr>v_Parent = - 1, v_Index = - 1, v_Entry = zero_entry, v_Component = None, v_Err = None\<rparr>"

definition fresh_walker :: "walk_limits \<Rightarrow> walker" where
  "fresh_walker limits =
     \<lparr>wk_limits = limits, wk_entries = 0, wk_visits = [], wk_stack = [], wk_seen = {}, wk_skipped = []\<rparr>"

definition walk_loop ::
  "'w go_env \<Rightarrow> ctx \<Rightarrow> 'w scalar_reader \<Rightarrow> go_error \<times> walker \<times> 'w \<Rightarrow> (go_error \<times> walker \<times> 'w) option" where
  "walk_loop E ctx reader =
     while_option (\<lambda>(e, wk, w). e = None \<and> wk_stack wk \<noteq> [])
       (\<lambda>(e, s). run_state (walk_next E ctx reader) s)"

definition cs_bad_walk :: err where
  "cs_bad_walk = New ''coresight: invalid walk context, reader, or root address'' []"

definition Walk ::
  "'w go_env \<Rightarrow> ctx option \<Rightarrow> 'w scalar_reader option \<Rightarrow> uint64 \<Rightarrow> walk_limits \<Rightarrow> 'w \<Rightarrow>
   ((visit list \<times> go_error) \<times> 'w) option" where
  "Walk E ctx reader base limits w =
     (case WalkLimits_Validate limits of
        Some e \<Rightarrow> Some (([], Some e), w)
      | None \<Rightarrow>
          (case (ctx, reader) of
             (Some cx, Some rd) \<Rightarrow>
               if base AND 0xFFF \<noteq> 0 then Some (([], Some cs_bad_walk), w)
               else
                 (case ctx_Err E cx w of
                    (Some x, w) \<Rightarrow> Some (([], Some (Sentinel x)), w)
                  | (None, w) \<Rightarrow>
                      map_option (\<lambda>(e, wk, w). ((wk_visits wk, errors_Join (map Some (wk_skipped wk) @ [e])), w))
                        (walk_loop E cx rd
                           (run_state (inspect E cx rd base root_visit 0) (fresh_walker limits, w))))
           | _ \<Rightarrow> Some (([], Some cs_bad_walk), w)))"

section \<open>The steps of a walk\<close>

text \<open>
  What a walker does, as relations: \<open>P base c\<close> says that \<open>c\<close> may be identified at \<open>base\<close>, and \<open>R t i e\<close> that
  \<open>e\<close> may be read as entry \<open>i\<close> of \<open>t\<close>. An inspection stops at a limit, skips a child behind a power domain,
  fails, or records a component, which is a leaf or a table to enter.
\<close>

definition add_visit :: "visit \<Rightarrow> walker \<Rightarrow> walker" where
  "add_visit v wk = wk\<lparr>wk_visits := wk_visits wk @ [v]\<rparr>"

lemma add_visit_simps [simp]:
  "wk_limits (add_visit v wk) = wk_limits wk" "wk_entries (add_visit v wk) = wk_entries wk"
  "wk_visits (add_visit v wk) = wk_visits wk @ [v]" "wk_stack (add_visit v wk) = wk_stack wk"
  "wk_seen (add_visit v wk) = wk_seen wk" "wk_skipped (add_visit v wk) = wk_skipped wk"
  by (simp_all add: add_visit_def)

definition enter_table :: "rom_table \<Rightarrow> int \<Rightarrow> visit \<Rightarrow> walker \<Rightarrow> walker" where
  "enter_table t depth v wk =
     (add_visit v wk)\<lparr>wk_seen := insert (tb_base t) (wk_seen wk),
        wk_stack := \<lparr>wf_table_of = t, wf_parent = int (length (wk_visits wk)), wf_next = 0, wf_depth = depth\<rparr> #
          wk_stack wk\<rparr>"

definition within_limits :: "int \<Rightarrow> walker \<Rightarrow> bool" where
  "within_limits depth wk \<longleftrightarrow>
     depth \<le> MaxDepth (wk_limits wk) \<and> int (length (wk_visits wk)) \<noteq> MaxComponents (wk_limits wk)"

inductive inspected ::
  "(uint64 \<Rightarrow> component \<Rightarrow> bool) \<Rightarrow> uint64 \<Rightarrow> visit \<Rightarrow> int \<Rightarrow> walker \<Rightarrow> go_error \<Rightarrow> walker \<Rightarrow> bool"
  for P base v depth wk where
  limit: "\<not> within_limits depth wk \<Longrightarrow> inspected P base v depth wk (Some (cs_component_limit base depth)) wk"
| skip: "within_limits depth wk \<Longrightarrow> re_PowerIDValid (v_Entry v) \<Longrightarrow>
     e = cs_power_domain base (re_PowerID (v_Entry v)) \<Longrightarrow>
     inspected P base v depth wk None
       ((add_visit (v\<lparr>v_Err := Some e\<rparr>) wk)\<lparr>wk_skipped := wk_skipped wk @ [e]\<rparr>)"
| fail: "within_limits depth wk \<Longrightarrow> \<not> re_PowerIDValid (v_Entry v) \<Longrightarrow>
     c = v_Component v \<or> (\<exists>d x. c = Some d \<and> P base d \<and> ROMTable d = Inl x) \<Longrightarrow>
     inspected P base v depth wk (Some e) (add_visit (v\<lparr>v_Component := c, v_Err := Some e\<rparr>) wk)"
| leaf: "within_limits depth wk \<Longrightarrow> \<not> re_PowerIDValid (v_Entry v) \<Longrightarrow> P base c \<Longrightarrow> ROMTable c = Inl e \<Longrightarrow>
     err_is e CsErrNotROMTable \<Longrightarrow>
     inspected P base v depth wk None (add_visit (v\<lparr>v_Component := Some c\<rparr>) wk)"
| table: "within_limits depth wk \<Longrightarrow> \<not> re_PowerIDValid (v_Entry v) \<Longrightarrow> P base c \<Longrightarrow> ROMTable c = Inr t \<Longrightarrow>
     base \<notin> wk_seen wk \<Longrightarrow>
     inspected P base v depth wk None (enter_table t depth (v\<lparr>v_Component := Some c\<rparr>) wk)"

definition entry_visit :: "walk_frame \<Rightarrow> rom_entry \<Rightarrow> visit" where
  "entry_visit frame entry =
     \<lparr>v_Parent = wf_parent frame, v_Index = wf_next frame, v_Entry = entry, v_Component = None, v_Err = None\<rparr>"

definition count_entry :: "walker \<Rightarrow> walker" where
  "count_entry wk = wk\<lparr>wk_entries := wk_entries wk + 1\<rparr>"

definition advance :: "walker \<Rightarrow> walker" where
  "advance wk = (count_entry wk)\<lparr>wk_stack :=
     (hd (wk_stack wk))\<lparr>wf_next := wf_next (hd (wk_stack wk)) + 1\<rparr> # tl (wk_stack wk)\<rparr>"

inductive walked ::
  "(uint64 \<Rightarrow> component \<Rightarrow> bool) \<Rightarrow> (rom_table \<Rightarrow> int \<Rightarrow> rom_entry \<Rightarrow> bool) \<Rightarrow> walker \<Rightarrow> go_error \<Rightarrow> walker \<Rightarrow> bool"
  for P R wk where
  ended: "walked P R wk (Some e) wk"
| unread: "wk_entries wk \<noteq> MaxEntries (wk_limits wk) \<Longrightarrow> walked P R wk (Some e) (count_entry wk)"
| full: "wf_next (hd (wk_stack wk)) = tb_count (wf_table_of (hd (wk_stack wk))) \<Longrightarrow>
     walked P R wk None (wk\<lparr>wk_stack := tl (wk_stack wk)\<rparr>)"
| over: "wk_entries wk \<noteq> MaxEntries (wk_limits wk) \<Longrightarrow>
     R (wf_table_of (hd (wk_stack wk))) (wf_next (hd (wk_stack wk))) entry \<Longrightarrow> re_End entry \<Longrightarrow>
     walked P R wk None ((count_entry wk)\<lparr>wk_stack := tl (wk_stack wk)\<rparr>)"
| absent: "wk_entries wk \<noteq> MaxEntries (wk_limits wk) \<Longrightarrow>
     R (wf_table_of (hd (wk_stack wk))) (wf_next (hd (wk_stack wk))) entry \<Longrightarrow> \<not> re_End entry \<Longrightarrow>
     \<not> re_Present entry \<Longrightarrow> walked P R wk None (advance wk)"
| child: "wk_entries wk \<noteq> MaxEntries (wk_limits wk) \<Longrightarrow>
     R (wf_table_of (hd (wk_stack wk))) (wf_next (hd (wk_stack wk))) entry \<Longrightarrow> \<not> re_End entry \<Longrightarrow>
     re_Present entry \<Longrightarrow>
     inspected P (re_Base entry) (entry_visit (hd (wk_stack wk)) entry) (wf_depth (hd (wk_stack wk)) + 1)
       (advance wk) e wk' \<Longrightarrow>
     walked P R wk e wk'"

lemma only_world_readWord: "only_world (cs_readWord E ctx reader a)"
  unfolding cs_readWord_def by (rule only_worldI, intro keeps_intros)

lemmas keeps_readWord [keeps_intros] = only_world_keeps [OF only_world_readWord]

lemma only_world_readID_from: "only_world (cs_readID_from E ctx reader base offsets i ident)"
  by (rule only_worldI, induction offsets arbitrary: i ident) (auto intro!: keeps_intros)

lemmas keeps_readID_from [keeps_intros] = only_world_keeps [OF only_world_readID_from]

lemma only_world_Identify: "only_world (Identify E ctx reader base)"
  unfolding Identify_def identify_page_def readDevice_def cs_readID_def Let_def
  by (rule only_worldI, intro keeps_intros)

lemma only_world_ReadEntry: "only_world (ReadEntry E t ctx reader index)"
  unfolding ReadEntry_def read_raw_entry_def
  by (rule only_worldI) (auto split: option.splits intro!: keeps_intros)

lemma wp_only_world_conj:
  assumes "only_world m" "\<And>s. wp m (\<lambda>r _. Q r) s" "\<And>r w'. Q r \<Longrightarrow> S r (c, w')"
  shows "wp m S (c, w)"
proof -
  have "wp m (\<lambda>_ s. fst s = c) (c, w)"
    using assms(1) by (simp add: only_world_def keeps_def)
  from wp_conj [OF assms(2) this] show ?thesis
    by (rule wp_conseq) (auto simp: assms(3))
qed

lemma set_visit_last [simp]: "set_visit (length (wk_visits wk)) f (add_visit v wk) = add_visit (f v) wk"
  by (simp add: set_visit_def add_visit_def)

text \<open>What \<open>identify\<close> leaves behind, before \<open>inspect\<close> records its error.\<close>

definition identified ::
  "(uint64 \<Rightarrow> component \<Rightarrow> bool) \<Rightarrow> uint64 \<Rightarrow> visit \<Rightarrow> int \<Rightarrow> walker \<Rightarrow> go_error \<Rightarrow> walker \<times> 'w \<Rightarrow> bool" where
  "identified P base v depth wk e s =
     (case e of
        None \<Rightarrow> inspected P base v depth wk None (fst s)
      | Some x \<Rightarrow> \<exists>c. (c = v_Component v \<or> (\<exists>d y. c = Some d \<and> P base d \<and> ROMTable d = Inl y)) \<and>
          fst s = add_visit (v\<lparr>v_Component := c\<rparr>) wk)"

definition walk_measure :: "go_error \<times> walker \<times> 'w \<Rightarrow> nat" where
  "walk_measure = (\<lambda>(e, wk, w).
     2 * nat (MaxEntries (wk_limits wk) - wk_entries wk) + length (wk_stack wk) + (if e = None then 1 else 0))"

text \<open>The promises of a reader that a walk relies on.\<close>

locale rom_reading =
  fixes E :: "'w go_env" and ctx :: ctx and reader :: "'w scalar_reader"
    and P :: "uint64 \<Rightarrow> component \<Rightarrow> bool" and R :: "rom_table \<Rightarrow> int \<Rightarrow> rom_entry \<Rightarrow> bool"
  assumes Identify_ok: "wp (Identify E (Some ctx) (Some reader) base) (\<lambda>r _. \<forall>c. r = Inr c \<longrightarrow> P base c) (s :: walker \<times> 'w)"
    and ReadEntry_ok: "wp (ReadEntry E t (Some ctx) (Some reader) i) (\<lambda>r _. \<forall>e. r = Inr e \<longrightarrow> R t i e) (s :: walker \<times> 'w)"
    and P_base: "P base c \<Longrightarrow> wf_component c \<and> Base c = base"
begin

lemma wp_record_component:
  assumes "within_limits depth wk" "\<not> re_PowerIDValid (v_Entry v)" "base \<notin> wk_seen wk" "P base c"
  shows "wp (record_component base (length (wk_visits wk)) depth c) (identified P base v depth wk) (add_visit v wk, w)"
proof (cases "ROMTable c")
  case (Inl e)
  then show ?thesis
    using assms by (auto simp: record_component_def wp_simps identified_def intro: inspected.leaf)
next
  case (Inr t)
  have "tb_base t = base" using ROMTable_wf(1) [OF _ Inr] P_base [OF assms(4)] by simp
  moreover have "inspected P base v depth wk None (enter_table t depth (v\<lparr>v_Component := Some c\<rparr>) wk)"
    by (rule inspected.table [where P = P, OF assms(1,2,4) Inr assms(3)])
  ultimately show ?thesis
    using Inr by (simp add: record_component_def wp_simps identified_def enter_table_def)
qed

lemma wp_identify:
  assumes "within_limits depth wk" "\<not> re_PowerIDValid (v_Entry v)"
  shows "wp (identify E ctx reader base (length (wk_visits wk)) depth) (identified P base v depth wk) (add_visit v wk, w)"
proof (cases "base \<in> wk_seen wk")
  case True
  then show ?thesis by (auto simp: identify_def wp_simps identified_def intro!: exI [of _ "v_Component v"])
next
  case False
  have "wp (State_Monad.bind (Identify E (Some ctx) (Some reader) base)
      (\<lambda>r. case r of Inl e \<Rightarrow> ret (Some e) | Inr c \<Rightarrow> record_component base (length (wk_visits wk)) depth c))
    (identified P base v depth wk) (add_visit v wk, w)"
    unfolding wp_bind
    by (rule wp_only_world_conj [OF only_world_Identify Identify_ok])
       (auto simp: wp_return identified_def [of _ _ _ _ _ "Some _"] split: sum.splits intro!: wp_record_component assms False)
  then show ?thesis using False by (simp add: identify_def wp_bind wp_prog)
qed

lemma wp_inspect: "wp (inspect E ctx reader base v depth) (\<lambda>e s. inspected P base v depth wk e (fst s)) (wk, w)"
proof (cases "within_limits depth wk")
  case False
  then show ?thesis
    using inspected.limit [where P = P, OF False]
    by (auto simp: inspect_def wp_simps within_limits_def)
next
  case True
  have tail: "wp (case e of None \<Rightarrow> ret None
           | Some x \<Rightarrow> do { _ \<leftarrow> update (set_visit (length (wk_visits wk)) (\<lambda>v. v\<lparr>v_Err := Some x\<rparr>)); ret (Some x) })
      (\<lambda>e s. inspected P base v depth wk e (fst s)) s"
    if "identified P base v depth wk e s" "\<not> re_PowerIDValid (v_Entry v)" for e s
  proof (cases e)
    case None
    then show ?thesis using that by (simp add: identified_def wp_simps)
  next
    case (Some x)
    with that(1) obtain c where c: "c = v_Component v \<or> (\<exists>d y. c = Some d \<and> P base d \<and> ROMTable d = Inl y)"
      "fst s = add_visit (v\<lparr>v_Component := c\<rparr>) wk" unfolding identified_def by (simp only: option.case) blast
    from inspected.fail [where P = P, OF True that(2) c(1)] show ?thesis
      using Some c(2) by (simp add: wp_simps)
  qed
  show ?thesis
  proof (cases "re_PowerIDValid (v_Entry v)")
    case pid: True
    then show ?thesis
      using True inspected.skip [where P = P, OF True pid refl]
      by (simp add: inspect_def Let_def wp_simps within_limits_def not_less add_visit_def [symmetric])
  next
    case False
    with True show ?thesis
      by (simp add: inspect_def Let_def wp_bind wp_prog within_limits_def not_less add_visit_def [symmetric])
         (rule wp_conseq [OF wp_identify [OF True False] tail])
  qed
qed

lemma wp_walk_next:
  "wp (walk_next E ctx reader) (\<lambda>e s. walked P R wk e (fst s)) (wk, w)"
proof -
  let ?frame = "hd (wk_stack wk)" and ?Q = "\<lambda>e s. walked P R wk e (fst s)"
  have follow: "wp (follow_entry E ctx reader ?frame entry) ?Q (count_entry wk, w')"
    if "R (wf_table_of ?frame) (wf_next ?frame) entry" "wk_entries wk \<noteq> MaxEntries (wk_limits wk)" for entry w'
  proof -
    have adv: "(count_entry wk)\<lparr>wk_stack := ?frame\<lparr>wf_next := wf_next ?frame + 1\<rparr> # tl (wk_stack (count_entry wk))\<rparr> = advance wk"
      by (simp add: advance_def count_entry_def)
    have pop: "(advance wk)\<lparr>wk_stack := tl (wk_stack (advance wk))\<rparr> = (count_entry wk)\<lparr>wk_stack := tl (wk_stack wk)\<rparr>"
      by (simp add: advance_def)
    have "wp (inspect E ctx reader (re_Base entry) (entry_visit ?frame entry) (wf_depth ?frame + 1)) ?Q (advance wk, w')"
      if "\<not> re_End entry" "re_Present entry"
      by (rule wp_conseq [OF wp_inspect]) (rule walked.child [where P = P and R = R, OF \<open>wk_entries wk \<noteq> _\<close> \<open>R _ _ _\<close> that])
    then show ?thesis
      using walked.over [where P = P and R = R, OF that(2,1)] walked.absent [where P = P and R = R, OF that(2,1)]
      by (simp add: follow_entry_def wp_simps adv pop entry_visit_def)
  qed
  have read: "wp (State_Monad.bind (ReadEntry E (wf_table_of ?frame) (Some ctx) (Some reader) (wf_next ?frame))
      (\<lambda>r. case r of Inl x \<Rightarrow> ret (Some x) | Inr entry \<Rightarrow> follow_entry E ctx reader ?frame entry)) ?Q (count_entry wk, w')"
    if "wk_entries wk \<noteq> MaxEntries (wk_limits wk)" for w'
    unfolding wp_bind
    by (rule wp_only_world_conj [OF only_world_ReadEntry ReadEntry_ok])
       (auto simp: wp_return split: sum.splits intro: walked.unread [where P = P and R = R, OF that] follow [OF _ that])
  show ?thesis
    using walked.full [where P = P and R = R and wk = wk]
    by (auto simp: walk_next_def Let_def wp_bind wp_case wp_if wp_prog wp_return EntryCount_def count_entry_def [symmetric]
        intro: walked.ended read [unfolded wp_bind] split: prod.splits option.splits)
qed

text \<open>Invariants of the loop, and its end.\<close>

lemma walk_loop_inv:
  assumes step: "\<And>wk e wk'. I None wk \<Longrightarrow> wk_stack wk \<noteq> [] \<Longrightarrow> walked P R wk e wk' \<Longrightarrow> I e wk'"
    and start: "I e0 wk0" and loop: "walk_loop E ctx reader (e0, wk0, w0) = Some (e, wk, w)"
  shows "I e wk" "e \<noteq> None \<or> wk_stack wk = []"
proof -
  let ?J = "\<lambda>(e, wk, w :: 'w). I e wk"
  have "?J (e, wk, w)"
  proof (rule while_option_rule [where P = ?J, OF _ loop [unfolded walk_loop_def]])
    fix s assume "?J s" "case s of (e, wk, w) \<Rightarrow> e = None \<and> wk_stack wk \<noteq> []"
    then obtain wk and w :: 'w where s: "s = (None, wk, w)" "I None wk" "wk_stack wk \<noteq> []" by (auto split: prod.splits)
    from wp_walk_next [of wk w] step [OF s(2,3)]
    show "?J (case s of (e, s) \<Rightarrow> run_state (walk_next E ctx reader) s)"
      by (auto simp: s(1) wp_def split: prod.splits)
  qed (simp add: start)
  then show "I e wk" by simp
  from while_option_stop [OF loop [unfolded walk_loop_def]] show "e \<noteq> None \<or> wk_stack wk = []" by simp
qed

lemma walk_step_decreases:
  assumes "wk_entries wk \<le> MaxEntries (wk_limits wk)" "wk_stack wk \<noteq> []" "walked P R wk e wk'"
  shows "wk_entries wk' \<le> MaxEntries (wk_limits wk')" "walk_measure (e, wk', w') < walk_measure (None, wk, w)"
proof -
  have "wk_entries wk' \<le> MaxEntries (wk_limits wk') \<and> walk_measure (e, wk', w') < walk_measure (None, wk, w)"
    using assms(3)
  proof cases
    case (child entry)
    from child(5) have "wk_limits wk' = wk_limits wk" "wk_entries wk' = wk_entries wk + 1"
      "length (wk_stack wk') \<le> length (wk_stack wk) + 1"
      using assms(2) by (cases; simp add: advance_def count_entry_def enter_table_def)+
    moreover have "nat (MaxEntries (wk_limits wk) - wk_entries wk) =
        Suc (nat (MaxEntries (wk_limits wk) - (wk_entries wk + 1)))"
      using assms(1) child(1) by linarith
    ultimately show ?thesis using assms(1) child(1) by (simp add: walk_measure_def)
  qed (use assms(1,2) in \<open>auto simp: walk_measure_def count_entry_def advance_def\<close>)
  then show "wk_entries wk' \<le> MaxEntries (wk_limits wk')" "walk_measure (e, wk', w') < walk_measure (None, wk, w)"
    by simp_all
qed

lemma walk_loop_terminates:
  assumes "wk_entries wk \<le> MaxEntries (wk_limits wk)"
  shows "\<exists>r. walk_loop E ctx reader (e, wk, w) = Some r"
  unfolding walk_loop_def
proof (rule measure_while_option_Some [where P = "\<lambda>(e, wk, w). wk_entries wk \<le> MaxEntries (wk_limits wk)"
      and f = walk_measure])
  fix s :: "go_error \<times> walker \<times> 'w"
  assume "case s of (e, wk, w) \<Rightarrow> wk_entries wk \<le> MaxEntries (wk_limits wk)"
    "case s of (e, wk, w) \<Rightarrow> e = None \<and> wk_stack wk \<noteq> []"
  then obtain wk w where s: "s = (None, wk, w)" "wk_entries wk \<le> MaxEntries (wk_limits wk)" "wk_stack wk \<noteq> []"
    by (auto split: prod.splits)
  obtain e wk' w' where run: "run_state (walk_next E ctx reader) (wk, w) = (e, wk', w')" by (metis surj_pair)
  with wp_walk_next [of wk w] have "walked P R wk e wk'" by (simp add: wp_def)
  from walk_step_decreases [OF s(2,3) this]
  show "(case case s of (e, s) \<Rightarrow> run_state (walk_next E ctx reader) s of
        (e, wk, w) \<Rightarrow> wk_entries wk \<le> MaxEntries (wk_limits wk)) \<and>
      walk_measure (case s of (e, s) \<Rightarrow> run_state (walk_next E ctx reader) s) < walk_measure s"
    by (simp add: s(1) run)
qed (simp add: assms)

end

end
