(* ===== verification/Cs_Traversal.thy ===== *)
theory Cs_Traversal
  imports Cs_Walk
begin

text \<open>
  What a walk of \<open>src/coresight/walk.go\<close> returns: it always returns, its visits form a tree within the limits,
  and over a memory that does not change a walk without an error has visited the whole hierarchy in
  depth-first order.
\<close>

section \<open>The visits form a tree\<close>

definition table_at :: "visit \<Rightarrow> rom_table option" where
  "table_at v = (case v_Component v of None \<Rightarrow> None | Some c \<Rightarrow> (case ROMTable c of Inl _ \<Rightarrow> None | Inr t \<Rightarrow> Some t))"

text \<open>A visit is the root, or names an earlier table and one of its present entries.\<close>

definition visit_ok ::
  "(uint64 \<Rightarrow> component \<Rightarrow> bool) \<Rightarrow> (rom_table \<Rightarrow> int \<Rightarrow> rom_entry \<Rightarrow> bool) \<Rightarrow> uint64 \<Rightarrow> visit list \<Rightarrow> nat \<Rightarrow> bool" where
  "visit_ok P R base vs i \<longleftrightarrow>
     (if i = 0 then v_Parent (vs ! i) = - 1 \<and> v_Index (vs ! i) = - 1 \<and> v_Entry (vs ! i) = zero_entry
      else 0 \<le> v_Parent (vs ! i) \<and> nat (v_Parent (vs ! i)) < i \<and>
        (\<exists>t. table_at (vs ! nat (v_Parent (vs ! i))) = Some t \<and> R t (v_Index (vs ! i)) (v_Entry (vs ! i))) \<and>
        re_Present (v_Entry (vs ! i))) \<and>
     (\<forall>c. v_Component (vs ! i) = Some c \<longrightarrow>
        P (if i = 0 then base else re_Base (v_Entry (vs ! i))) c \<and> \<not> re_PowerIDValid (v_Entry (vs ! i)))"

inductive at_depth :: "visit list \<Rightarrow> nat \<Rightarrow> int \<Rightarrow> bool" for vs where
  root: "vs \<noteq> [] \<Longrightarrow> at_depth vs 0 0"
| child: "0 < i \<Longrightarrow> i < length vs \<Longrightarrow> nat (v_Parent (vs ! i)) < i \<Longrightarrow> at_depth vs (nat (v_Parent (vs ! i))) d \<Longrightarrow>
     at_depth vs i (d + 1)"

lemma at_depth_less: "at_depth vs i d \<Longrightarrow> i < length vs"
  by (induction rule: at_depth.induct) auto

lemma at_depth_append: "at_depth vs i d \<Longrightarrow> at_depth (vs @ us) i d"
proof (induction rule: at_depth.induct)
  case root
  then show ?case by (auto intro: at_depth.root)
next
  case (child i d)
  then show ?case using at_depth.child [of i "vs @ us" d] by (simp add: nth_append)
qed

lemma visit_ok_append: "i < length vs \<Longrightarrow> visit_ok P R base (vs @ us) i = visit_ok P R base vs i"
  by (auto simp: visit_ok_def nth_append)

definition siblings_ordered :: "visit list \<Rightarrow> bool" where
  "siblings_ordered vs \<longleftrightarrow> (\<forall>j < length vs. \<forall>i < j. v_Parent (vs ! i) = v_Parent (vs ! j) \<longrightarrow>
     v_Index (vs ! i) < v_Index (vs ! j))"

definition table_bases :: "visit list \<Rightarrow> uint64 list" where
  "table_bases vs = map tb_base (List.map_filter table_at vs)"

lemma table_bases_append [simp]: "table_bases (vs @ us) = table_bases vs @ table_bases us"
  by (simp add: table_bases_def List.map_filter_def)

lemma table_bases_single: "table_bases [v] = (case table_at v of None \<Rightarrow> [] | Some t \<Rightarrow> [tb_base t])"
  by (simp add: table_bases_def List.map_filter_def split: option.splits)

definition tree_ok :: "(uint64 \<Rightarrow> component \<Rightarrow> bool) \<Rightarrow> (rom_table \<Rightarrow> int \<Rightarrow> rom_entry \<Rightarrow> bool) \<Rightarrow>
    uint64 \<Rightarrow> walk_limits \<Rightarrow> visit list \<Rightarrow> bool" where
  "tree_ok P R base limits vs \<longleftrightarrow>
     int (length vs) \<le> max 0 (MaxComponents limits) \<and>
     (\<forall>i < length vs. visit_ok P R base vs i \<and> (\<exists>d \<le> MaxDepth limits. at_depth vs i d)) \<and>
     siblings_ordered vs \<and> distinct (table_bases vs)"

definition frame_ok :: "walk_limits \<Rightarrow> visit list \<Rightarrow> walk_frame \<Rightarrow> bool" where
  "frame_ok limits vs f \<longleftrightarrow> 0 \<le> wf_parent f \<and> wf_parent f < int (length vs) \<and>
     table_at (vs ! nat (wf_parent f)) = Some (wf_table_of f) \<and>
     at_depth vs (nat (wf_parent f)) (wf_depth f) \<and>
     (\<forall>v \<in> set vs. v_Parent v = wf_parent f \<longrightarrow> v_Index v < wf_next f)"

definition walk_inv :: "(uint64 \<Rightarrow> component \<Rightarrow> bool) \<Rightarrow> (rom_table \<Rightarrow> int \<Rightarrow> rom_entry \<Rightarrow> bool) \<Rightarrow>
    uint64 \<Rightarrow> walk_limits \<Rightarrow> go_error \<Rightarrow> walker \<Rightarrow> bool" where
  "walk_inv P R base limits e wk \<longleftrightarrow> wk_limits wk = limits \<and> 0 < length (wk_visits wk) \<and>
     tree_ok P R base limits (wk_visits wk) \<and> wk_seen wk = set (table_bases (wk_visits wk)) \<and>
     distinct (map wf_parent (wk_stack wk)) \<and>
     (\<forall>f \<in> set (wk_stack wk). frame_ok limits (wk_visits wk) f)"

lemma walk_inv_skipped [simp]: "walk_inv P R base limits e (wk\<lparr>wk_skipped := es\<rparr>) = walk_inv P R base limits e wk"
  by (simp add: walk_inv_def)

lemma walk_inv_entries [simp]: "walk_inv P R base limits e (count_entry wk) = walk_inv P R base limits e wk"
  by (simp add: walk_inv_def count_entry_def)

lemma walk_inv_pop: "walk_inv P R base limits e wk \<Longrightarrow> walk_inv P R base limits e' (wk\<lparr>wk_stack := tl (wk_stack wk)\<rparr>)"
  by (cases "wk_stack wk") (auto simp: walk_inv_def)

lemma walk_inv_error: "walk_inv P R base limits e wk \<Longrightarrow> walk_inv P R base limits e' wk"
  by (simp add: walk_inv_def)

lemma frame_ok_advance:
  "frame_ok limits vs f \<Longrightarrow> frame_ok limits vs (f\<lparr>wf_next := wf_next f + 1\<rparr>)"
  by (fastforce simp: frame_ok_def)

lemma walk_inv_advance:
  "walk_inv P R base limits e wk \<Longrightarrow> wk_stack wk \<noteq> [] \<Longrightarrow> walk_inv P R base limits e' (advance wk)"
  by (cases "wk_stack wk") (auto simp: walk_inv_def advance_def count_entry_def intro: frame_ok_advance)

text \<open>A visit recorded for a child of the top frame.\<close>

definition child_visit :: "(uint64 \<Rightarrow> component \<Rightarrow> bool) \<Rightarrow> (rom_table \<Rightarrow> int \<Rightarrow> rom_entry \<Rightarrow> bool) \<Rightarrow>
    walk_frame \<Rightarrow> visit \<Rightarrow> bool" where
  "child_visit P R f v \<longleftrightarrow> v_Parent v = wf_parent f \<and> v_Index v + 1 = wf_next f \<and>
     R (wf_table_of f) (v_Index v) (v_Entry v) \<and> re_Present (v_Entry v) \<and>
     (\<forall>c. v_Component v = Some c \<longrightarrow> P (re_Base (v_Entry v)) c \<and> \<not> re_PowerIDValid (v_Entry v))"

lemma add_child:
  assumes inv: "walk_inv P R base limits e wk" and st: "wk_stack wk = f # fs"
    and fresh: "\<forall>v \<in> set (wk_visits wk). v_Parent v = wf_parent f \<longrightarrow> v_Index v + 1 < wf_next f"
    and v: "child_visit P R f v" and lim: "within_limits (wf_depth f + 1) wk"
    and new: "\<forall>t. table_at v = Some t \<longrightarrow> tb_base t \<notin> wk_seen wk"
  shows "tree_ok P R base limits (wk_visits wk @ [v])"
    "\<forall>g \<in> set (wk_stack wk). frame_ok limits (wk_visits wk @ [v]) g"
    "at_depth (wk_visits wk @ [v]) (length (wk_visits wk)) (wf_depth f + 1)"
proof -
  let ?vs = "wk_visits wk" and ?n = "length (wk_visits wk)"
  have lims: "wk_limits wk = limits" and tree: "tree_ok P R base limits ?vs" and n: "0 < ?n"
    and seen: "wk_seen wk = set (table_bases ?vs)" and dist: "distinct (map wf_parent (wk_stack wk))"
    and frames: "\<forall>g \<in> set (wk_stack wk). frame_ok limits ?vs g"
    using inv by (simp_all add: walk_inv_def)
  have f: "frame_ok limits ?vs f" using frames st by simp
  have p: "0 \<le> v_Parent v" "nat (v_Parent v) < ?n" "v_Parent v = wf_parent f"
    using f v by (auto simp: frame_ok_def child_visit_def)
  show depth: "at_depth (?vs @ [v]) ?n (wf_depth f + 1)"
    using at_depth.child [of ?n "?vs @ [v]" "wf_depth f"] n p f at_depth_append [of ?vs "nat (wf_parent f)" "wf_depth f"]
    by (simp add: frame_ok_def nth_append)
  have "visit_ok P R base (?vs @ [v]) ?n"
    using p n v f by (auto simp: visit_ok_def nth_append frame_ok_def child_visit_def)
  moreover have "wf_depth f + 1 \<le> MaxDepth limits" "int ?n \<noteq> MaxComponents limits"
    using lim lims by (auto simp: within_limits_def)
  moreover have "distinct (table_bases (?vs @ [v]))"
    using tree new seen by (auto simp: tree_ok_def table_bases_single split: option.splits)
  moreover have "siblings_ordered (?vs @ [v])"
    using tree fresh v p(3) by (auto simp: tree_ok_def siblings_ordered_def nth_append child_visit_def less_Suc_eq)
  moreover have "int (length (?vs @ [v])) \<le> max 0 (MaxComponents limits)"
    using tree n \<open>int ?n \<noteq> MaxComponents limits\<close> by (simp add: tree_ok_def max_def split: if_splits)
  moreover have "visit_ok P R base (?vs @ [v]) i \<and> (\<exists>d \<le> MaxDepth limits. at_depth (?vs @ [v]) i d)" if "i < ?n" for i
    using tree that unfolding tree_ok_def by (metis visit_ok_append at_depth_append)
  ultimately show "tree_ok P R base limits (?vs @ [v])"
    using depth unfolding tree_ok_def length_append_singleton less_Suc_eq by blast
  show "\<forall>g \<in> set (wk_stack wk). frame_ok limits (?vs @ [v]) g"
  proof
    fix g assume g: "g \<in> set (wk_stack wk)"
    have "v_Index v < wf_next g" if "v_Parent v = wf_parent g"
    proof -
      have "g = f" using g that p(3) dist st by auto
      then show ?thesis using v by (simp add: child_visit_def)
    qed
    moreover have "frame_ok limits ?vs g" using frames g by blast
    ultimately show "frame_ok limits (?vs @ [v]) g"
      by (simp add: frame_ok_def nth_append at_depth_append nat_less_iff)
  qed
qed

lemma walk_inv_add:
  assumes "walk_inv P R base limits e wk" "wk_stack wk = f # fs"
    "\<forall>v \<in> set (wk_visits wk). v_Parent v = wf_parent f \<longrightarrow> v_Index v + 1 < wf_next f"
    "child_visit P R f v" "within_limits (wf_depth f + 1) wk" "table_at v = None"
  shows "walk_inv P R base limits e' (add_visit v wk)"
  using add_child [OF assms(1-5)] assms by (simp add: walk_inv_def table_bases_single)

lemma parents_earlier:
  assumes "tree_ok P R base limits vs" "v \<in> set vs"
  shows "v_Parent v < int (length vs) - 1"
proof -
  obtain i where i: "i < length vs" "vs ! i = v" using assms(2) by (auto simp: in_set_conv_nth)
  then have "visit_ok P R base vs i" using assms(1) by (simp add: tree_ok_def)
  then show ?thesis using i by (auto simp: visit_ok_def split: if_splits)
qed

lemma walk_inv_enter:
  assumes "walk_inv P R base limits e wk" "wk_stack wk = f # fs"
    "\<forall>v \<in> set (wk_visits wk). v_Parent v = wf_parent f \<longrightarrow> v_Index v + 1 < wf_next f"
    "child_visit P R f v" "within_limits (wf_depth f + 1) wk" "table_at v = Some t" "tb_base t \<notin> wk_seen wk"
  shows "walk_inv P R base limits e' (enter_table t (wf_depth f + 1) v wk)"
proof -
  let ?vs = "wk_visits wk"
  have "\<forall>t. table_at v = Some t \<longrightarrow> tb_base t \<notin> wk_seen wk" using assms(6,7) by simp
  note new = add_child [OF assms(1-5) this]
  have "frame_ok limits (?vs @ [v]) \<lparr>wf_table_of = t, wf_parent = int (length ?vs), wf_next = 0, wf_depth = wf_depth f + 1\<rparr>"
    using new(3) assms(6) parents_earlier [OF new(1)] by (force simp: frame_ok_def nth_append)
  moreover have "int (length ?vs) \<notin> wf_parent ` set (wk_stack wk)"
    using assms(1) by (auto simp: walk_inv_def frame_ok_def)
  ultimately show ?thesis
    using new assms(1,6) by (auto simp: walk_inv_def enter_table_def table_bases_single)
qed

context rom_reading
begin

lemma inspected_inv:
  assumes inv: "walk_inv P R root limits e0 wk" and st: "wk_stack wk = f # fs"
    and fresh: "\<forall>v \<in> set (wk_visits wk). v_Parent v = wf_parent f \<longrightarrow> v_Index v + 1 < wf_next f"
    and v: "child_visit P R f v" "v_Component v = None" "base = re_Base (v_Entry v)"
    and ins: "inspected P base v (wf_depth f + 1) wk e wk'"
  shows "walk_inv P R root limits e wk'"
  using ins
proof cases
  case limit
  then show ?thesis using walk_inv_error [OF inv] by simp
next
  case (skip x)
  have "child_visit P R f (v\<lparr>v_Err := Some x\<rparr>)" "table_at (v\<lparr>v_Err := Some x\<rparr>) = None"
    using v by (simp_all add: child_visit_def table_at_def)
  from walk_inv_add [OF inv st fresh this(1) skip(3) this(2)] show ?thesis using skip by simp
next
  case (fail c x)
  have "child_visit P R f (v\<lparr>v_Component := c, v_Err := Some x\<rparr>)" "table_at (v\<lparr>v_Component := c, v_Err := Some x\<rparr>) = None"
    using v fail by (auto simp: child_visit_def table_at_def)
  from walk_inv_add [OF inv st fresh this(1) fail(3) this(2)] show ?thesis using fail by simp
next
  case (leaf c x)
  have "child_visit P R f (v\<lparr>v_Component := Some c\<rparr>)" "table_at (v\<lparr>v_Component := Some c\<rparr>) = None"
    using v leaf by (auto simp: child_visit_def table_at_def)
  from walk_inv_add [OF inv st fresh this(1) leaf(3) this(2)] show ?thesis using leaf by simp
next
  case (table c t)
  have "child_visit P R f (v\<lparr>v_Component := Some c\<rparr>)" "table_at (v\<lparr>v_Component := Some c\<rparr>) = Some t"
    using v table by (auto simp: child_visit_def table_at_def)
  moreover have "tb_base t = base" using ROMTable_wf(1) [OF _ table(6)] P_base [OF table(5)] by simp
  ultimately show ?thesis
    using walk_inv_enter [OF inv st fresh _ table(3)] table by simp
qed

lemma walked_inv:
  assumes inv: "walk_inv P R root limits None wk" and "wk_stack wk \<noteq> []" and "walked P R wk e wk'"
  shows "walk_inv P R root limits e wk'"
proof -
  obtain f fs where st: "wk_stack wk = f # fs" using assms(2) by (cases "wk_stack wk") auto
  let ?f = "f\<lparr>wf_next := wf_next f + 1\<rparr>"
  have adv: "wk_stack (advance wk) = ?f # fs" "wk_visits (advance wk) = wk_visits wk"
    by (simp_all add: advance_def count_entry_def st)
  have fresh: "\<forall>v \<in> set (wk_visits (advance wk)). v_Parent v = wf_parent ?f \<longrightarrow> v_Index v + 1 < wf_next ?f"
    using inv st by (auto simp: walk_inv_def frame_ok_def adv(2))
  from assms(3) show ?thesis
  proof cases
    case (child entry)
    then have "child_visit P R ?f (entry_visit f entry)" by (simp add: child_visit_def entry_visit_def st)
    from inspected_inv [OF walk_inv_advance [OF inv assms(2)] adv(1) fresh this]
    show ?thesis using child(5) by (simp add: st entry_visit_def)
  next
    case full
    then show ?thesis using walk_inv_pop [OF inv] by simp
  next
    case (over entry)
    then show ?thesis using walk_inv_pop [of P R root limits None "count_entry wk" e] inv
      by (simp add: count_entry_def walk_inv_def)
  next
    case (absent entry)
    then show ?thesis using walk_inv_advance [OF inv assms(2)] by simp
  qed (use walk_inv_error [OF inv] in auto)
qed

end

lemma table_at_simps [simp]:
  "table_at (v\<lparr>v_Component := Some c\<rparr>) = (case ROMTable c of Inl _ \<Rightarrow> None | Inr t \<Rightarrow> Some t)"
  "v_Component v = None \<Longrightarrow> table_at v = None" "table_at (v\<lparr>v_Err := e\<rparr>) = table_at v"
  by (simp_all add: table_at_def)

lemma root_tree:
  assumes "0 \<le> MaxDepth limits" "0 < MaxComponents limits" "v_Parent v = - 1" "v_Index v = - 1" "v_Entry v = zero_entry"
    and "\<forall>c. v_Component v = Some c \<longrightarrow> P base c"
  shows "tree_ok P R base limits [v]"
  using assms at_depth.root [of "[v]"]
  by (auto simp: tree_ok_def visit_ok_def siblings_ordered_def table_bases_single zero_entry_def split: option.splits)

lemma root_fields [simp]:
  "v_Parent root_visit = - 1" "v_Index root_visit = - 1" "v_Entry root_visit = zero_entry"
  "v_Component root_visit = None" "\<not> re_PowerIDValid zero_entry"
  by (simp_all add: root_visit_def zero_entry_def)

context rom_reading
begin

lemma root_inv:
  assumes lim: "WalkLimits_Validate limits = None" and ins: "inspected P base root_visit 0 (fresh_walker limits) e wk"
  shows "walk_inv P R base limits e wk" "wk_entries wk = 0"
proof -
  have l: "0 \<le> MaxDepth limits" "0 < MaxComponents limits"
    using lim by (auto simp: WalkLimits_Validate_def split: if_splits)
  have fields: "wk_limits (fresh_walker limits) = limits" "wk_visits (fresh_walker limits) = []"
    "wk_stack (fresh_walker limits) = []" "wk_seen (fresh_walker limits) = {}" "wk_entries (fresh_walker limits) = 0"
    by (simp_all add: fresh_walker_def)
  from ins have "walk_inv P R base limits e wk \<and> wk_entries wk = 0"
  proof cases
    case limit
    then show ?thesis using l by (simp add: within_limits_def fields)
  next
    case (skip x)
    then show ?thesis by simp
  next
    case (fail c x)
    have "tree_ok P R base limits [root_visit\<lparr>v_Component := c, v_Err := Some x\<rparr>]"
      "table_at (root_visit\<lparr>v_Component := c, v_Err := Some x\<rparr>) = None"
      using fail l by (auto intro!: root_tree simp: table_at_def)
    then show ?thesis by (simp add: fail walk_inv_def fields table_bases_single)
  next
    case (leaf c x)
    have "tree_ok P R base limits [root_visit\<lparr>v_Component := Some c\<rparr>]" using leaf l by (auto intro!: root_tree)
    then show ?thesis by (simp add: leaf walk_inv_def fields table_bases_single)
  next
    case (table c t)
    have "tree_ok P R base limits [root_visit\<lparr>v_Component := Some c\<rparr>]" using table l by (auto intro!: root_tree)
    moreover have "at_depth [root_visit\<lparr>v_Component := Some c\<rparr>] 0 0" by (auto intro: at_depth.root)
    ultimately show ?thesis
      using table by (simp add: walk_inv_def fields table_bases_single enter_table_def frame_ok_def)
  qed
  then show "walk_inv P R base limits e wk" "wk_entries wk = 0" by simp_all
qed

lemma Walk_cases:
  assumes "Walk E (Some ctx) (Some reader) base limits w = Some ((vs, e), w')"
  obtains "vs = []" "e \<noteq> None"
  | e0 wk0 w1 x wk where "WalkLimits_Validate limits = None" "inspected P base root_visit 0 (fresh_walker limits) e0 wk0"
      "page_aligned base" "walk_loop E ctx reader (e0, wk0, w1) = Some (x, wk, w')" "vs = wk_visits wk"
      "e = errors_Join (map Some (wk_skipped wk) @ [x])"
proof (cases "WalkLimits_Validate limits = None \<and> base AND 0xFFF = 0 \<and> fst (ctx_Err E ctx w) = None")
  case False
  then have "vs = [] \<and> e \<noteq> None"
    using assms by (cases "WalkLimits_Validate limits") (auto simp: Walk_def split: option.splits if_splits prod.splits, metis)
  then show ?thesis using that(1) by blast
next
  case True
  then obtain w0 where w0: "ctx_Err E ctx w = (None, w0)" by (metis prod.collapse)
  obtain e0 wk0 w1 where run: "run_state (inspect E ctx reader base root_visit 0) (fresh_walker limits, w0) = (e0, wk0, w1)"
    by (metis surj_pair)
  have "inspected P base root_visit 0 (fresh_walker limits) e0 wk0"
    using wp_inspect [of base root_visit 0 "fresh_walker limits" w0] run by (simp add: wp_def)
  then show ?thesis
    using assms True w0 run that(2) [of e0 wk0 w1] by (auto simp: Walk_def page_aligned_def split: prod.splits)
qed

lemma Walk_tree:
  assumes "Walk E (Some ctx) (Some reader) base limits w = Some ((vs, e), w')"
  shows "tree_ok P R base limits vs"
  using assms
proof (cases rule: Walk_cases)
  case 1
  then show ?thesis by (simp add: tree_ok_def siblings_ordered_def table_bases_def List.map_filter_def)
next
  case (2 e0 wk0 w1 x wk)
  from walk_loop_inv(1) [where I = "walk_inv P R base limits", OF walked_inv root_inv(1) [OF 2(1,2)] 2(4)]
  show ?thesis using 2(5) by (simp add: walk_inv_def)
qed

lemma Walk_returns:
  "\<exists>r. Walk E (Some ctx) (Some reader) base limits w = Some r"
proof (cases "WalkLimits_Validate limits = None \<and> base AND 0xFFF = 0 \<and> fst (ctx_Err E ctx w) = None")
  case False
  then show ?thesis by (auto simp: Walk_def split: option.splits if_splits prod.splits)
next
  case True
  then obtain w0 where w0: "ctx_Err E ctx w = (None, w0)" by (metis prod.collapse)
  obtain e0 wk0 w1 where run: "run_state (inspect E ctx reader base root_visit 0) (fresh_walker limits, w0) = (e0, wk0, w1)"
    by (metis surj_pair)
  have ins: "inspected P base root_visit 0 (fresh_walker limits) e0 wk0"
    using wp_inspect [of base root_visit 0 "fresh_walker limits" w0] run by (simp add: wp_def)
  have "wk_entries wk0 \<le> MaxEntries (wk_limits wk0)"
    using root_inv [OF _ ins] True by (auto simp: walk_inv_def WalkLimits_Validate_def split: if_splits)
  from walk_loop_terminates [OF this, of e0 w1] show ?thesis
    using True w0 run by (auto simp: Walk_def)
qed

end

section \<open>Readers without promises\<close>

definition any_component :: "uint64 \<Rightarrow> component \<Rightarrow> bool" where
  "any_component base c \<longleftrightarrow> wf_component c \<and> Base c = base"

definition any_entry :: "rom_table \<Rightarrow> int \<Rightarrow> rom_entry \<Rightarrow> bool" where
  "any_entry t i e \<longleftrightarrow> 0 \<le> i \<and> i < tb_count t \<and> (page_aligned (tb_base t) \<longrightarrow> wf_entry t e)"

lemma wp_ReadEntry_any:
  "wp (ReadEntry E t ctx reader index) (\<lambda>r _. \<forall>e. r = Inr e \<longrightarrow> any_entry t index e) s"
proof -
  have range: "wp (ReadEntry E t ctx reader index) (\<lambda>r _. \<forall>e. r = Inr e \<longrightarrow> 0 \<le> index \<and> index < tb_count t) s"
    unfolding ReadEntry_def
    by (auto simp: wp_simps split: option.splits sum.splits intro!: run_wp)
  show ?thesis
  proof (cases "page_aligned (tb_base t)")
    case True
    from wp_ReadEntry [OF True] show ?thesis by (rule wp_conseq) (simp add: any_entry_def)
  next
    case False
    from range show ?thesis by (rule wp_conseq) (simp add: any_entry_def False)
  qed
qed

interpretation any_reading: rom_reading E ctx reader any_component any_entry for E ctx reader
  by unfold_locales (auto simp: any_component_def intro: wp_conseq [OF wp_Identify] wp_ReadEntry_any)

section \<open>Walks of a static memory\<close>

definition entry_raw :: "(uint64 \<Rightarrow> uint64) \<Rightarrow> rom_table \<Rightarrow> int \<Rightarrow> uint64" where
  "entry_raw mem t i =
     (let a = rom_entry_address t i; low = ucast (ucast (mem a) :: uint32) in
      if tb_stride t = 8 then low OR push_bit 32 (ucast (ucast (mem (a + 4)) :: uint32)) else low)"

definition mem_component :: "(uint64 \<Rightarrow> uint64) \<Rightarrow> uint64 \<Rightarrow> component \<Rightarrow> bool" where
  "mem_component mem base c \<longleftrightarrow> page_aligned base \<and> c = static_component mem base \<and> valid_CIDR (CIDR c)"

definition mem_entry :: "(uint64 \<Rightarrow> uint64) \<Rightarrow> rom_table \<Rightarrow> int \<Rightarrow> rom_entry \<Rightarrow> bool" where
  "mem_entry mem t i e \<longleftrightarrow> 0 \<le> i \<and> i < tb_count t \<and> rom_decode t (entry_raw mem t i) = Inr e"

text \<open>Programs that return one value whenever they return a value at all.\<close>

definition yields :: "('s, err + 'a) state \<Rightarrow> 'a \<Rightarrow> bool" where
  "yields m x \<longleftrightarrow> (\<forall>s. wp m (\<lambda>r _. \<forall>a. r = Inr a \<longrightarrow> a = x) s)"

lemma yields_return [intro]: "yields (ret (Inr x)) x" "yields (ret (Inl e)) x"
  by (simp_all add: yields_def wp_simps)

lemma wp_attempt_yields:
  assumes "yields m x" "\<And>e s. Q (Inl e) s" "\<And>s. wp (f x) Q s"
  shows "wp (attempt m f) Q s"
  unfolding wp_attempt using assms(1) [unfolded yields_def, rule_format, of s]
  by (rule wp_conseq) (auto simp: assms(2,3) split: sum.splits)

lemma yields_attempt: "yields m x \<Longrightarrow> yields (f x) y \<Longrightarrow> yields (attempt m f) y"
  unfolding yields_def [of "attempt m f"] by (auto intro!: wp_attempt_yields simp: yields_def)

lemma yields_readWord: "yields (cs_readWord E ctx (static_reader mem) a) (ucast (mem a))"
  by (auto simp: yields_def cs_readWord_def wp_simps static_reader_def split: prod.splits option.splits)

lemma yields_readID_from:
  "yields (cs_readID_from E ctx (static_reader mem) base offsets i ident)
     (ident OR push_bit (8 * i) (id_number mem base offsets))"
proof (induction offsets arbitrary: i ident)
  case Nil
  then show ?case by (auto simp: id_number_def)
next
  case (Cons offset offsets)
  show ?case
    unfolding cs_readID_from.simps
    by (rule yields_attempt [OF yields_readWord])
       (use Cons [of "Suc i" "ident OR push_bit (8 * i) (take_bit 8 (mem (base + offset)))"] in
        \<open>simp add: low_byte id_number_Cons push_bit_or push_bit_push_bit or.assoc add.commute\<close>)
qed

lemma yields_readID: "yields (cs_readID E ctx (static_reader mem) base offsets) (id_number mem base offsets)"
  using yields_readID_from [of E ctx mem base offsets 0 0] by (simp add: cs_readID_def)

lemma wp_static_page:
  assumes "page_aligned base"
  shows "wp (identify_page E ctx (static_reader mem) base) (\<lambda>r _. \<forall>c. r = Inr c \<longrightarrow> mem_component mem base c) s"
  unfolding identify_page_def
proof (rule wp_attempt_yields [OF yields_readID], simp, goal_cases)
  case (1 s)
  let ?cidr = "id_number mem base cidr_offsets" and ?pidr = "id_number mem base pidr_offsets"
  let ?c = "\<lparr>Base = base, CIDR = ucast ?cidr, PIDR = ?pidr, DEVARCH = 0, DEVID = 0, DEVTYPE = 0\<rparr>"
  let ?Q = "\<lambda>r _. \<forall>c. r = Inr c \<longrightarrow> mem_component mem base c"
  show ?case
  proof (cases "valid_CIDR (ucast ?cidr)")
    case True
    have device: "wp (readDevice E ctx (static_reader mem) ?c) ?Q s'" if "Class ?c = 9" for s'
      unfolding readDevice_def
      by (rule wp_attempt_yields [OF yields_readWord], simp)+
         (use True that assms in \<open>simp add: wp_return mem_component_def static_component_def Let_def ucast_byte_word\<close>)
    have "wp (let c = ?c in if Class c = 9 then readDevice E ctx (static_reader mem) c else ret (Inr c)) ?Q s'" for s'
    proof (cases "Class ?c = 9")
      case c9: True
      then show ?thesis using device [OF c9, of s'] unfolding Let_def by (simp only: if_True simp_thms)
    next
      case False
      then show ?thesis using True assms by (simp add: Let_def wp_return mem_component_def static_component_def)
    qed
    with True show ?thesis
      by (simp only: not_True_eq_False if_False) (rule wp_attempt_yields [OF yields_readID], simp_all)
  qed (simp add: wp_return)
qed

lemma wp_static_Identify:
  "wp (Identify E (Some ctx) (Some (static_reader mem)) base) (\<lambda>r _. \<forall>c. r = Inr c \<longrightarrow> mem_component mem base c) s"
  by (auto simp: Identify_def wp_simps page_aligned_def intro: wp_static_page [unfolded page_aligned_def]
      split: prod.splits option.splits)

lemma yields_raw_entry:
  "yields (read_raw_entry E ctx (static_reader mem) t (rom_entry_address t i)) (entry_raw mem t i)"
  unfolding read_raw_entry_def entry_raw_def Let_def
  by (rule yields_attempt [OF yields_readWord]) (auto intro!: yields_attempt [OF yields_readWord])

lemma wp_static_ReadEntry:
  "wp (ReadEntry E t (Some ctx) (Some (static_reader mem)) i) (\<lambda>r _. \<forall>e. r = Inr e \<longrightarrow> mem_entry mem t i e) s"
  unfolding ReadEntry_def
  by (auto simp: wp_return mem_entry_def split: sum.splits intro!: wp_attempt_yields [OF yields_raw_entry])

interpretation static_reading: rom_reading E ctx "static_reader mem" "mem_component mem" "mem_entry mem" for E ctx mem
proof unfold_locales
  show "mem_component mem base c \<Longrightarrow> wf_component c \<and> Base c = base" for base c
    by (auto simp: mem_component_def wf_component_def static_component_def Let_def Class_def split: if_splits)
qed (rule wp_static_Identify wp_static_ReadEntry)+

text \<open>
  The hierarchy that a memory holds, as the visits of its depth-first traversal: of one component, numbered from
  \<open>k\<close> on, and of the entries of a table from index \<open>i\<close> on.
\<close>

inductive component_visits :: "(uint64 \<Rightarrow> uint64) \<Rightarrow> nat \<Rightarrow> visit \<Rightarrow> uint64 \<Rightarrow> visit list \<Rightarrow> bool"
  and entry_visits :: "(uint64 \<Rightarrow> uint64) \<Rightarrow> nat \<Rightarrow> int \<Rightarrow> rom_table \<Rightarrow> int \<Rightarrow> visit list \<Rightarrow> bool"
  for mem where
  leaf: "mem_component mem base c \<Longrightarrow> ROMTable c = Inl e \<Longrightarrow> err_is e CsErrNotROMTable \<Longrightarrow>
     component_visits mem k v base [v\<lparr>v_Component := Some c\<rparr>]"
| table: "mem_component mem base c \<Longrightarrow> ROMTable c = Inr t \<Longrightarrow> entry_visits mem (Suc k) (int k) t 0 vs \<Longrightarrow>
     component_visits mem k v base (v\<lparr>v_Component := Some c\<rparr> # vs)"
| full: "i = tb_count t \<Longrightarrow> entry_visits mem k p t i []"
| over: "mem_entry mem t i e \<Longrightarrow> re_End e \<Longrightarrow> entry_visits mem k p t i []"
| absent: "mem_entry mem t i e \<Longrightarrow> \<not> re_End e \<Longrightarrow> \<not> re_Present e \<Longrightarrow> entry_visits mem k p t (i + 1) vs \<Longrightarrow>
     entry_visits mem k p t i vs"
| child: "mem_entry mem t i e \<Longrightarrow> \<not> re_End e \<Longrightarrow> re_Present e \<Longrightarrow> \<not> re_PowerIDValid e \<Longrightarrow>
     component_visits mem k \<lparr>v_Parent = p, v_Index = i, v_Entry = e, v_Component = None, v_Err = None\<rparr> (re_Base e) us \<Longrightarrow>
     entry_visits mem (k + length us) p t (i + 1) vs \<Longrightarrow> entry_visits mem k p t i (us @ vs)"

text \<open>What the frames of a stack still have to visit.\<close>

inductive stack_visits :: "(uint64 \<Rightarrow> uint64) \<Rightarrow> nat \<Rightarrow> walk_frame list \<Rightarrow> visit list \<Rightarrow> bool" for mem where
  none: "stack_visits mem k [] []"
| frame: "entry_visits mem k (wf_parent f) (wf_table_of f) (wf_next f) us \<Longrightarrow> stack_visits mem (k + length us) fs vs \<Longrightarrow>
     stack_visits mem k (f # fs) (us @ vs)"

inductive_cases stack_visitsE: "stack_visits mem k (f # fs) vs"

lemma stack_visits_Nil [simp]: "stack_visits mem k [] vs = (vs = [])"
  by (auto elim: stack_visits.cases intro: stack_visits.none)

text \<open>One step back: what remains after a step, with what the step recorded, remained before it.\<close>

lemma inspected_back:
  assumes "inspected (mem_component mem) base v depth wk None wk'" "wk_skipped wk' = wk_skipped wk"
    and "stack_visits mem (length (wk_visits wk')) (wk_stack wk') vs"
  obtains us vs' where "component_visits mem (length (wk_visits wk)) v base us" "wk_visits wk' @ vs = wk_visits wk @ us @ vs'"
    "stack_visits mem (length (wk_visits wk) + length us) (wk_stack wk) vs'"
  using assms(1)
proof cases
  case (skip x)
  then show ?thesis using assms(2) by simp
next
  case (leaf c e)
  from component_visits_entry_visits.leaf [OF leaf(4-6)] show ?thesis
    using that [of "[v\<lparr>v_Component := Some c\<rparr>]" vs] leaf(1) assms(3) by simp
next
  case (table c t)
  let ?f = "\<lparr>wf_table_of = t, wf_parent = int (length (wk_visits wk)), wf_next = 0, wf_depth = depth\<rparr>"
  from assms(3) table(1) have "stack_visits mem (Suc (length (wk_visits wk))) (?f # wk_stack wk) vs"
    by (simp add: enter_table_def)
  then obtain us vs' where us: "vs = us @ vs'" "entry_visits mem (Suc (length (wk_visits wk))) (int (length (wk_visits wk))) t 0 us"
    "stack_visits mem (Suc (length (wk_visits wk)) + length us) (wk_stack wk) vs'"
    by (auto elim!: stack_visitsE)
  from component_visits_entry_visits.table [OF table(4,5) us(2)] show ?thesis
    using that [of "v\<lparr>v_Component := Some c\<rparr> # us" vs'] table(1) us by (simp add: enter_table_def)
qed

lemma walked_back:
  assumes "walked (mem_component mem) (mem_entry mem) wk None wk'" "wk_stack wk \<noteq> []" "wk_skipped wk' = wk_skipped wk"
    and "stack_visits mem (length (wk_visits wk')) (wk_stack wk') vs"
  shows "\<exists>us. stack_visits mem (length (wk_visits wk)) (wk_stack wk) us \<and> wk_visits wk' @ vs = wk_visits wk @ us"
proof -
  obtain f fs where st: "wk_stack wk = f # fs" using assms(2) by (cases "wk_stack wk") auto
  let ?n = "length (wk_visits wk)"
  from assms(1) show ?thesis
  proof cases
    case full
    then show ?thesis
      using assms(4) stack_visits.frame [OF component_visits_entry_visits.full, of f mem ?n fs vs] by (auto simp: st)
  next
    case (over entry)
    then show ?thesis
      using assms(4) stack_visits.frame [OF component_visits_entry_visits.over, of mem f entry ?n fs vs]
      by (auto simp: st count_entry_def)
  next
    case (absent entry)
    with assms(4) obtain us vs' where "vs = us @ vs'" "entry_visits mem ?n (wf_parent f) (wf_table_of f) (wf_next f + 1) us"
      "stack_visits mem (?n + length us) fs vs'"
      by (auto simp: st advance_def count_entry_def elim!: stack_visitsE)
    then show ?thesis
      using absent stack_visits.frame [OF component_visits_entry_visits.absent, of mem f entry ?n us fs vs']
      by (auto simp: st advance_def count_entry_def)
  next
    case (child entry)
    from inspected_back [OF child(5) _ assms(4)] assms(3) obtain us vs' where
      us: "component_visits mem ?n (entry_visit f entry) (re_Base entry) us" "wk_visits wk' @ vs = wk_visits wk @ us @ vs'"
      "stack_visits mem (?n + length us) (f\<lparr>wf_next := wf_next f + 1\<rparr> # fs) vs'"
      by (auto simp: st advance_def count_entry_def)
    then obtain as bs where as: "vs' = as @ bs" "entry_visits mem (?n + length us) (wf_parent f) (wf_table_of f) (wf_next f + 1) as"
      "stack_visits mem (?n + length us + length as) fs bs"
      by (auto elim!: stack_visitsE)
    have "\<not> re_PowerIDValid entry" using child(5) assms(3) by cases (auto simp: entry_visit_def advance_def count_entry_def)
    from component_visits_entry_visits.child [OF child(2) [unfolded st list.sel] child(3,4) this us(1) [unfolded entry_visit_def] as(2)]
    have "stack_visits mem ?n (f # fs) ((us @ as) @ bs)"
      using as(3) by (intro stack_visits.frame) (simp_all add: add.assoc)
    then show ?thesis using us(2) as(1) st by auto
  qed
qed

lemma walked_skipped: "walked P R wk e wk' \<Longrightarrow> \<exists>es. wk_skipped wk' = wk_skipped wk @ es"
proof (induction rule: walked.induct)
  case (child entry e wk')
  from child(5) show ?case by cases (auto simp: advance_def count_entry_def enter_table_def)
qed (auto simp: advance_def count_entry_def)

lemma loop_back:
  assumes "wk_entries wk \<le> MaxEntries (wk_limits wk)"
    and "walk_loop E ctx (static_reader mem) (e, wk, w) = Some (None, wk', w')"
  shows "e = None \<and> (\<exists>es. wk_skipped wk' = wk_skipped wk @ es) \<and> (wk_skipped wk' = wk_skipped wk \<longrightarrow>
    (\<exists>us. stack_visits mem (length (wk_visits wk)) (wk_stack wk) us \<and> wk_visits wk' = wk_visits wk @ us))"
  using assms
proof (induction "walk_measure (e, wk, w)" arbitrary: e wk w rule: less_induct)
  case less
  let ?next = "run_state (walk_next E ctx (static_reader mem)) (wk, w)"
  have unfold: "walk_loop E ctx (static_reader mem) (e, wk, w) =
      (if e = None \<and> wk_stack wk \<noteq> [] then walk_loop E ctx (static_reader mem) ?next else Some (e, wk, w))"
    unfolding walk_loop_def by (subst while_option_unfold) simp
  show ?case
  proof (cases "e = None \<and> wk_stack wk \<noteq> []")
    case False
    then show ?thesis using less(3) unfold by auto
  next
    case True
    obtain e1 wk1 w1 where run: "?next = (e1, wk1, w1)" by (metis surj_pair)
    with static_reading.wp_walk_next [of E ctx mem wk w] have step: "walked (mem_component mem) (mem_entry mem) wk e1 wk1"
      by (simp add: wp_def)
    note dec = static_reading.walk_step_decreases(1) [OF less(2) _ step]
      static_reading.walk_step_decreases(2) [OF less(2) _ step, of w1 w]
    from less(1) [of e1 wk1 w1] dec True less(3) unfold run obtain es where
      IH: "e1 = None" "wk_skipped wk' = wk_skipped wk1 @ es"
      "wk_skipped wk' = wk_skipped wk1 \<longrightarrow>
        (\<exists>us. stack_visits mem (length (wk_visits wk1)) (wk_stack wk1) us \<and> wk_visits wk' = wk_visits wk1 @ us)"
      by auto
    from walked_skipped [OF step] obtain fs where fs: "wk_skipped wk1 = wk_skipped wk @ fs" by blast
    have "\<exists>us. stack_visits mem (length (wk_visits wk)) (wk_stack wk) us \<and> wk_visits wk' = wk_visits wk @ us"
      if "wk_skipped wk' = wk_skipped wk"
    proof -
      have same: "wk_skipped wk1 = wk_skipped wk" "wk_skipped wk' = wk_skipped wk1" using that IH(2) fs by simp_all
      with IH(3) obtain us where "stack_visits mem (length (wk_visits wk1)) (wk_stack wk1) us" "wk_visits wk' = wk_visits wk1 @ us"
        by blast
      with walked_back [OF step [unfolded IH(1)] _ same(1)] True show ?thesis by metis
    qed
    then show ?thesis using True IH(2) fs by auto
  qed
qed

lemma static_Walk:
  assumes "Walk E (Some ctx) (Some (static_reader mem)) base limits w = Some ((vs, None), w')"
  shows "component_visits mem 0 root_visit base vs"
  using assms
proof (cases rule: static_reading.Walk_cases)
  case (2 e0 wk0 w1 x wk)
  have "errors_Join (map Some (wk_skipped wk) @ [x]) = None" using 2(6) by simp
  then have none: "x = None" "wk_skipped wk = []" unfolding errors_Join_eq_None by auto
  have ent: "wk_entries wk0 \<le> MaxEntries (wk_limits wk0)"
    using static_reading.root_inv [OF 2(1,2)] 2(1) by (auto simp: walk_inv_def WalkLimits_Validate_def split: if_splits)
  from loop_back [OF ent 2(4) [unfolded none]] none have e0: "e0 = None" "wk_skipped wk0 = []" and
    "\<exists>us. stack_visits mem (length (wk_visits wk0)) (wk_stack wk0) us \<and> wk_visits wk = wk_visits wk0 @ us" by auto
  then obtain us where us: "stack_visits mem (length (wk_visits wk0)) (wk_stack wk0) us" "wk_visits wk = wk_visits wk0 @ us"
    by blast
  have fresh: "wk_visits (fresh_walker limits) = []" "wk_stack (fresh_walker limits) = []" "wk_skipped (fresh_walker limits) = []"
    by (simp_all add: fresh_walker_def)
  from inspected_back [OF 2(2) [unfolded e0] _ us(1)] e0(2) us(2) 2(5) show ?thesis
    by (auto simp: fresh)
qed simp

section \<open>Properties\<close>

text \<open>
  C26: every walk returns, whatever the reader answers and however the tables refer to each other.
\<close>

theorem Walk_terminates: "\<exists>r. Walk E ctx reader base limits w = Some r"
proof (cases "ctx = None \<or> reader = None")
  case True
  then show ?thesis by (auto simp: Walk_def split: option.splits)
next
  case False
  then obtain cx rd where "ctx = Some cx" "reader = Some rd" by auto
  then show ?thesis using any_reading.Walk_returns [of E cx rd base limits w] by simp
qed

text \<open>
  C28: the visits of a walk, complete or not, form a tree within the limits: the first is the root, every other
  names an earlier visit of a ROM table and a present, well-formed entry of it; a recorded component was identified
  at the address of its entry and is not behind a power domain; no visit is deeper than \<open>MaxDepth\<close>, there are at
  most \<open>MaxComponents\<close>, siblings come in the order of their entries, and no table is entered twice.
\<close>

theorem Walk_visits_form_tree:
  assumes "Walk E ctx reader base limits w = Some ((vs, e), w')"
  shows "tree_ok any_component any_entry base limits vs"
proof (cases "ctx = None \<or> reader = None")
  case True
  then have "vs = []" using assms by (auto simp: Walk_def split: option.splits)
  then show ?thesis by (simp add: tree_ok_def siblings_ordered_def table_bases_def List.map_filter_def)
next
  case False
  then obtain cx rd where some: "ctx = Some cx" "reader = Some rd" by auto
  show ?thesis by (rule any_reading.Walk_tree [OF assms [unfolded some]])
qed

text \<open>
  C27: over a memory that does not change, a walk that reports no error has recorded exactly the depth-first traversal
  of the hierarchy at the root address: every present entry of every table, in order, with the component at its address.
\<close>

theorem Walk_without_error_is_complete:
  assumes "Walk E (Some ctx) (Some (static_reader mem)) base limits w = Some ((vs, None), w')"
  shows "component_visits mem 0 root_visit base vs"
  using static_Walk [OF assms] .

definition demo_limits :: walk_limits where
  "demo_limits = \<lparr>MaxDepth = 3, MaxComponents = 8, MaxEntries = 20\<rparr>"

definition demo_visits :: "visit list" where
  "demo_visits =
     [root_visit\<lparr>v_Component := Some demo_table\<rparr>,
      \<lparr>v_Parent = 0, v_Index = 0,
       v_Entry = \<lparr>re_Raw = 0x1003, re_Base = 0x2000, re_Present = True, re_End = False, re_PowerID = 0,
         re_PowerIDValid = False\<rparr>,
       v_Component = Some demo_leaf, v_Err = None\<rparr>]"

lemma demo_Walk:
  "Walk still_env (Some (Caller 0)) (Some (static_reader demo_mem)) 0x1000 demo_limits () = Some ((demo_visits, None), ())"
  by code_simp

theorem Walk_visits_form_tree_witness: "tree_ok any_component any_entry 0x1000 demo_limits demo_visits"
  by (rule Walk_visits_form_tree [OF demo_Walk])

theorem Walk_without_error_is_complete_witness: "component_visits demo_mem 0 root_visit 0x1000 demo_visits"
  by (rule Walk_without_error_is_complete [OF demo_Walk])

end
