(* ===== verification/Usb_Configuration.thy ===== *)
theory Usb_Configuration
  imports Go_Monad
begin

text \<open>
  Configuration descriptors: the parser of \<open>src/usb/configuration.go\<close>. The parser's pointer to the current
  alternate setting is the position of that setting in the configuration; it always is the one appended last.
\<close>

section \<open>Descriptors\<close>

datatype transfer_type = TransferControl | TransferIsochronous | TransferBulk | TransferInterrupt

definition transfer_type_of :: "byte \<Rightarrow> transfer_type" where
  "transfer_type_of attributes =
     (if attributes AND 3 = 0 then TransferControl else if attributes AND 3 = 1 then TransferIsochronous
      else if attributes AND 3 = 2 then TransferBulk else TransferInterrupt)"

record endpoint =
  ep_Address :: byte
  ep_TransferType :: transfer_type
  ep_MaxPacketSize :: uint16

record alternate_setting =
  alt_Number :: byte
  alt_Class :: byte
  alt_Subclass :: byte
  alt_Protocol :: byte
  alt_Endpoints :: "endpoint list"

record usb_interface =
  if_Number :: byte
  if_Alternates :: "alternate_setting list"

record configuration =
  cfg_Value :: byte
  cfg_Interfaces :: "usb_interface list"

definition descriptorDevice :: byte where "descriptorDevice = 0x01"
definition descriptorConfiguration :: byte where "descriptorConfiguration = 0x02"
definition descriptorInterface :: byte where "descriptorInterface = 0x04"
definition descriptorEndpoint :: byte where "descriptorEndpoint = 0x05"

definition le16 :: "byte \<Rightarrow> byte \<Rightarrow> uint16" where
  "le16 low high = ucast low OR push_bit 8 (ucast high)"

section \<open>Endpoints\<close>

definition validEndpointAttributes :: "byte \<Rightarrow> transfer_type \<Rightarrow> bool" where
  "validEndpointAttributes attributes tt =
     (tt \<noteq> TransferIsochronous \<or> attributes AND 0x30 \<noteq> 0x10 \<or> attributes AND 0x0C = 0)"

definition periodic :: "transfer_type \<Rightarrow> bool" where
  "periodic tt \<longleftrightarrow> tt = TransferIsochronous \<or> tt = TransferInterrupt"

definition validEndpointInterval :: "byte \<Rightarrow> transfer_type \<Rightarrow> uint16 \<Rightarrow> bool" where
  "validEndpointInterval interval tt encoded =
     (if tt = TransferIsochronous \<and> (interval = 0 \<or> interval > 16) then False
      else if tt = TransferInterrupt \<and> interval = 0 then False
      else \<not> periodic tt \<or> encoded AND 0x1800 = 0 \<or> interval = 1)"

definition validEndpointTransactions :: "uint16 \<Rightarrow> transfer_type \<Rightarrow> bool" where
  "validEndpointTransactions transactions tt \<longleftrightarrow> transactions \<noteq> 0x1800 \<and> (transactions = 0 \<or> periodic tt)"

definition endpointPacketSizeMinimum :: "uint16 \<Rightarrow> uint16" where
  "endpointPacketSizeMinimum transactions =
     (if transactions = 0 then 1 else if transactions = 0x0800 then 513 else 683)"

definition endpointMaxPacketSize :: "uint16 \<Rightarrow> transfer_type \<Rightarrow> uint16 option" where
  "endpointMaxPacketSize encoded tt =
     (let transactions = encoded AND 0x1800 in
      if encoded AND 0xE000 \<noteq> 0 \<or> \<not> validEndpointTransactions transactions tt then None
      else
        let bytes = encoded AND 0x07FF; minimum = endpointPacketSizeMinimum transactions in
        if bytes \<le> 1024 \<and> (bytes \<ge> minimum \<or> transactions = 0 \<and> bytes = 0 \<and> periodic tt) then Some bytes else None)"

definition usb_bad_endpoint_length :: "nat \<Rightarrow> nat \<Rightarrow> err" where
  "usb_bad_endpoint_length n position =
     New ''usb: invalid endpoint descriptor length %d at offset %d'' [int n, int position]"
definition usb_bad_endpoint_address :: "byte \<Rightarrow> nat \<Rightarrow> err" where
  "usb_bad_endpoint_address address position =
     New ''usb: invalid endpoint address %#02x at offset %d'' [uint address, int position]"
definition usb_bad_endpoint_attributes :: "byte \<Rightarrow> nat \<Rightarrow> err" where
  "usb_bad_endpoint_attributes attributes position =
     New ''usb: invalid endpoint attributes %#02x at offset %d'' [uint attributes, int position]"
definition usb_bad_endpoint_interval :: "byte \<Rightarrow> nat \<Rightarrow> err" where
  "usb_bad_endpoint_interval interval position =
     New ''usb: invalid endpoint interval %d at offset %d'' [uint interval, int position]"
definition usb_bad_packet_size :: "uint16 \<Rightarrow> nat \<Rightarrow> err" where
  "usb_bad_packet_size encoded position =
     New ''usb: invalid endpoint maximum packet size %#04x at offset %d'' [uint encoded, int position]"

definition endpointFromDescriptor :: "byte list \<Rightarrow> nat \<Rightarrow> err + endpoint" where
  "endpointFromDescriptor descriptor position =
     (if length descriptor < 7 then Inl (usb_bad_endpoint_length (length descriptor) position)
      else
        let address = descriptor ! 2; attributes = descriptor ! 3; tt = transfer_type_of attributes;
            encoded = le16 (descriptor ! 4) (descriptor ! 5)
        in if address AND 0x0F = 0 \<or> address AND 0x70 \<noteq> 0 then Inl (usb_bad_endpoint_address address position)
           else if \<not> validEndpointAttributes attributes tt then Inl (usb_bad_endpoint_attributes attributes position)
           else if \<not> validEndpointInterval (descriptor ! 6) tt encoded
           then Inl (usb_bad_endpoint_interval (descriptor ! 6) position)
           else
             (case endpointMaxPacketSize encoded tt of
                None \<Rightarrow> Inl (usb_bad_packet_size encoded position)
              | Some bytes \<Rightarrow> Inr \<lparr>ep_Address = address, ep_TransferType = tt, ep_MaxPacketSize = bytes\<rparr>))"

section \<open>The parser\<close>

record configuration_parser =
  cp_configuration :: configuration
  cp_interfaces :: "byte \<rightharpoonup> nat"
  cp_defaultAlternates :: "byte set"
  cp_endpointInterfaces :: "byte \<rightharpoonup> byte"
  cp_endpointNumberInterfaces :: "byte \<Rightarrow> byte set"
  cp_controlEndpointInterfaces :: "byte \<rightharpoonup> byte"
  cp_alternate :: "(nat \<times> nat) option"
  cp_alternateEndpoints :: "byte set"
  cp_alternateEndpointNumbers :: "byte \<Rightarrow> byte"
  cp_interfaceNumber :: byte
  cp_wantEndpoints :: nat

definition endpointNumberSeen :: byte where "endpointNumberSeen = push_bit 0 1"
definition controlEndpointSeen :: byte where "controlEndpointSeen = push_bit 1 1"

text \<open>The alternate setting at a position, and its update.\<close>

definition alternate_at :: "configuration \<Rightarrow> nat \<times> nat \<Rightarrow> alternate_setting" where
  "alternate_at c p = if_Alternates (cfg_Interfaces c ! fst p) ! snd p"

definition set_alternate ::
  "nat \<times> nat \<Rightarrow> (alternate_setting \<Rightarrow> alternate_setting) \<Rightarrow> configuration \<Rightarrow> configuration" where
  "set_alternate p f c =
     (let i = cfg_Interfaces c ! fst p in
      c\<lparr>cfg_Interfaces := (cfg_Interfaces c)[fst p :=
        i\<lparr>if_Alternates := (if_Alternates i)[snd p := f (if_Alternates i ! snd p)]\<rparr>]\<rparr>)"

definition usb_endpoint_count :: err where
  "usb_endpoint_count = New ''usb: interface endpoint count does not match its descriptor'' []"

definition finishAlternate :: "configuration_parser \<Rightarrow> go_error" where
  "finishAlternate p =
     (case cp_alternate p of
        None \<Rightarrow> None
      | Some at \<Rightarrow>
          if length (alt_Endpoints (alternate_at (cp_configuration p) at)) \<noteq> cp_wantEndpoints p
          then Some usb_endpoint_count else None)"

definition interfaceFor :: "byte \<Rightarrow> configuration_parser \<Rightarrow> nat \<times> configuration_parser" where
  "interfaceFor number p =
     (case cp_interfaces p number of
        Some index \<Rightarrow> (index, p)
      | None \<Rightarrow>
          let c = cp_configuration p; index = length (cfg_Interfaces c) in
          (index, p\<lparr>cp_interfaces := (cp_interfaces p)(number \<mapsto> index),
             cp_configuration := c\<lparr>cfg_Interfaces := cfg_Interfaces c @
               [\<lparr>if_Number = number, if_Alternates = []\<rparr>]\<rparr>\<rparr>))"

definition usb_bad_interface_length :: "nat \<Rightarrow> nat \<Rightarrow> err" where
  "usb_bad_interface_length n position =
     New ''usb: invalid interface descriptor length %d at offset %d'' [int n, int position]"
definition usb_duplicate_alternate :: "byte \<Rightarrow> byte \<Rightarrow> err" where
  "usb_duplicate_alternate number alternate =
     New ''usb: duplicate interface %d alternate %d'' [uint number, uint alternate]"

definition addInterface :: "byte list \<Rightarrow> nat \<Rightarrow> configuration_parser \<Rightarrow> err + configuration_parser" where
  "addInterface descriptor position p =
     (if length descriptor < 9 then Inl (usb_bad_interface_length (length descriptor) position)
      else
        (case finishAlternate p of
           Some e \<Rightarrow> Inl e
         | None \<Rightarrow>
             (case interfaceFor (descriptor ! 2) p of
                (index, p) \<Rightarrow>
                  let c = cp_configuration p; iface = cfg_Interfaces c ! index in
                  if list_ex (\<lambda>a. alt_Number a = descriptor ! 3) (if_Alternates iface)
                  then Inl (usb_duplicate_alternate (descriptor ! 2) (descriptor ! 3))
                  else
                    let alternate = \<lparr>alt_Number = descriptor ! 3, alt_Class = descriptor ! 5, alt_Subclass = descriptor ! 6,
                          alt_Protocol = descriptor ! 7, alt_Endpoints = []\<rparr>
                    in Inr (p\<lparr>cp_configuration := c\<lparr>cfg_Interfaces := (cfg_Interfaces c)[index :=
                           iface\<lparr>if_Alternates := if_Alternates iface @ [alternate]\<rparr>]\<rparr>,
                         cp_defaultAlternates := (if descriptor ! 3 = 0 then insert (descriptor ! 2) (cp_defaultAlternates p)
                           else cp_defaultAlternates p),
                         cp_alternate := Some (index, length (if_Alternates iface)),
                         cp_alternateEndpoints := {}, cp_alternateEndpointNumbers := (\<lambda>_. 0),
                         cp_interfaceNumber := descriptor ! 2, cp_wantEndpoints := unat (descriptor ! 4)\<rparr>))))"

definition usb_duplicate_endpoint :: "byte \<Rightarrow> byte \<Rightarrow> byte \<Rightarrow> err" where
  "usb_duplicate_endpoint address number alternate =
     New ''usb: duplicate endpoint %#02x in interface %d alternate %d'' [uint address, uint number, uint alternate]"
definition usb_conflicting_control :: "byte \<Rightarrow> byte \<Rightarrow> byte \<Rightarrow> err" where
  "usb_conflicting_control n number alternate =
     New ''usb: conflicting control endpoint number %d in interface %d alternate %d'' [uint n, uint number, uint alternate]"
definition usb_shared_endpoint :: "byte \<Rightarrow> byte \<Rightarrow> byte \<Rightarrow> err" where
  "usb_shared_endpoint address owner number =
     New ''usb: endpoint %#02x belongs to interfaces %d and %d'' [uint address, uint owner, uint number]"

text \<open>The range over a map names any one of the other owners: that argument is left out there.\<close>

definition usb_shared_control :: "byte \<Rightarrow> int list \<Rightarrow> byte \<Rightarrow> err" where
  "usb_shared_control n owner number =
     New ''usb: control endpoint number %d belongs to interfaces %d and %d'' ([uint n] @ owner @ [uint number])"

definition validateEndpoint :: "byte \<Rightarrow> transfer_type \<Rightarrow> byte \<Rightarrow> configuration_parser \<Rightarrow> go_error" where
  "validateEndpoint address tt alternate p =
     (let number = address AND 0x0F; seen = cp_alternateEndpointNumbers p number; this = cp_interfaceNumber p in
      if address \<in> cp_alternateEndpoints p then Some (usb_duplicate_endpoint address this alternate)
      else if tt = TransferControl \<and> seen AND endpointNumberSeen \<noteq> 0 \<or> seen AND controlEndpointSeen \<noteq> 0
      then Some (usb_conflicting_control number this alternate)
      else if cp_endpointInterfaces p address \<noteq> None \<and> cp_endpointInterfaces p address \<noteq> Some this
      then Some (usb_shared_endpoint address (the (cp_endpointInterfaces p address)) this)
      else if cp_controlEndpointInterfaces p number \<noteq> None \<and> cp_controlEndpointInterfaces p number \<noteq> Some this
      then Some (usb_shared_control number [uint (the (cp_controlEndpointInterfaces p number))] this)
      else if tt = TransferControl \<and> \<not> cp_endpointNumberInterfaces p number \<subseteq> {this}
      then Some (usb_shared_control number [] this)
      else None)"

definition recordEndpoint :: "byte \<Rightarrow> transfer_type \<Rightarrow> configuration_parser \<Rightarrow> configuration_parser" where
  "recordEndpoint address tt p =
     (let number = address AND 0x0F; this = cp_interfaceNumber p;
          seen = cp_alternateEndpointNumbers p number OR endpointNumberSeen
      in p\<lparr>cp_alternateEndpoints := insert address (cp_alternateEndpoints p),
           cp_alternateEndpointNumbers := (cp_alternateEndpointNumbers p)
             (number := if tt = TransferControl then seen OR controlEndpointSeen else seen),
           cp_controlEndpointInterfaces := (if tt = TransferControl
             then (cp_controlEndpointInterfaces p)(number \<mapsto> this) else cp_controlEndpointInterfaces p),
           cp_endpointInterfaces := (cp_endpointInterfaces p)(address \<mapsto> this),
           cp_endpointNumberInterfaces := (cp_endpointNumberInterfaces p)
             (number := insert this (cp_endpointNumberInterfaces p number))\<rparr>)"

definition usb_stray_endpoint :: "nat \<Rightarrow> err" where
  "usb_stray_endpoint position = New ''usb: invalid endpoint descriptor at offset %d'' [int position]"

definition addEndpoint :: "byte list \<Rightarrow> nat \<Rightarrow> configuration_parser \<Rightarrow> err + configuration_parser" where
  "addEndpoint descriptor position p =
     (case cp_alternate p of
        None \<Rightarrow> Inl (usb_stray_endpoint position)
      | Some at \<Rightarrow>
          (case endpointFromDescriptor descriptor position of
             Inl e \<Rightarrow> Inl e
           | Inr endpoint \<Rightarrow>
               (case validateEndpoint (ep_Address endpoint) (ep_TransferType endpoint)
                       (alt_Number (alternate_at (cp_configuration p) at)) p of
                  Some e \<Rightarrow> Inl e
                | None \<Rightarrow>
                    let p = recordEndpoint (ep_Address endpoint) (ep_TransferType endpoint) p in
                    Inr (p\<lparr>cp_configuration :=
                      set_alternate at (\<lambda>a. a\<lparr>alt_Endpoints := alt_Endpoints a @ [endpoint]\<rparr>) (cp_configuration p)\<rparr>))))"

definition usb_outside_count :: "byte \<Rightarrow> nat \<Rightarrow> err" where
  "usb_outside_count number want =
     New ''usb: interface %d is outside configuration interface count %d'' [uint number, int want]"
definition usb_no_default :: "byte \<Rightarrow> err" where
  "usb_no_default number = New ''usb: interface %d has no alternate setting zero'' [uint number]"
definition usb_alternate_range :: "byte \<Rightarrow> byte \<Rightarrow> nat \<Rightarrow> err" where
  "usb_alternate_range number alternate count =
     New ''usb: interface %d alternate setting %d is outside range 0 through %d''
       [uint number, uint alternate, int count - 1]"
definition usb_no_interfaces :: err where
  "usb_no_interfaces = New ''usb: configuration descriptor has no interfaces'' []"
definition usb_interface_count :: err where
  "usb_interface_count = New ''usb: interface count does not match configuration descriptor'' []"

primrec finish_alternates :: "byte \<Rightarrow> nat \<Rightarrow> alternate_setting list \<Rightarrow> go_error" where
  "finish_alternates number count [] = None"
| "finish_alternates number count (a # as) =
     (if unat (alt_Number a) \<ge> count then Some (usb_alternate_range number (alt_Number a) count)
      else finish_alternates number count as)"

primrec finish_interfaces :: "configuration_parser \<Rightarrow> nat \<Rightarrow> usb_interface list \<Rightarrow> go_error" where
  "finish_interfaces p want [] = None"
| "finish_interfaces p want (i # is) =
     (if unat (if_Number i) \<ge> want then Some (usb_outside_count (if_Number i) want)
      else if if_Number i \<notin> cp_defaultAlternates p then Some (usb_no_default (if_Number i))
      else
        (case finish_alternates (if_Number i) (length (if_Alternates i)) (if_Alternates i) of
           Some e \<Rightarrow> Some e
         | None \<Rightarrow> finish_interfaces p want is))"

definition parser_finish :: "nat \<Rightarrow> configuration_parser \<Rightarrow> go_error" where
  "parser_finish want p =
     (case finishAlternate p of
        Some e \<Rightarrow> Some e
      | None \<Rightarrow>
          if want = 0 then Some usb_no_interfaces
          else if length (cfg_Interfaces (cp_configuration p)) \<noteq> want then Some usb_interface_count
          else finish_interfaces p want (cfg_Interfaces (cp_configuration p)))"

definition usb_bad_descriptor :: "nat \<Rightarrow> err" where
  "usb_bad_descriptor position = New ''usb: malformed descriptor at offset %d'' [int position]"

definition configurationDescriptor :: "byte list \<Rightarrow> nat \<Rightarrow> err + byte list \<times> nat" where
  "configurationDescriptor raw position =
     (let n = unat (raw ! position) in
      if n < 2 \<or> position + n > length raw then Inl (usb_bad_descriptor position)
      else Inr (take n (drop position raw), position + n))"

definition add_descriptor :: "byte list \<Rightarrow> nat \<Rightarrow> configuration_parser \<Rightarrow> err + configuration_parser" where
  "add_descriptor descriptor position p =
     (if descriptor ! 1 = descriptorInterface then addInterface descriptor position p
      else if descriptor ! 1 = descriptorEndpoint then addEndpoint descriptor position p
      else Inr p)"

function parse_descriptors :: "byte list \<Rightarrow> nat \<Rightarrow> configuration_parser \<Rightarrow> err + configuration_parser" where
  "parse_descriptors raw position p =
     (if position < length raw then
        (case configurationDescriptor raw position of
           Inl e \<Rightarrow> Inl e
         | Inr dn \<Rightarrow>
             (case add_descriptor (fst dn) position p of
                Inl e \<Rightarrow> Inl e
              | Inr p \<Rightarrow> parse_descriptors raw (snd dn) p))
      else Inr p)"
  by pat_completeness auto
termination
  by (relation "measure (\<lambda>(raw, position, p). length raw - position)")
     (auto simp: configurationDescriptor_def Let_def split: if_splits)

declare parse_descriptors.simps [simp del]

definition validConfigurationHeader :: "byte list \<Rightarrow> bool" where
  "validConfigurationHeader raw \<longleftrightarrow> \<not> length raw < 9 \<and> raw ! 0 \<ge> 9 \<and> unat (raw ! 0) \<le> length raw \<and>
     raw ! 1 = descriptorConfiguration \<and> unat (le16 (raw ! 2) (raw ! 3)) = length raw \<and>
     raw ! 7 AND 0x80 \<noteq> 0 \<and> raw ! 7 AND 0x1F = 0"

definition fresh_parser :: "byte \<Rightarrow> configuration_parser" where
  "fresh_parser v =
     \<lparr>cp_configuration = \<lparr>cfg_Value = v, cfg_Interfaces = []\<rparr>, cp_interfaces = Map.empty,
      cp_defaultAlternates = {}, cp_endpointInterfaces = Map.empty, cp_endpointNumberInterfaces = (\<lambda>_. {}),
      cp_controlEndpointInterfaces = Map.empty, cp_alternate = None, cp_alternateEndpoints = {},
      cp_alternateEndpointNumbers = (\<lambda>_. 0), cp_interfaceNumber = 0, cp_wantEndpoints = 0\<rparr>"

definition usb_bad_configuration :: err where
  "usb_bad_configuration = New ''usb: malformed configuration descriptor'' []"

definition parseConfiguration :: "byte list \<Rightarrow> err + configuration" where
  "parseConfiguration raw =
     (if \<not> validConfigurationHeader raw then Inl usb_bad_configuration
      else
        (case parse_descriptors raw (unat (raw ! 0)) (fresh_parser (raw ! 5)) of
           Inl e \<Rightarrow> Inl e
         | Inr p \<Rightarrow>
             (case parser_finish (unat (raw ! 4)) p of
                Some e \<Rightarrow> Inl e
              | None \<Rightarrow> Inr (cp_configuration p))))"

end
