(* ===== verification/Usb_Active.thy ===== *)
theory Usb_Active
  imports Usb_Configuration
begin

text \<open>
  Reading the active configuration of a device: the first half of \<open>src/usb/configuration.go\<close>, the usbfs
  descriptor cache of \<open>src/usb/configuration_linux.go\<close>, and the search for the CMSIS-DAP command interface in
  \<open>src/cmsisdap/interface.go\<close>. The control transfer and the file behind the cache are functions on the world:
  they are given the length of the buffer and return the bytes they stored into it.
\<close>

section \<open>Devices\<close>

type_synonym 'w control_transfer =
  "ctx \<Rightarrow> byte \<Rightarrow> byte \<Rightarrow> uint16 \<Rightarrow> uint16 \<Rightarrow> nat \<Rightarrow> 'w \<Rightarrow> (byte list \<times> int \<times> go_error) \<times> 'w"

type_synonym 'w read_at = "nat \<Rightarrow> nat \<Rightarrow> 'w \<Rightarrow> (byte list \<times> go_error) \<times> 'w"

record 'w attachment =
  at_file :: "'w read_at option"
  at_closed :: bool

text \<open>A device whose type has no \<open>readConfigurationDescriptor\<close> has no attachment.\<close>

record 'w usb_device =
  ud_ControlTransfer :: "'w control_transfer"
  ud_attachment :: "'w attachment option"

section \<open>Standard requests\<close>

definition usb_nil_context :: err where "usb_nil_context = New ''nil context'' []"

definition usb_short :: "int \<Rightarrow> nat \<Rightarrow> err" where
  "usb_short count n = Wrap ''%w: got %d of %d bytes'' [count, int n] [Sentinel IoErrUnexpectedEOF]"

definition request_in ::
  "'w go_env \<Rightarrow> ctx option \<Rightarrow> 'w usb_device \<Rightarrow> byte \<Rightarrow> byte \<Rightarrow> uint16 \<Rightarrow> uint16 \<Rightarrow> nat \<Rightarrow> ('c, 'w, err + byte list) prog" where
  "request_in E ctx device requestType request v index n =
     checked_ctx E usb_nil_context ctx (\<lambda>x. do {
       r \<leftarrow> outside (ud_ControlTransfer device x requestType request v index n);
       case r of
         (bs, count, Some e) \<Rightarrow> ret (Inl e)
       | (bs, count, None) \<Rightarrow> guarded (count = int n) (usb_short count n) (ret (Inr (stored n bs)))
     })"

definition readStandard ::
  "'w go_env \<Rightarrow> ctx option \<Rightarrow> 'w usb_device \<Rightarrow> byte \<Rightarrow> uint16 \<Rightarrow> nat \<Rightarrow> ('c, 'w, err + byte list) prog" where
  "readStandard E ctx device request v n = request_in E ctx device 0x80 request v 0 n"

definition configurationValue :: "'w go_env \<Rightarrow> ctx option \<Rightarrow> 'w usb_device \<Rightarrow> ('c, 'w, err + byte) prog" where
  "configurationValue E ctx device =
     attempt (readStandard E ctx device 0x08 0 1) (\<lambda>bs. ret (Inr (bs ! 0)))"

definition interfaceAlternate ::
  "'w go_env \<Rightarrow> ctx option \<Rightarrow> 'w usb_device \<Rightarrow> byte \<Rightarrow> ('c, 'w, err + byte) prog" where
  "interfaceAlternate E ctx device number =
     attempt (request_in E ctx device 0x81 0x0a 0 (ucast number) 1) (\<lambda>bs. ret (Inr (bs ! 0)))"

definition activeConfigurationValue :: "'w go_env \<Rightarrow> ctx option \<Rightarrow> 'w usb_device \<Rightarrow> ('c, 'w, err + byte) prog" where
  "activeConfigurationValue E ctx device =
     attempt (annotate ''usb: read active configuration: %w'' [] (configurationValue E ctx device))
       (\<lambda>v. guarded (v \<noteq> 0) (Sentinel UsbErrNotConfigured) (ret (Inr v)))"

definition usb_bad_device :: err where "usb_bad_device = New ''usb: malformed device descriptor'' []"

definition configurationCount :: "'w go_env \<Rightarrow> ctx option \<Rightarrow> 'w usb_device \<Rightarrow> ('c, 'w, err + nat) prog" where
  "configurationCount E ctx device =
     attempt (annotate ''usb: read device descriptor: %w'' []
         (readStandard E ctx device 0x06 (push_bit 8 (ucast descriptorDevice)) 18))
       (\<lambda>bs. guarded (\<not> (unat (bs ! 0) < 18 \<or> bs ! 1 \<noteq> descriptorDevice \<or> bs ! 17 = 0)) usb_bad_device
          (ret (Inr (unat (bs ! 17)))))"

record configuration_header =
  ch_index :: nat
  ch_value :: byte
  ch_total :: nat
  ch_size :: byte

definition configuration_request :: "nat \<Rightarrow> uint16" where
  "configuration_request index = push_bit 8 (ucast descriptorConfiguration) OR of_nat index"

definition configurationHeaderAt ::
  "'w go_env \<Rightarrow> ctx option \<Rightarrow> 'w usb_device \<Rightarrow> nat \<Rightarrow> ('c, 'w, err + configuration_header) prog" where
  "configurationHeaderAt E ctx device index =
     attempt (annotate ''usb: read configuration %d header: %w'' [int index]
         (readStandard E ctx device 0x06 (configuration_request index) 9))
       (\<lambda>bs. guarded (\<not> (unat (bs ! 0) < 9 \<or> bs ! 1 \<noteq> descriptorConfiguration))
          (New ''usb: malformed configuration %d header'' [int index])
          (ret (Inr \<lparr>ch_index = index, ch_value = bs ! 5, ch_total = unat (le16 (bs ! 2) (bs ! 3)), ch_size = bs ! 0\<rparr>)))"

section \<open>The descriptor cache\<close>

definition linuxUSBError :: "err \<Rightarrow> err" where
  "linuxUSBError e = (if err_is e SysENODEV then Joined [Sentinel UsbErrDeviceGone, e] else e)"

definition read_file :: "string \<Rightarrow> nat \<Rightarrow> 'w read_at \<Rightarrow> nat \<Rightarrow> nat \<Rightarrow> ('c, 'w, err + byte list) prog" where
  "read_file msg index reader offset n = do {
     r \<leftarrow> outside (reader offset n);
     case r of
       (bs, Some e) \<Rightarrow> ret (Inl (Wrap msg [int index] [linuxUSBError e]))
     | (bs, None) \<Rightarrow> ret (Inr (stored n bs))
   }"

definition attachmentConfigurationLength :: "'w read_at \<Rightarrow> nat \<Rightarrow> nat \<Rightarrow> ('c, 'w, err + nat) prog" where
  "attachmentConfigurationLength reader index offset =
     attempt (read_file ''usb: read attachment configuration %d header: %w'' index reader offset 9) (\<lambda>header.
       let n = unat (le16 (header ! 2) (header ! 3)) in
       guarded (\<not> (header ! 0 < 9 \<or> unat (header ! 0) > n \<or> header ! 1 \<noteq> descriptorConfiguration \<or> n < 9))
         (New ''usb: malformed attachment configuration %d header'' [int index]) (ret (Inr n)))"

text \<open>The loop from \<open>current = index - left\<close> on.\<close>

primrec attachment_from ::
  "'w go_env \<Rightarrow> ctx \<Rightarrow> 'w read_at \<Rightarrow> nat \<Rightarrow> nat \<Rightarrow> nat \<Rightarrow> nat \<Rightarrow> ('c, 'w, err + byte list) prog" where
  "attachment_from E ctx reader index want offset 0 =
     checked_ctx E usb_nil_context (Some ctx) (\<lambda>_.
       attempt (attachmentConfigurationLength reader index offset) (\<lambda>n.
         guarded (n = want) (New ''usb: attachment configuration %d length differs from device header'' [int index])
           (read_file ''usb: read attachment configuration %d: %w'' index reader offset n)))"
| "attachment_from E ctx reader index want offset (Suc left) =
     checked_ctx E usb_nil_context (Some ctx) (\<lambda>_.
       attempt (attachmentConfigurationLength reader (index - Suc left) offset) (\<lambda>n.
         attachment_from E ctx reader index want (offset + n) left))"

definition readAttachmentConfiguration ::
  "'w go_env \<Rightarrow> ctx \<Rightarrow> 'w read_at \<Rightarrow> nat \<Rightarrow> nat \<Rightarrow> ('c, 'w, err + byte list) prog" where
  "readAttachmentConfiguration E ctx reader index want = attachment_from E ctx reader index want 18 index"

definition validConfigurationRead :: "'w attachment \<Rightarrow> nat \<Rightarrow> nat \<Rightarrow> bool" where
  "validConfigurationRead d index want \<longleftrightarrow>
     at_file d \<noteq> None \<and> \<not> at_closed d \<and> index < 255 \<and> want \<ge> 9 \<and> want \<le> 65535"

definition usb_nil_configuration_context :: err where
  "usb_nil_configuration_context = New ''usb: nil configuration context'' []"
definition usb_bad_attachment_read :: err where
  "usb_bad_attachment_read = New ''usb: invalid attachment configuration read'' []"

definition readConfigurationDescriptor ::
  "'w go_env \<Rightarrow> ctx option \<Rightarrow> 'w attachment \<Rightarrow> nat \<Rightarrow> nat \<Rightarrow> ('c, 'w, err + byte list) prog" where
  "readConfigurationDescriptor E ctx d index want =
     checked_ctx E usb_nil_configuration_context ctx (\<lambda>x.
       guarded (validConfigurationRead d index want) usb_bad_attachment_read
         (readAttachmentConfiguration E x (the (at_file d)) index want))"

section \<open>The active configuration\<close>

definition configurationBytes ::
  "'w go_env \<Rightarrow> ctx option \<Rightarrow> 'w usb_device \<Rightarrow> configuration_header \<Rightarrow> ('c, 'w, err + byte list) prog" where
  "configurationBytes E ctx device header =
     (case ud_attachment device of
        Some d \<Rightarrow> readConfigurationDescriptor E ctx d (ch_index header) (ch_total header)
      | None \<Rightarrow> readStandard E ctx device 0x06 (configuration_request (ch_index header)) (ch_total header))"

definition returned :: "string \<Rightarrow> int list \<Rightarrow> err + 'a \<Rightarrow> ('s, err + 'a) state" where
  "returned msg args r = annotate msg args (ret r)"

definition configurationAt ::
  "'w go_env \<Rightarrow> ctx option \<Rightarrow> 'w usb_device \<Rightarrow> configuration_header \<Rightarrow> byte \<Rightarrow> ('c, 'w, err + configuration) prog" where
  "configurationAt E ctx device header active =
     (let index = int (ch_index header) in
      guarded (\<not> ch_total header < 9)
        (New ''usb: invalid configuration %d length %d'' [index, int (ch_total header)])
        (attempt (annotate ''usb: read configuration %d: %w'' [index] (configurationBytes E ctx device header)) (\<lambda>raw.
           guarded (raw ! 0 = ch_size header)
             (New ''usb: configuration %d descriptor length changed from %d to %d''
               [index, uint (ch_size header), uint (raw ! 0)])
             (guarded (raw ! 5 = active)
               (New ''usb: configuration %d value changed from %d to %d'' [index, uint active, uint (raw ! 5)])
               (returned ''usb: parse configuration %d: %w'' [index] (parseConfiguration raw))))))"

definition usb_ambiguous :: "byte \<Rightarrow> nat \<Rightarrow> nat \<Rightarrow> err" where
  "usb_ambiguous v i j =
     New ''usb: active configuration value %d appears at indices %d and %d'' [uint v, int i, int j]"

text \<open>The loop over the configuration headers at the given indices.\<close>

primrec find_active ::
  "'w go_env \<Rightarrow> ctx option \<Rightarrow> 'w usb_device \<Rightarrow> byte \<Rightarrow> nat list \<Rightarrow> configuration_header option \<Rightarrow>
    ('c, 'w, err + configuration_header option) prog" where
  "find_active E ctx device v [] active = ret (Inr active)"
| "find_active E ctx device v (index # rest) active =
     attempt (configurationHeaderAt E ctx device index) (\<lambda>header.
       if ch_value header \<noteq> v then find_active E ctx device v rest active
       else
         (case active of
            Some a \<Rightarrow> ret (Inl (usb_ambiguous v (ch_index a) index))
          | None \<Rightarrow> find_active E ctx device v rest (Some header)))"

definition configurationChangedError :: "byte \<Rightarrow> byte \<Rightarrow> err" where
  "configurationChangedError from_value to_value =
     Wrap ''usb: active configuration changed from %d to %d'' [uint from_value, uint to_value]
       (if to_value = 0 then [Sentinel UsbErrNotConfigured] else [])"

definition usb_no_descriptor :: "byte \<Rightarrow> err" where
  "usb_no_descriptor v = New ''usb: active configuration value %d has no descriptor'' [uint v]"

definition reread_configuration ::
  "'w go_env \<Rightarrow> ctx option \<Rightarrow> 'w usb_device \<Rightarrow> byte \<Rightarrow> configuration \<Rightarrow> ('c, 'w, err + configuration) prog" where
  "reread_configuration E ctx device v c =
     attempt (annotate ''usb: re-read active configuration: %w'' [] (configurationValue E ctx device)) (\<lambda>current.
       guarded (current = v) (configurationChangedError v current) (ret (Inr c)))"

definition activeConfiguration ::
  "'w go_env \<Rightarrow> ctx option \<Rightarrow> 'w usb_device \<Rightarrow> ('c, 'w, err + configuration) prog" where
  "activeConfiguration E ctx device =
     attempt (activeConfigurationValue E ctx device) (\<lambda>v.
     attempt (configurationCount E ctx device) (\<lambda>count.
     attempt (find_active E ctx device v [0..<count] None) (\<lambda>active.
       case active of
         None \<Rightarrow> ret (Inl (usb_no_descriptor v))
       | Some header \<Rightarrow>
           attempt (configurationAt E ctx device header v) (reread_configuration E ctx device v))))"

definition usb_nil_device :: err where "usb_nil_device = New ''usb: nil device'' []"

definition ActiveConfiguration ::
  "'w go_env \<Rightarrow> 'w usb_device option \<Rightarrow> ctx option \<Rightarrow> ('c, 'w, err + configuration) prog" where
  "ActiveConfiguration E d ctx =
     (case d of None \<Rightarrow> ret (Inl usb_nil_device) | Some device \<Rightarrow> activeConfiguration E ctx device)"

section \<open>The CMSIS-DAP command interface\<close>

record command_interface =
  ci_number :: byte
  ci_alternate :: byte
  ci_bulkOut :: endpoint
  ci_bulkIn :: endpoint
  ci_swoIn :: endpoint

definition zero_endpoint :: endpoint where
  "zero_endpoint = \<lparr>ep_Address = 0, ep_TransferType = TransferControl, ep_MaxPacketSize = 0\<rparr>"

definition usableBulkEndpoint :: "endpoint \<Rightarrow> bool \<Rightarrow> bool" where
  "usableBulkEndpoint e input \<longleftrightarrow>
     ep_Address e AND 0x0F \<noteq> 0 \<and> (ep_Address e AND 0x80 \<noteq> 0) = input \<and>
     ep_TransferType e = TransferBulk \<and> ep_MaxPacketSize e \<noteq> 0"

definition commandInterfaceCandidate :: "byte \<Rightarrow> alternate_setting \<Rightarrow> command_interface option" where
  "commandInterfaceCandidate number a =
     (let es = alt_Endpoints a in
      if alt_Class a \<noteq> 0xFF \<or> alt_Subclass a \<noteq> 0 \<or> alt_Protocol a \<noteq> 0 then None
      else if length es \<noteq> 2 \<and> length es \<noteq> 3 then None
      else if \<not> usableBulkEndpoint (es ! 0) False \<or> \<not> usableBulkEndpoint (es ! 1) True then None
      else
        let result = \<lparr>ci_number = number, ci_alternate = alt_Number a, ci_bulkOut = es ! 0, ci_bulkIn = es ! 1,
              ci_swoIn = zero_endpoint\<rparr>
        in if length es = 3
           then if \<not> usableBulkEndpoint (es ! 2) True \<or> ep_Address (es ! 2) = ep_Address (ci_bulkIn result) then None
                else Some (result\<lparr>ci_swoIn := es ! 2\<rparr>)
           else Some result)"

definition command_matches :: "configuration \<Rightarrow> command_interface list" where
  "command_matches c =
     concat (map (\<lambda>i. List.map_filter (commandInterfaceCandidate (if_Number i)) (if_Alternates i)) (cfg_Interfaces c))"

definition findCommandInterface :: "configuration \<Rightarrow> err + command_interface" where
  "findCommandInterface c =
     (let matches = command_matches c in
      if length matches = 0 then Inl (Sentinel CmsisErrNoV2Interface)
      else if length matches \<noteq> 1
      then Inl (New ''cmsisdap: active USB configuration has %d CMSIS-DAP v2 command interfaces'' [int (length matches)])
      else Inr (matches ! 0))"

end
