(* ===== verification/Usb_Wellformed.thy ===== *)
theory Usb_Wellformed
  imports Usb_Configuration
begin

text \<open>
  What the configuration parser accepts. Every view the parser keeps (interface indices, owners of endpoint
  addresses and numbers, the current alternate setting) is a function of the configuration collected so far;
  that invariant is preserved by every descriptor, and turns the parser's checks into conditions on the
  configuration itself.
\<close>

section \<open>Well-formed configurations\<close>

definition ep_number :: "endpoint \<Rightarrow> byte" where "ep_number e = ep_Address e AND 0x0F"

abbreviation is_control :: "endpoint \<Rightarrow> bool" where "is_control e \<equiv> ep_TransferType e = TransferControl"

definition endpoint_ok :: "endpoint \<Rightarrow> bool" where
  "endpoint_ok e \<longleftrightarrow> ep_number e \<noteq> 0 \<and> ep_Address e AND 0x70 = 0 \<and> ep_MaxPacketSize e \<le> 1024 \<and>
     (ep_MaxPacketSize e = 0 \<longrightarrow> periodic (ep_TransferType e))"

definition alternate_ok :: "alternate_setting \<Rightarrow> bool" where
  "alternate_ok a \<longleftrightarrow> list_all endpoint_ok (alt_Endpoints a) \<and> distinct (map ep_Address (alt_Endpoints a)) \<and>
     (\<forall>e \<in> set (alt_Endpoints a). \<forall>f \<in> set (alt_Endpoints a).
        is_control e \<and> ep_number f = ep_number e \<longrightarrow> f = e)"

definition port_list :: "configuration \<Rightarrow> (byte \<times> endpoint) list" where
  "port_list c = concat (map (\<lambda>i. concat (map (\<lambda>a. map (Pair (if_Number i)) (alt_Endpoints a)) (if_Alternates i)))
     (cfg_Interfaces c))"

abbreviation ports :: "configuration \<Rightarrow> (byte \<times> endpoint) set" where "ports c \<equiv> set (port_list c)"

text \<open>An address, and a number with a control endpoint, belongs to one interface.\<close>

definition owned_once :: "(byte \<times> endpoint) set \<Rightarrow> bool" where
  "owned_once P \<longleftrightarrow> (\<forall>(n, e) \<in> P. \<forall>(m, f) \<in> P.
     ep_Address e = ep_Address f \<or> is_control e \<and> ep_number e = ep_number f \<longrightarrow> n = m)"

definition dense :: "byte list \<Rightarrow> bool" where
  "dense ns \<longleftrightarrow> ns \<noteq> [] \<and> distinct ns \<and> list_all (\<lambda>n. unat n < length ns) ns"

definition configuration_ok :: "configuration \<Rightarrow> bool" where
  "configuration_ok c \<longleftrightarrow> dense (map if_Number (cfg_Interfaces c)) \<and>
     list_all (\<lambda>i. dense (map alt_Number (if_Alternates i)) \<and> list_all alternate_ok (if_Alternates i)) (cfg_Interfaces c) \<and>
     owned_once (ports c)"

lemma dense_covers:
  assumes "dense ns"
  shows "unat ` set ns = {..<length ns}"
proof (rule card_subset_eq)
  have "inj_on (unat :: byte \<Rightarrow> nat) (set ns)"
    by (auto simp: inj_on_def intro: unsigned_word_eqI)
  with assms show "card (unat ` set ns) = card {..<length ns}"
    by (simp add: dense_def card_image distinct_card)
qed (use assms in \<open>auto simp: dense_def list_all_iff\<close>)

definition valid_at :: "configuration \<Rightarrow> nat \<times> nat \<Rightarrow> bool" where
  "valid_at c p \<longleftrightarrow> fst p < length (cfg_Interfaces c) \<and> snd p < length (if_Alternates (cfg_Interfaces c ! fst p))"

lemma valid_at_split:
  assumes "valid_at c p"
  obtains xs i ys us a vs where
    "cfg_Interfaces c = xs @ i # ys" "if_Alternates i = us @ a # vs" "p = (length xs, length us)"
proof (rule that)
  show "cfg_Interfaces c = take (fst p) (cfg_Interfaces c) @ cfg_Interfaces c ! fst p # drop (Suc (fst p)) (cfg_Interfaces c)"
    using assms by (simp add: valid_at_def id_take_nth_drop)
  let ?as = "if_Alternates (cfg_Interfaces c ! fst p)"
  show "?as = take (snd p) ?as @ ?as ! snd p # drop (Suc (snd p)) ?as"
    using assms by (simp add: valid_at_def id_take_nth_drop)
qed (use assms in \<open>simp add: valid_at_def\<close>)

lemma set_alternate_split:
  "cfg_Interfaces c = xs @ i # ys \<Longrightarrow> if_Alternates i = us @ a # vs \<Longrightarrow>
     set_alternate (length xs, length us) f c = c\<lparr>cfg_Interfaces := xs @ i\<lparr>if_Alternates := us @ f a # vs\<rparr> # ys\<rparr>"
  "cfg_Interfaces c = xs @ i # ys \<Longrightarrow> if_Alternates i = us @ a # vs \<Longrightarrow>
     alternate_at c (length xs, length us) = a"
  by (simp_all add: set_alternate_def alternate_at_def)

lemma ports_append_endpoint:
  assumes "valid_at c p"
  shows "ports (set_alternate p (\<lambda>a. a\<lparr>alt_Endpoints := alt_Endpoints a @ [e]\<rparr>) c) =
    insert (if_Number (cfg_Interfaces c ! fst p), e) (ports c)"
  using assms by (rule valid_at_split) (auto simp: set_alternate_split port_list_def)

section \<open>The invariant of the parser\<close>

definition default_numbers :: "configuration \<Rightarrow> byte set" where
  "default_numbers c = if_Number ` set (filter (\<lambda>i. 0 \<in> alt_Number ` set (if_Alternates i)) (cfg_Interfaces c))"

text \<open>The maps of the parser are views of the configuration collected so far.\<close>

definition views_ok :: "configuration_parser \<Rightarrow> bool" where
  "views_ok p \<longleftrightarrow> (let c = cp_configuration p; P = ports c in
     (\<forall>n k. cp_interfaces p n = Some k \<longleftrightarrow> k < length (cfg_Interfaces c) \<and> if_Number (cfg_Interfaces c ! k) = n) \<and>
     cp_defaultAlternates p = default_numbers c \<and>
     (\<forall>n a. cp_endpointInterfaces p a = Some n \<longleftrightarrow> (\<exists>e. (n, e) \<in> P \<and> ep_Address e = a)) \<and>
     (\<forall>n k. cp_controlEndpointInterfaces p k = Some n \<longleftrightarrow> (\<exists>e. (n, e) \<in> P \<and> is_control e \<and> ep_number e = k)) \<and>
     (\<forall>n k. n \<in> cp_endpointNumberInterfaces p k \<longleftrightarrow> (\<exists>e. (n, e) \<in> P \<and> ep_number e = k)))"

definition flags_ok :: "(byte \<Rightarrow> byte) \<Rightarrow> endpoint list \<Rightarrow> bool" where
  "flags_ok flags es \<longleftrightarrow> (\<forall>k.
     (flags k AND endpointNumberSeen \<noteq> 0 \<longleftrightarrow> k \<in> ep_number ` set es) \<and>
     (flags k AND controlEndpointSeen \<noteq> 0 \<longleftrightarrow> k \<in> ep_number ` {e \<in> set es. is_control e}))"

definition current_ok :: "configuration_parser \<Rightarrow> bool" where
  "current_ok p \<longleftrightarrow> (\<forall>at. cp_alternate p = Some at \<longrightarrow>
     valid_at (cp_configuration p) at \<and>
     cp_interfaceNumber p = if_Number (cfg_Interfaces (cp_configuration p) ! fst at) \<and>
     (let es = alt_Endpoints (alternate_at (cp_configuration p) at) in
      cp_alternateEndpoints p = ep_Address ` set es \<and> flags_ok (cp_alternateEndpointNumbers p) es))"

definition content_ok :: "configuration \<Rightarrow> bool" where
  "content_ok c \<longleftrightarrow> distinct (map if_Number (cfg_Interfaces c)) \<and>
     list_all (\<lambda>i. distinct (map alt_Number (if_Alternates i)) \<and> list_all alternate_ok (if_Alternates i))
       (cfg_Interfaces c) \<and> owned_once (ports c)"

definition parser_ok :: "configuration_parser \<Rightarrow> bool" where
  "parser_ok p \<longleftrightarrow> content_ok (cp_configuration p) \<and> views_ok p \<and> current_ok p"

lemma parser_ok_fresh: "parser_ok (fresh_parser v)"
  by (simp add: parser_ok_def content_ok_def views_ok_def current_ok_def fresh_parser_def owned_once_def
      port_list_def default_numbers_def)


lemma interfaceFor_ok:
  assumes "parser_ok p" "interfaceFor n p = (k, q)"
  shows "parser_ok q" "k < length (cfg_Interfaces (cp_configuration q))" "if_Number (cfg_Interfaces (cp_configuration q) ! k) = n"
proof -
  let ?c = "cp_configuration p"
  have "parser_ok q \<and> k < length (cfg_Interfaces (cp_configuration q)) \<and> if_Number (cfg_Interfaces (cp_configuration q) ! k) = n"
  proof (cases "cp_interfaces p n")
    case (Some i)
    with assms show ?thesis by (auto simp: interfaceFor_def parser_ok_def views_ok_def Let_def)
  next
    case None
    have new: "if_Number i \<noteq> n" if "i \<in> set (cfg_Interfaces ?c)" for i
    proof
      assume "if_Number i = n"
      with that obtain j where "j < length (cfg_Interfaces ?c)" "if_Number (cfg_Interfaces ?c ! j) = n"
        by (auto simp: in_set_conv_nth)
      with assms(1) have "cp_interfaces p n = Some j"
        by (simp add: parser_ok_def views_ok_def Let_def)
      with None show False by simp
    qed
    have q: "q = p\<lparr>cp_interfaces := (cp_interfaces p)(n \<mapsto> length (cfg_Interfaces ?c)),
        cp_configuration := ?c\<lparr>cfg_Interfaces := cfg_Interfaces ?c @ [\<lparr>if_Number = n, if_Alternates = []\<rparr>]\<rparr>\<rparr>"
      and k: "k = length (cfg_Interfaces ?c)"
      using assms(2) None by (auto simp: interfaceFor_def Let_def)
    have P: "port_list (cp_configuration q) = port_list ?c"
      by (simp add: q port_list_def)
    have "content_ok (cp_configuration q)"
      using assms(1) new P by (auto simp: parser_ok_def content_ok_def q)
    moreover have "views_ok q"
      using assms(1) new P by (auto simp: parser_ok_def views_ok_def Let_def q nth_append less_Suc_eq default_numbers_def)
    moreover have "current_ok q"
      using assms(1) by (auto simp: parser_ok_def current_ok_def q valid_at_def alternate_at_def nth_append)
    ultimately show ?thesis by (simp add: parser_ok_def q k)
  qed
  then show "parser_ok q" "k < length (cfg_Interfaces (cp_configuration q))" "if_Number (cfg_Interfaces (cp_configuration q) ! k) = n"
    by auto
qed

definition open_alternate :: "nat \<Rightarrow> alternate_setting \<Rightarrow> nat \<Rightarrow> configuration_parser \<Rightarrow> configuration_parser" where
  "open_alternate k a want p =
     (let c = cp_configuration p; i = cfg_Interfaces c ! k in
      p\<lparr>cp_configuration := c\<lparr>cfg_Interfaces := (cfg_Interfaces c)[k := i\<lparr>if_Alternates := if_Alternates i @ [a]\<rparr>]\<rparr>,
        cp_defaultAlternates := (if alt_Number a = 0 then insert (if_Number i) (cp_defaultAlternates p)
          else cp_defaultAlternates p),
        cp_alternate := Some (k, length (if_Alternates i)),
        cp_alternateEndpoints := {}, cp_alternateEndpointNumbers := (\<lambda>_. 0),
        cp_interfaceNumber := if_Number i, cp_wantEndpoints := want\<rparr>)"

lemma open_alternate_ok:
  assumes p: "parser_ok p" and k: "k < length (cfg_Interfaces (cp_configuration p))"
    and a: "alt_Endpoints a = []"
    and new: "alt_Number a \<notin> alt_Number ` set (if_Alternates (cfg_Interfaces (cp_configuration p) ! k))"
  shows "parser_ok (open_alternate k a want p)"
proof -
  let ?c = "cp_configuration p"
  obtain xs i ys where c: "cfg_Interfaces ?c = xs @ i # ys" and len: "k = length xs"
    using k id_take_nth_drop [OF k] by (metis length_take min.absorb4)
  define c' where "c' = ?c\<lparr>cfg_Interfaces := xs @ i\<lparr>if_Alternates := if_Alternates i @ [a]\<rparr> # ys\<rparr>"
  define q where "q = open_alternate k a want p"
  have q: "q = p\<lparr>cp_configuration := c',
      cp_defaultAlternates := (if alt_Number a = 0 then insert (if_Number i) (cp_defaultAlternates p) else cp_defaultAlternates p),
      cp_alternate := Some (length xs, length (if_Alternates i)), cp_alternateEndpoints := {},
      cp_alternateEndpointNumbers := (\<lambda>_. 0), cp_interfaceNumber := if_Number i, cp_wantEndpoints := want\<rparr>"
    using len by (simp add: q_def open_alternate_def Let_def c c'_def)
  have P: "port_list c' = port_list ?c"
    by (simp add: c'_def port_list_def c a)
  have aok: "alternate_ok a"
    by (simp add: alternate_ok_def a)
  have new': "alt_Number a \<notin> alt_Number ` set (if_Alternates i)"
    using new by (simp add: c len)
  have "content_ok c'"
    using p new' aok P by (auto simp: parser_ok_def content_ok_def c'_def c)
  moreover have ifs: "length (cfg_Interfaces c') = length (cfg_Interfaces ?c)"
      "if_Number (cfg_Interfaces c' ! j) = if_Number (cfg_Interfaces ?c ! j)" for j
    by (auto simp: c'_def c nth_append nth_Cons split: nat.splits)
  have def': "default_numbers c' = (if alt_Number a = 0 then insert (if_Number i) else id) (default_numbers ?c)"
    by (auto simp: c'_def c default_numbers_def)
  have "views_ok q"
    using p by (auto simp: parser_ok_def views_ok_def Let_def q P ifs def')
  moreover have "current_ok q"
    by (auto simp: current_ok_def q c'_def valid_at_def alternate_at_def a flags_ok_def)
  ultimately show ?thesis by (simp add: parser_ok_def q q_def [symmetric])
qed

lemma addInterface_opens:
  assumes "addInterface d pos p = Inr q"
  obtains k r where "interfaceFor (d ! 2) p = (k, r)" "finishAlternate p = None" "length d \<ge> 9"
    "d ! 3 \<notin> alt_Number ` set (if_Alternates (cfg_Interfaces (cp_configuration r) ! k))"
    "if_Number (cfg_Interfaces (cp_configuration r) ! k) = d ! 2 \<Longrightarrow>
     q = open_alternate k \<lparr>alt_Number = d ! 3, alt_Class = d ! 5, alt_Subclass = d ! 6,
           alt_Protocol = d ! 7, alt_Endpoints = []\<rparr> (unat (d ! 4)) r"
proof -
  obtain k r where kr: "interfaceFor (d ! 2) p = (k, r)" by fastforce
  show ?thesis
    using assms kr by (intro that [OF kr])
      (auto simp: addInterface_def open_alternate_def Let_def list_ex_iff split: if_splits option.splits)
qed

lemma addInterface_ok:
  assumes "parser_ok p" "addInterface d pos p = Inr q"
  shows "parser_ok q"
  using assms(2)
proof (rule addInterface_opens)
  fix k r
  assume kr: "interfaceFor (d ! 2) p = (k, r)"
    and new: "d ! 3 \<notin> alt_Number ` set (if_Alternates (cfg_Interfaces (cp_configuration r) ! k))"
    and q: "if_Number (cfg_Interfaces (cp_configuration r) ! k) = d ! 2 \<Longrightarrow>
     q = open_alternate k \<lparr>alt_Number = d ! 3, alt_Class = d ! 5, alt_Subclass = d ! 6,
           alt_Protocol = d ! 7, alt_Endpoints = []\<rparr> (unat (d ! 4)) r"
  show ?thesis
    unfolding q [OF interfaceFor_ok(3) [OF assms(1) kr]]
    by (rule open_alternate_ok [OF interfaceFor_ok(1,2) [OF assms(1) kr]]) (use new in simp_all)
qed

lemma seen_bits:
  "x AND endpointNumberSeen \<noteq> 0 \<longleftrightarrow> bit x 0" "x AND controlEndpointSeen \<noteq> 0 \<longleftrightarrow> bit x 1"
  by (simp_all add: endpointNumberSeen_def controlEndpointSeen_def bit_iff_and_push_bit_not_eq_0)

lemma bit_seen: "bit endpointNumberSeen n \<longleftrightarrow> n = 0" "bit controlEndpointSeen n \<longleftrightarrow> n = 1"
  unfolding endpointNumberSeen_def controlEndpointSeen_def bit_push_bit_iff bit_1_iff by auto

text \<open>The endpoints an alternate setting of interface \<open>n\<close> admits next to its endpoints \<open>es\<close>.\<close>

definition admits :: "(byte \<times> endpoint) set \<Rightarrow> byte \<Rightarrow> endpoint list \<Rightarrow> endpoint \<Rightarrow> bool" where
  "admits P n es e \<longleftrightarrow>
     (\<forall>f \<in> set es. ep_Address f \<noteq> ep_Address e \<and> (ep_number f = ep_number e \<longrightarrow> \<not> is_control e \<and> \<not> is_control f)) \<and>
     (\<forall>(m, f) \<in> P. ep_Address f = ep_Address e \<or> ep_number f = ep_number e \<and> (is_control e \<or> is_control f) \<longrightarrow> m = n)"

definition current_endpoints :: "configuration_parser \<Rightarrow> endpoint list" where
  "current_endpoints p = alt_Endpoints (alternate_at (cp_configuration p) (the (cp_alternate p)))"

lemma other_owner:
  "(\<And>m. x = Some m \<longleftrightarrow> Q m) \<Longrightarrow> x \<noteq> None \<and> x \<noteq> Some n \<longleftrightarrow> (\<exists>m. Q m \<and> m \<noteq> n)"
  by (metis not_None_eq option.inject)

lemma parser_ok_views:
  assumes "parser_ok p"
  shows "cp_endpointInterfaces p a = Some n \<longleftrightarrow> (\<exists>e. (n, e) \<in> ports (cp_configuration p) \<and> ep_Address e = a)"
    and "cp_controlEndpointInterfaces p k = Some n \<longleftrightarrow>
      (\<exists>e. (n, e) \<in> ports (cp_configuration p) \<and> is_control e \<and> ep_number e = k)"
    and "n \<in> cp_endpointNumberInterfaces p k \<longleftrightarrow> (\<exists>e. (n, e) \<in> ports (cp_configuration p) \<and> ep_number e = k)"
    and "cp_interfaces p n = Some j \<longleftrightarrow> j < length (cfg_Interfaces (cp_configuration p)) \<and>
      if_Number (cfg_Interfaces (cp_configuration p) ! j) = n"
    and "cp_defaultAlternates p = default_numbers (cp_configuration p)"
  using assms by (simp_all add: parser_ok_def views_ok_def Let_def)

lemma parser_ok_current:
  assumes "parser_ok p" "cp_alternate p = Some at"
  shows "valid_at (cp_configuration p) at"
    and "cp_interfaceNumber p = if_Number (cfg_Interfaces (cp_configuration p) ! fst at)"
    and "cp_alternateEndpoints p = ep_Address ` set (current_endpoints p)"
    and "flags_ok (cp_alternateEndpointNumbers p) (current_endpoints p)"
  using assms by (simp_all add: parser_ok_def current_ok_def current_endpoints_def Let_def)

lemma validateEndpoint_admits:
  assumes p: "parser_ok p" and at: "cp_alternate p = Some at"
  shows "validateEndpoint (ep_Address e) (ep_TransferType e) alternate p = None \<longleftrightarrow>
    admits (ports (cp_configuration p)) (cp_interfaceNumber p) (current_endpoints p) e"
proof -
  let ?P = "ports (cp_configuration p)"
  note address = other_owner [of "cp_endpointInterfaces p (ep_Address e)", OF parser_ok_views(1) [OF p]]
  note control = other_owner [of "cp_controlEndpointInterfaces p (ep_number e)", OF parser_ok_views(2) [OF p]]
  have number: "cp_endpointNumberInterfaces p k \<subseteq> {n} \<longleftrightarrow> (\<forall>(m, f) \<in> ?P. ep_number f = k \<longrightarrow> m = n)" for n k
    using parser_ok_views(3) [OF p, of _ k] by blast
  have flags: "bit (cp_alternateEndpointNumbers p k) 0 \<longleftrightarrow> (\<exists>f \<in> set (current_endpoints p). k = ep_number f)"
    "bit (cp_alternateEndpointNumbers p k) 1 \<longleftrightarrow> (\<exists>f \<in> set (current_endpoints p). is_control f \<and> k = ep_number f)" for k
    using parser_ok_current(4) [OF p at] unfolding flags_ok_def seen_bits by blast+
  show ?thesis
    unfolding validateEndpoint_def Let_def ep_number_def [symmetric] seen_bits admits_def flags number address control
      parser_ok_current(3) [OF p at] image_iff
    by (auto split: if_splits) (metis+)?
qed

lemma alternate_ok_append:
  "alternate_ok a \<Longrightarrow> endpoint_ok e \<Longrightarrow> admits P n (alt_Endpoints a) e \<Longrightarrow>
     alternate_ok (a\<lparr>alt_Endpoints := alt_Endpoints a @ [e]\<rparr>)"
  by (auto simp: alternate_ok_def admits_def)

lemma owned_once_insert: "owned_once P \<Longrightarrow> admits P n es e \<Longrightarrow> owned_once (insert (n, e) P)"
  unfolding owned_once_def admits_def by auto

definition append_endpoint :: "endpoint \<Rightarrow> configuration_parser \<Rightarrow> configuration_parser" where
  "append_endpoint e p =
     (let q = recordEndpoint (ep_Address e) (ep_TransferType e) p in
      q\<lparr>cp_configuration := set_alternate (the (cp_alternate p)) (\<lambda>a. a\<lparr>alt_Endpoints := alt_Endpoints a @ [e]\<rparr>)
        (cp_configuration p)\<rparr>)"

lemma view_update:
  assumes "\<And>n k. M k = Some n \<longleftrightarrow> (\<exists>f. (n, f) \<in> P \<and> C f \<and> K f = k)"
    and "\<And>m f. (m, f) \<in> P \<Longrightarrow> C f \<Longrightarrow> K f = K e \<Longrightarrow> m = n" "C e"
  shows "(M(K e \<mapsto> n)) k = Some n' \<longleftrightarrow> (\<exists>f. (n', f) \<in> insert (n, e) P \<and> C f \<and> K f = k)"
  using assms by (cases "k = K e") auto

lemma flags_ok_record:
  assumes "flags_ok flags es"
  shows "flags_ok (flags(ep_number e :=
      if is_control e then (flags (ep_number e) OR endpointNumberSeen) OR controlEndpointSeen
      else flags (ep_number e) OR endpointNumberSeen)) (es @ [e])"
  using assms by (auto simp: flags_ok_def seen_bits bit_or_iff bit_seen)

lemma append_endpoint_ok:
  assumes p: "parser_ok p" and at: "cp_alternate p = Some at" and e: "endpoint_ok e"
    and adm: "admits (ports (cp_configuration p)) (cp_interfaceNumber p) (current_endpoints p) e"
  shows "parser_ok (append_endpoint e p)"
proof -
  let ?c = "cp_configuration p" and ?n = "cp_interfaceNumber p"
  have valid: "valid_at ?c at" and n: "?n = if_Number (cfg_Interfaces ?c ! fst at)"
    using p at by (auto simp: parser_ok_def current_ok_def Let_def)
  obtain xs i ys us a vs where c: "cfg_Interfaces ?c = xs @ i # ys" "if_Alternates i = us @ a # vs"
    and pos: "at = (length xs, length us)"
    using valid by (rule valid_at_split)
  define c' where "c' = ?c\<lparr>cfg_Interfaces := xs @ i\<lparr>if_Alternates := us @ a\<lparr>alt_Endpoints := alt_Endpoints a @ [e]\<rparr> # vs\<rparr> # ys\<rparr>"
  define q where "q = append_endpoint e p"
  have q: "q = (recordEndpoint (ep_Address e) (ep_TransferType e) p)\<lparr>cp_configuration := c'\<rparr>"
    by (simp add: q_def append_endpoint_def Let_def at pos set_alternate_split [OF c] c'_def)
  have cq: "cp_configuration q = c'"
    by (simp add: q)
  have P: "ports c' = insert (?n, e) (ports ?c)"
    using ports_append_endpoint [OF valid, of e] by (simp add: pos set_alternate_split [OF c] c'_def n)
  have es: "current_endpoints p = alt_Endpoints a"
    by (simp add: current_endpoints_def at pos set_alternate_split(2) [OF c])
  have "alternate_ok a"
    using p by (simp add: parser_ok_def content_ok_def c)
  then have aok: "alternate_ok (a\<lparr>alt_Endpoints := alt_Endpoints a @ [e]\<rparr>)"
    using e adm unfolding es by (rule alternate_ok_append)
  have "content_ok c'"
    using p aok owned_once_insert [OF _ adm] by (simp add: parser_ok_def content_ok_def P) (simp add: c'_def c)
  moreover have "views_ok q"
  proof -
    have "length (cfg_Interfaces c') = length (cfg_Interfaces ?c)" "default_numbers c' = default_numbers ?c"
      "if_Number (cfg_Interfaces c' ! j) = if_Number (cfg_Interfaces ?c ! j)" for j
      by (auto simp: c'_def c default_numbers_def nth_append nth_Cons split: nat.splits)
    moreover have "cp_endpointInterfaces q a = Some m \<longleftrightarrow> (\<exists>f. (m, f) \<in> ports c' \<and> ep_Address f = a)" for m a
      using view_update [of "cp_endpointInterfaces p" "ports ?c" "\<lambda>_. True" ep_Address] parser_ok_views(1) [OF p] adm
      by (simp add: q recordEndpoint_def Let_def P) (auto simp: admits_def)
    moreover have "cp_controlEndpointInterfaces q k = Some m \<longleftrightarrow> (\<exists>f. (m, f) \<in> ports c' \<and> is_control f \<and> ep_number f = k)" for m k
      using view_update [of "cp_controlEndpointInterfaces p" "ports ?c" is_control ep_number] parser_ok_views(2) [OF p] adm
      by (simp add: q recordEndpoint_def Let_def P ep_number_def [symmetric]) (auto simp: admits_def)
    moreover have "m \<in> cp_endpointNumberInterfaces q k \<longleftrightarrow> (\<exists>f. (m, f) \<in> ports c' \<and> ep_number f = k)" for m k
      using parser_ok_views(3) [OF p] by (auto simp: q recordEndpoint_def Let_def P ep_number_def [symmetric])
    ultimately show ?thesis
      using parser_ok_views(4,5) [OF p] by (simp add: views_ok_def Let_def cq) (simp add: q recordEndpoint_def Let_def)
  qed
  moreover have "current_ok q"
  proof -
    have "cp_alternateEndpoints q = ep_Address ` set (alt_Endpoints a @ [e])"
      using parser_ok_current(3) [OF p at] by (simp add: q recordEndpoint_def Let_def es)
    moreover have "flags_ok (cp_alternateEndpointNumbers q) (alt_Endpoints a @ [e])"
      using flags_ok_record [OF parser_ok_current(4) [OF p at], of e]
      by (simp add: q recordEndpoint_def Let_def es ep_number_def [symmetric])
    moreover have "cp_alternate q = Some (length xs, length us)" "cp_interfaceNumber q = if_Number i"
      using n by (simp_all add: q recordEndpoint_def Let_def at pos c)
    ultimately show ?thesis
      by (simp add: current_ok_def cq) (simp add: c'_def valid_at_def alternate_at_def)
  qed
  ultimately show ?thesis by (simp add: parser_ok_def cq flip: q_def)
qed

lemma endpointMaxPacketSize_ok:
  "endpointMaxPacketSize encoded tt = Some k \<Longrightarrow> k \<le> 1024 \<and> (k = 0 \<longrightarrow> periodic tt)"
  by (auto simp: endpointMaxPacketSize_def Let_def endpointPacketSizeMinimum_def split: if_splits)

lemma endpointFromDescriptor_ok: "endpointFromDescriptor d pos = Inr e \<Longrightarrow> endpoint_ok e"
  by (auto simp: endpointFromDescriptor_def Let_def endpoint_ok_def ep_number_def
      dest: endpointMaxPacketSize_ok split: if_splits option.splits)

lemma addEndpoint_appends:
  assumes "addEndpoint d pos p = Inr q" "parser_ok p"
  obtains at e where "cp_alternate p = Some at" "endpointFromDescriptor d pos = Inr e"
    "admits (ports (cp_configuration p)) (cp_interfaceNumber p) (current_endpoints p) e" "q = append_endpoint e p"
  using assms validateEndpoint_admits [OF assms(2)]
  by (auto simp: addEndpoint_def append_endpoint_def Let_def recordEndpoint_def
      split: option.splits sum.splits)

lemma addEndpoint_ok:
  assumes "parser_ok p" "addEndpoint d pos p = Inr q"
  shows "parser_ok q"
proof -
  obtain at e where "cp_alternate p = Some at" "endpointFromDescriptor d pos = Inr e"
    "admits (ports (cp_configuration p)) (cp_interfaceNumber p) (current_endpoints p) e" and q: "q = append_endpoint e p"
    using assms(2,1) by (rule addEndpoint_appends)
  then show ?thesis
    unfolding q by (intro append_endpoint_ok [OF assms(1)] endpointFromDescriptor_ok)
qed

lemma parse_descriptors_keeps:
  assumes "\<And>d pos p q. add_descriptor d pos p = Inr q \<Longrightarrow> I p \<Longrightarrow> I q"
  shows "parse_descriptors raw pos p = Inr q \<Longrightarrow> I p \<Longrightarrow> I q"
proof (induction raw pos p rule: parse_descriptors.induct)
  case (1 raw pos p)
  from 1(2) [unfolded parse_descriptors.simps [of raw pos p]] 1(1,3) assms show ?case
    by (auto simp del: parse_descriptors.simps split: if_splits sum.splits)
qed

lemma add_descriptor_ok: "add_descriptor d pos p = Inr q \<Longrightarrow> parser_ok p \<Longrightarrow> parser_ok q"
  by (auto simp: add_descriptor_def intro: addInterface_ok addEndpoint_ok split: if_splits)

lemma add_descriptor_value:
  "add_descriptor d pos p = Inr r \<Longrightarrow> cfg_Value (cp_configuration p) = v \<Longrightarrow> cfg_Value (cp_configuration r) = v"
  by (auto simp: add_descriptor_def addInterface_def addEndpoint_def interfaceFor_def recordEndpoint_def
      set_alternate_def Let_def split: if_splits option.splits sum.splits)

lemma parse_descriptors_ok: "parse_descriptors raw pos p = Inr q \<Longrightarrow> parser_ok p \<Longrightarrow> parser_ok q"
  by (rule parse_descriptors_keeps [of parser_ok]) (rule add_descriptor_ok)

lemma parse_descriptors_value:
  "parse_descriptors raw pos p = Inr q \<Longrightarrow> cfg_Value (cp_configuration p) = v \<Longrightarrow> cfg_Value (cp_configuration q) = v"
  by (rule parse_descriptors_keeps [of "\<lambda>p. cfg_Value (cp_configuration p) = v"]) (rule add_descriptor_value)

lemma finish_alternates_None: "finish_alternates n k as = None \<longleftrightarrow> list_all (\<lambda>a. unat (alt_Number a) < k) as"
  by (induction as) auto

lemma finish_alternates_Some:
  "finish_alternates n k as = Some e \<Longrightarrow> \<not> list_all (\<lambda>a. unat (alt_Number a) < k) as"
  by (simp flip: finish_alternates_None [of n])

lemma finish_interfaces_None:
  "finish_interfaces p want is = None \<longleftrightarrow>
     list_all (\<lambda>i. unat (if_Number i) < want \<and> if_Number i \<in> cp_defaultAlternates p \<and>
       list_all (\<lambda>a. unat (alt_Number a) < length (if_Alternates i)) (if_Alternates i)) is"
  by (induction "is") (auto simp: finish_alternates_None dest!: finish_alternates_Some split: option.splits)

lemma default_numbers_iff:
  assumes "content_ok c" "i \<in> set (cfg_Interfaces c)"
  shows "if_Number i \<in> default_numbers c \<longleftrightarrow> 0 \<in> alt_Number ` set (if_Alternates i)"
  using assms by (auto simp: default_numbers_def content_ok_def distinct_map inj_on_def)

lemma parser_finish_None:
  assumes "parser_ok p"
  shows "parser_finish want p = None \<longleftrightarrow>
    finishAlternate p = None \<and> length (cfg_Interfaces (cp_configuration p)) = want \<and> configuration_ok (cp_configuration p)"
proof -
  let ?c = "cp_configuration p"
  have "content_ok ?c" using assms by (simp add: parser_ok_def)
  have zero: "0 \<in> alt_Number ` set as" if "dense (map alt_Number as)" for as
  proof -
    have "0 < length as" using that by (simp add: dense_def)
    then have "0 \<in> unat ` set (map alt_Number as)"
      using dense_covers [OF that] by simp
    then show ?thesis by (auto simp: unat_eq_0 image_iff)
  qed
  have "configuration_ok ?c \<longleftrightarrow> cfg_Interfaces ?c \<noteq> [] \<and> finish_interfaces p (length (cfg_Interfaces ?c)) (cfg_Interfaces ?c) = None"
    (is "?l \<longleftrightarrow> ?r")
  proof
    assume ?l
    then have "\<forall>i \<in> set (cfg_Interfaces ?c). 0 \<in> alt_Number ` set (if_Alternates i)"
      using zero unfolding configuration_ok_def list_all_iff by blast
    with \<open>?l\<close> show ?r
      by (auto simp: configuration_ok_def finish_interfaces_None list_all_iff parser_ok_views(5) [OF assms]
          default_numbers_iff [OF \<open>content_ok ?c\<close>] dense_def)
  next
    assume ?r
    then show ?l
      using \<open>content_ok ?c\<close> by (auto simp: configuration_ok_def finish_interfaces_None list_all_iff parser_ok_views(5) [OF assms]
          default_numbers_iff [OF \<open>content_ok ?c\<close>] dense_def content_ok_def)
  qed
  then show ?thesis
    by (auto simp: parser_finish_def split: option.splits)
qed

lemma parseConfiguration_ok:
  assumes "parseConfiguration raw = Inr c"
  shows "configuration_ok c" "cfg_Value c = raw ! 5" "length (cfg_Interfaces c) = unat (raw ! 4)"
    "validConfigurationHeader raw"
proof -
  obtain p where p: "parse_descriptors raw (unat (raw ! 0)) (fresh_parser (raw ! 5)) = Inr p"
    "parser_finish (unat (raw ! 4)) p = None" "c = cp_configuration p" and v: "validConfigurationHeader raw"
    using assms by (auto simp: parseConfiguration_def split: if_splits sum.splits option.splits)
  show "configuration_ok c" "length (cfg_Interfaces c) = unat (raw ! 4)"
    using p parser_finish_None [OF parse_descriptors_ok [OF p(1) parser_ok_fresh]] by auto
  show "cfg_Value c = raw ! 5"
    using parse_descriptors_value [OF p(1)] p(3) by (simp add: fresh_parser_def)
  show "validConfigurationHeader raw" by (rule v)
qed

end
