(* ===== verification/Usb_Roundtrip.thy ===== *)
theory Usb_Roundtrip
  imports Usb_Wellformed
begin

text \<open>
  A canonical encoding of configurations as descriptors, and the proof that the parser inverts it: the parser's
  state after a prefix of the descriptors is the invariant state of the configuration built so far.
\<close>

section \<open>Encoding\<close>

primrec transfer_code :: "transfer_type \<Rightarrow> byte" where
  "transfer_code TransferControl = 0" | "transfer_code TransferIsochronous = 1"
| "transfer_code TransferBulk = 2" | "transfer_code TransferInterrupt = 3"

definition encode_endpoint :: "endpoint \<Rightarrow> byte list" where
  "encode_endpoint e = [7, descriptorEndpoint, ep_Address e, transfer_code (ep_TransferType e),
     ucast (ep_MaxPacketSize e), ucast (drop_bit 8 (ep_MaxPacketSize e)), 1]"

definition encode_header :: "byte \<Rightarrow> alternate_setting \<Rightarrow> byte list" where
  "encode_header n a = [9, descriptorInterface, n, alt_Number a, of_nat (length (alt_Endpoints a)),
     alt_Class a, alt_Subclass a, alt_Protocol a, 0]"

definition encode_alternate :: "byte \<Rightarrow> alternate_setting \<Rightarrow> byte list list" where
  "encode_alternate n a = encode_header n a # map encode_endpoint (alt_Endpoints a)"

definition encode_interface :: "usb_interface \<Rightarrow> byte list list" where
  "encode_interface i = concat (map (encode_alternate (if_Number i)) (if_Alternates i))"

definition encode_body :: "configuration \<Rightarrow> byte list list" where
  "encode_body c = concat (map encode_interface (cfg_Interfaces c))"

definition encode :: "configuration \<Rightarrow> byte list" where
  "encode c = (let n = of_nat (9 + length (concat (encode_body c))) :: uint16 in
     [9, descriptorConfiguration, ucast n, ucast (drop_bit 8 n), of_nat (length (cfg_Interfaces c)), cfg_Value c,
      0, 0x80, 0] @ concat (encode_body c))"

section \<open>Sequences of descriptors\<close>

primrec run_descriptors :: "byte list list \<Rightarrow> nat \<Rightarrow> configuration_parser \<Rightarrow> err + configuration_parser" where
  "run_descriptors [] pos p = Inr p"
| "run_descriptors (d # ds) pos p =
     (case add_descriptor d pos p of Inl e \<Rightarrow> Inl e | Inr q \<Rightarrow> run_descriptors ds (pos + length d) q)"

lemma run_descriptors_append:
  "run_descriptors (ds @ es) pos p =
     (case run_descriptors ds pos p of Inl e \<Rightarrow> Inl e | Inr q \<Rightarrow> run_descriptors es (pos + length (concat ds)) q)"
  by (induction ds arbitrary: pos p) (simp_all add: add.assoc split: sum.splits)

definition framed :: "byte list \<Rightarrow> bool" where
  "framed d \<longleftrightarrow> 2 \<le> length d \<and> unat (d ! 0) = length d"

lemma parse_descriptors_run:
  "list_all framed ds \<Longrightarrow> parse_descriptors (pre @ concat ds) (length pre) p = run_descriptors ds (length pre) p"
proof (induction ds arbitrary: pre p)
  case Nil
  then show ?case by (subst parse_descriptors.simps) simp
next
  case (Cons d ds)
  then have "configurationDescriptor (pre @ d @ concat ds) (length pre) = Inr (d, length pre + length d)"
    by (auto simp: configurationDescriptor_def framed_def nth_append Let_def)
  with Cons show ?case
    using Cons.IH [of "pre @ d"] by (subst parse_descriptors.simps) (auto simp: framed_def split: sum.splits)
qed

lemma framed_encoding: "list_all framed (encode_body c)"
  by (auto simp: encode_body_def encode_interface_def encode_alternate_def encode_header_def encode_endpoint_def
      framed_def list_all_iff)

section \<open>Words\<close>

lemma transfer_type_code [simp]: "transfer_type_of (transfer_code tt) = tt"
  by (cases tt) (simp_all add: transfer_type_of_def)

lemma le16_bytes [simp]: "le16 (ucast w) (ucast (drop_bit 8 w)) = w"
  by (rule bit_word_eqI) (auto simp: le16_def bit_simps)

lemma packet_size_masks:
  assumes "(w :: uint16) \<le> 1024"
  shows "w AND 0x1800 = 0" "w AND 0xE000 = 0" "w AND 0x07FF = w"
proof -
  have "unat w < 2 ^ 11"
    using assms by (simp add: word_le_nat_alt)
  then have "take_bit 11 w = w"
    by (simp only: word_unat_eq_iff unsigned_take_bit_eq take_bit_nat_eq_self)
  then show *: "w AND 0x07FF = w"
    by (simp add: take_bit_eq_mask mask_eq_exp_minus_1)
  have "w AND 0x1800 = (w AND 0x07FF) AND 0x1800" "w AND 0xE000 = (w AND 0x07FF) AND 0xE000"
    by (simp_all add: *)
  then show "w AND 0x1800 = 0" "w AND 0xE000 = 0"
    by (simp_all add: and.assoc)
qed

lemma endpoint_encoding:
  assumes "endpoint_ok e"
  shows "endpointFromDescriptor (encode_endpoint e) pos = Inr e"
proof -
  have size: "ep_MaxPacketSize e \<le> 1024" and zero: "ep_MaxPacketSize e = 0 \<Longrightarrow> periodic (ep_TransferType e)"
    using assms by (simp_all add: endpoint_ok_def)
  have "ep_MaxPacketSize e \<ge> 1 \<or> ep_MaxPacketSize e = 0"
    by (auto simp: word_le_nat_alt Suc_le_eq simp flip: unat_eq_0)
  then have "endpointMaxPacketSize (ep_MaxPacketSize e) (ep_TransferType e) = Some (ep_MaxPacketSize e)"
    using size zero by (auto simp: endpointMaxPacketSize_def Let_def packet_size_masks [OF size]
        validEndpointTransactions_def endpointPacketSizeMinimum_def)
  moreover have "validEndpointAttributes (transfer_code tt) tt" for tt
    by (cases tt) (simp_all add: validEndpointAttributes_def)
  moreover have "validEndpointInterval 1 tt encoded" for tt encoded
    by (simp add: validEndpointInterval_def)
  ultimately show ?thesis
    using assms by (simp add: endpointFromDescriptor_def encode_endpoint_def Let_def endpoint_ok_def ep_number_def)
qed

lemma endpoint_count:
  assumes "alternate_ok a"
  shows "unat (of_nat (length (alt_Endpoints a)) :: byte) = length (alt_Endpoints a)"
proof -
  have "ep_Address e \<noteq> 0" if "e \<in> set (alt_Endpoints a)" for e
    using assms that by (auto simp: alternate_ok_def list_all_iff endpoint_ok_def ep_number_def)
  then have "ep_Address ` set (alt_Endpoints a) \<subseteq> UNIV - {0}"
    by auto
  then have "card (ep_Address ` set (alt_Endpoints a)) \<le> card (UNIV - {0 :: byte})"
    by (intro card_mono) auto
  moreover have "length (alt_Endpoints a) = card (ep_Address ` set (alt_Endpoints a))"
    using assms distinct_card [of "map ep_Address (alt_Endpoints a)"] by (simp add: alternate_ok_def)
  moreover have "card (UNIV - {0 :: byte}) = 255"
    by (simp add: card_Diff_singleton card_word)
  ultimately show ?thesis
    by (simp add: unat_of_nat)
qed

section \<open>Parsing an encoding\<close>

text \<open>The configuration up to the endpoints \<open>es\<close> of alternate setting \<open>a\<close>, which follows \<open>us\<close> in interface \<open>i\<close>.\<close>

definition so_far ::
  "configuration \<Rightarrow> usb_interface list \<Rightarrow> usb_interface \<Rightarrow> alternate_setting list \<Rightarrow> configuration" where
  "so_far c xs i us = c\<lparr>cfg_Interfaces := xs @ (if us = [] then [] else [i\<lparr>if_Alternates := us\<rparr>])\<rparr>"

lemma addEndpoint_encoding:
  assumes "parser_ok p" "cp_alternate p = Some at" "endpoint_ok e"
    "admits (ports (cp_configuration p)) (cp_interfaceNumber p) (current_endpoints p) e"
  shows "add_descriptor (encode_endpoint e) pos p = Inr (append_endpoint e p)"
proof -
  have "add_descriptor (encode_endpoint e) pos p = addEndpoint (encode_endpoint e) pos p"
    by (simp add: add_descriptor_def encode_endpoint_def descriptorEndpoint_def descriptorInterface_def)
  moreover have "validateEndpoint (ep_Address e) (ep_TransferType e) n p = None" for n
    using assms(4) by (simp add: validateEndpoint_admits [OF assms(1,2)])
  moreover have "cp_configuration (recordEndpoint a t p) = cp_configuration p" for a t
    by (simp add: recordEndpoint_def Let_def)
  ultimately show ?thesis
    using assms(2,3) by (simp add: addEndpoint_def endpoint_encoding append_endpoint_def Let_def)
qed

lemma admits_next:
  assumes "alternate_ok a" "alt_Endpoints a = es @ f # fs" "owned_once Q" "(n, f) \<in> Q" "P \<subseteq> Q"
  shows "admits P n es f"
  unfolding admits_def
proof (intro conjI ballI)
  fix g assume "g \<in> set es"
  moreover have "ep_Address f \<notin> ep_Address ` set es"
    using assms(1,2) by (simp add: alternate_ok_def)
  ultimately show "ep_Address g \<noteq> ep_Address f"
    by (metis image_eqI)
  with \<open>g \<in> set es\<close> show "ep_number g = ep_number f \<longrightarrow> \<not> is_control f \<and> \<not> is_control g"
    using assms(1,2) by (auto simp: alternate_ok_def)
next
  fix mg assume "mg \<in> P"
  with assms(3-5) show "case mg of (m, g) \<Rightarrow>
      ep_Address g = ep_Address f \<or> ep_number g = ep_number f \<and> (is_control f \<or> is_control g) \<longrightarrow> m = n"
    by (cases mg) (fastforce simp: owned_once_def)
qed

lemma endpoints_encoding:
  assumes c: "cfg_Interfaces c = xs @ i # ys" and i: "if_Alternates i = us @ a # vs"
    and ok: "alternate_ok a" "owned_once (ports c)"
  shows "alt_Endpoints a = es @ fs \<Longrightarrow> parser_ok p \<Longrightarrow>
    cp_configuration p = so_far c xs i (us @ [a\<lparr>alt_Endpoints := es\<rparr>]) \<Longrightarrow> cp_alternate p = Some (length xs, length us) \<Longrightarrow>
    \<exists>q. run_descriptors (map encode_endpoint fs) pos p = Inr q \<and> parser_ok q \<and>
      cp_configuration q = so_far c xs i (us @ [a]) \<and> cp_alternate q = Some (length xs, length us) \<and>
      cp_wantEndpoints q = cp_wantEndpoints p"
proof (induction fs arbitrary: es p pos)
  case Nil
  then have "a\<lparr>alt_Endpoints := es\<rparr> = a" by simp
  with Nil show ?case by simp
next
  case (Cons f fs)
  let ?pre = "\<lambda>es. so_far c xs i (us @ [a\<lparr>alt_Endpoints := es\<rparr>])"
  have split: "cfg_Interfaces (?pre es) = xs @ i\<lparr>if_Alternates := us @ [a\<lparr>alt_Endpoints := es\<rparr>]\<rparr> # []"
    "if_Alternates (i\<lparr>if_Alternates := us @ [a\<lparr>alt_Endpoints := es\<rparr>]\<rparr>) = us @ a\<lparr>alt_Endpoints := es\<rparr> # []" for es
    by (simp_all add: so_far_def)
  have es: "current_endpoints p = es"
    by (simp add: current_endpoints_def Cons.prems set_alternate_split(2) [OF split])
  have n: "cp_interfaceNumber p = if_Number i"
    using parser_ok_current(2) [OF Cons.prems(2,4)] Cons.prems(3) by (simp add: so_far_def)
  have "(if_Number i, f) \<in> ports c" "ports (?pre es) \<subseteq> ports c"
    using Cons.prems(1) by (auto simp: port_list_def c i so_far_def)
  then have adm: "admits (ports (cp_configuration p)) (cp_interfaceNumber p) (current_endpoints p) f"
    unfolding es n Cons.prems(3) by (rule admits_next [OF ok(1) Cons.prems(1) ok(2)])
  have f: "endpoint_ok f"
    using ok(1) Cons.prems(1) by (simp add: alternate_ok_def)
  define q where "q = append_endpoint f p"
  have "cp_configuration q = ?pre (es @ [f])"
    by (simp add: q_def append_endpoint_def Let_def Cons.prems set_alternate_split(1) [OF split]) (simp add: so_far_def)
  moreover have "cp_alternate q = Some (length xs, length us)" "cp_wantEndpoints q = cp_wantEndpoints p"
    by (simp_all add: q_def append_endpoint_def recordEndpoint_def Let_def Cons.prems)
  moreover have "parser_ok q"
    unfolding q_def by (rule append_endpoint_ok [OF Cons.prems(2,4) f adm])
  ultimately show ?case
    using Cons.IH [of "es @ [f]" q] Cons.prems(1) addEndpoint_encoding [OF Cons.prems(2,4) f adm]
    by (simp add: q_def)
qed

lemma cp_interfaces_at:
  assumes "parser_ok p" "cfg_Interfaces (cp_configuration p) = xs @ i # ys"
  shows "cp_interfaces p (if_Number i) = Some (length xs)"
  using assms by (simp add: parser_ok_views(4))

lemma cp_interfaces_new:
  assumes "parser_ok p" "n \<notin> if_Number ` set (cfg_Interfaces (cp_configuration p))"
  shows "cp_interfaces p n = None"
proof (rule ccontr)
  assume "cp_interfaces p n \<noteq> None"
  then obtain j where "cp_interfaces p n = Some j" by blast
  then have "j < length (cfg_Interfaces (cp_configuration p))" "if_Number (cfg_Interfaces (cp_configuration p) ! j) = n"
    using parser_ok_views(4) [OF assms(1)] by simp_all
  with assms(2) show False by auto
qed

lemma interfaceFor_encoding:
  assumes "parser_ok p" "cp_configuration p = so_far c xs i us" "if_Number i \<notin> if_Number ` set xs"
  obtains r where "interfaceFor (if_Number i) p = (length xs, r)"
    "cp_configuration r = c\<lparr>cfg_Interfaces := xs @ [i\<lparr>if_Alternates := us\<rparr>]\<rparr>"
proof (cases "us = []")
  case True
  then have "cp_interfaces p (if_Number i) = None"
    using assms by (intro cp_interfaces_new) (simp_all add: so_far_def)
  moreover have "i\<lparr>if_Alternates := []\<rparr> = \<lparr>if_Number = if_Number i, if_Alternates = []\<rparr>"
    by (cases i) simp
  ultimately show ?thesis
    using assms(2) True by (intro that) (simp add: interfaceFor_def Let_def so_far_def)+
next
  case False
  then have "cp_interfaces p (if_Number i) = Some (length xs)"
    using cp_interfaces_at [of p xs "i\<lparr>if_Alternates := us\<rparr>" "[]"] assms by (simp add: so_far_def)
  then show ?thesis
    using assms(2) False by (intro that) (simp add: interfaceFor_def Let_def so_far_def)+
qed

lemma alternate_encoding:
  assumes c: "cfg_Interfaces c = xs @ i # ys" and i: "if_Alternates i = us @ a # vs" and ok: "configuration_ok c"
    and p: "parser_ok p" "finishAlternate p = None" "cp_configuration p = so_far c xs i us"
  shows "\<exists>q. run_descriptors (encode_alternate (if_Number i) a) pos p = Inr q \<and> parser_ok q \<and> finishAlternate q = None \<and>
    cp_configuration q = so_far c xs i (us @ [a])"
proof -
  have new: "if_Number i \<notin> if_Number ` set xs" and newa: "alt_Number a \<notin> alt_Number ` set us"
    and aok: "alternate_ok a" and own: "owned_once (ports c)"
    using ok by (auto simp: configuration_ok_def c i dense_def)
  obtain r where r: "interfaceFor (if_Number i) p = (length xs, r)"
    and rc: "cp_configuration r = c\<lparr>cfg_Interfaces := xs @ [i\<lparr>if_Alternates := us\<rparr>]\<rparr>"
    using p(1,3) new by (rule interfaceFor_encoding)
  let ?n = "length (alt_Endpoints a)"
  define q where "q = open_alternate (length xs) (a\<lparr>alt_Endpoints := []\<rparr>) ?n r"
  have qok: "parser_ok q"
    unfolding q_def by (rule open_alternate_ok [OF interfaceFor_ok(1,2) [OF p(1) r]]) (use newa in \<open>simp_all add: rc\<close>)
  have q: "cp_configuration q = so_far c xs i (us @ [a\<lparr>alt_Endpoints := []\<rparr>])"
      "cp_alternate q = Some (length xs, length us)" "cp_wantEndpoints q = ?n"
    by (simp_all add: q_def open_alternate_def Let_def rc so_far_def)
  have "\<not> list_ex (\<lambda>b. alt_Number b = alt_Number a) us"
    using newa unfolding list_ex_iff by (metis image_eqI)
  then have "add_descriptor (encode_header (if_Number i) a) pos p = Inr q"
    by (simp add: add_descriptor_def addInterface_def encode_header_def p(2) r Let_def rc q_def
        open_alternate_def endpoint_count [OF aok])
  moreover obtain q' where "run_descriptors (map encode_endpoint (alt_Endpoints a)) (pos + length (encode_header (if_Number i) a)) q = Inr q'" "parser_ok q'"
    "cp_configuration q' = so_far c xs i (us @ [a])" "cp_alternate q' = Some (length xs, length us)" "cp_wantEndpoints q' = ?n"
    using endpoints_encoding [OF c i aok own _ qok q(1,2), of "alt_Endpoints a" "pos + length (encode_header (if_Number i) a)"] q(3) by auto
  moreover from this have "finishAlternate q' = None"
    by (simp add: finishAlternate_def alternate_at_def so_far_def)
  ultimately show ?thesis
    by (simp add: encode_alternate_def)
qed

lemma interface_encoding:
  assumes c: "cfg_Interfaces c = xs @ i # ys" and ok: "configuration_ok c"
  shows "if_Alternates i = us @ vs \<Longrightarrow> parser_ok p \<Longrightarrow> finishAlternate p = None \<Longrightarrow> cp_configuration p = so_far c xs i us \<Longrightarrow>
    \<exists>q. run_descriptors (concat (map (encode_alternate (if_Number i)) vs)) pos p = Inr q \<and> parser_ok q \<and>
      finishAlternate q = None \<and> cp_configuration q = so_far c xs i (if_Alternates i)"
proof (induction vs arbitrary: us p pos)
  case (Cons a vs)
  then obtain q where "run_descriptors (encode_alternate (if_Number i) a) pos p = Inr q" "parser_ok q" "finishAlternate q = None"
    "cp_configuration q = so_far c xs i (us @ [a])"
    using alternate_encoding [OF c Cons.prems(1) ok Cons.prems(2-4)] by blast
  with Cons.IH [of "us @ [a]" q] Cons.prems(1) show ?case
    by (simp add: run_descriptors_append)
qed simp

lemma body_encoding:
  assumes ok: "configuration_ok c"
  shows "cfg_Interfaces c = xs @ ys \<Longrightarrow> parser_ok p \<Longrightarrow> finishAlternate p = None \<Longrightarrow>
    cp_configuration p = c\<lparr>cfg_Interfaces := xs\<rparr> \<Longrightarrow>
    \<exists>q. run_descriptors (concat (map encode_interface ys)) pos p = Inr q \<and> parser_ok q \<and>
      finishAlternate q = None \<and> cp_configuration q = c"
proof (induction ys arbitrary: xs p pos)
  case (Cons i ys)
  have "if_Alternates i \<noteq> []"
    using ok Cons.prems(1) by (simp add: configuration_ok_def dense_def)
  then have "so_far c xs i (if_Alternates i) = c\<lparr>cfg_Interfaces := xs @ [i]\<rparr>"
    by (simp add: so_far_def)
  moreover obtain q where "run_descriptors (encode_interface i) pos p = Inr q" "parser_ok q" "finishAlternate q = None"
    "cp_configuration q = so_far c xs i (if_Alternates i)"
    using interface_encoding [OF Cons.prems(1) ok, of "[]" _ p pos] Cons.prems(2-4)
    by (auto simp: so_far_def encode_interface_def)
  ultimately show ?case
    using Cons.IH [of "xs @ [i]" q] Cons.prems(1) by (simp add: run_descriptors_append)
qed simp

lemma parse_encoding:
  assumes ok: "configuration_ok c" and sizes: "length (cfg_Interfaces c) < 256" "length (encode c) < 65536"
  shows "parseConfiguration (encode c) = Inr c"
proof -
  define body where "body = concat (encode_body c)"
  define n where "n = 9 + length body"
  define w :: uint16 where "w = of_nat n"
  define pre where "pre = [9, descriptorConfiguration, ucast w, ucast (drop_bit 8 w), of_nat (length (cfg_Interfaces c)),
    cfg_Value c, 0, 0x80, 0 :: byte]"
  have enc: "encode c = pre @ body"
    by (simp add: encode_def Let_def pre_def n_def body_def w_def)
  have len: "length pre = 9"
    by (simp add: pre_def)
  with enc have n: "n < 65536"
    using sizes(2) by (simp add: n_def)
  then have "unat w = n"
    by (simp add: w_def unat_of_nat)
  then have "validConfigurationHeader (encode c)"
    by (simp add: validConfigurationHeader_def enc) (simp add: pre_def n_def)
  moreover have "cp_configuration (fresh_parser (cfg_Value c)) = c\<lparr>cfg_Interfaces := []\<rparr>"
    by (cases c) (simp add: fresh_parser_def)
  then obtain p where "run_descriptors (encode_body c) 9 (fresh_parser (cfg_Value c)) = Inr p" "parser_ok p"
    "finishAlternate p = None" "cp_configuration p = c"
    using body_encoding [OF ok, of "[]" _ "fresh_parser (cfg_Value c)" 9] parser_ok_fresh
    by (auto simp: encode_body_def finishAlternate_def fresh_parser_def)
  moreover from this have "parser_finish (length (cfg_Interfaces c)) p = None"
    using ok by (simp add: parser_finish_None)
  moreover have "parse_descriptors (encode c) 9 q = run_descriptors (encode_body c) 9 q" for q
    using parse_descriptors_run [OF framed_encoding, of pre c q] by (simp add: enc body_def len)
  moreover have "encode c ! 0 = 9" "encode c ! 5 = cfg_Value c" "unat (encode c ! 4) = length (cfg_Interfaces c)"
    using sizes(1) by (simp_all add: enc pre_def unat_of_nat)
  ultimately show ?thesis
    by (simp add: parseConfiguration_def)
qed

section \<open>Properties of the parser\<close>

definition bulk :: "byte \<Rightarrow> endpoint" where
  "bulk a = \<lparr>ep_Address = a, ep_TransferType = TransferBulk, ep_MaxPacketSize = 512\<rparr>"

definition probe_configuration :: configuration where
  "probe_configuration = \<lparr>cfg_Value = 1, cfg_Interfaces =
     [\<lparr>if_Number = 1, if_Alternates =
         [\<lparr>alt_Number = 1, alt_Class = 3, alt_Subclass = 0, alt_Protocol = 0, alt_Endpoints =
             [\<lparr>ep_Address = 0x84, ep_TransferType = TransferInterrupt, ep_MaxPacketSize = 8\<rparr>]\<rparr>,
          \<lparr>alt_Number = 0, alt_Class = 3, alt_Subclass = 0, alt_Protocol = 0, alt_Endpoints = []\<rparr>]\<rparr>,
      \<lparr>if_Number = 0, if_Alternates =
         [\<lparr>alt_Number = 0, alt_Class = 0xFF, alt_Subclass = 0, alt_Protocol = 0, alt_Endpoints =
             [bulk 0x01, bulk 0x81, bulk 0x82]\<rparr>]\<rparr>]\<rparr>"

lemma probe_configuration_ok:
  "configuration_ok probe_configuration" "length (cfg_Interfaces probe_configuration) < 256"
  "length (encode probe_configuration) < 65536"
proof -
  show "configuration_ok probe_configuration"
    by (simp add: configuration_ok_def probe_configuration_def dense_def alternate_ok_def endpoint_ok_def bulk_def
        ep_number_def owned_once_def port_list_def periodic_def)
  show "length (cfg_Interfaces probe_configuration) < 256" "length (encode probe_configuration) < 65536"
    by (simp_all add: probe_configuration_def encode_def encode_body_def encode_interface_def encode_alternate_def
        encode_header_def encode_endpoint_def bulk_def Let_def)
qed

text \<open>
  C32: Every configuration the parser accepts is well-formed: its interface numbers are exactly 0 to n - 1, each once,
  where n is the count the descriptor announces; the alternate settings of each interface are exactly 0 to k - 1, each once;
  within an alternate setting endpoint addresses are distinct and a control endpoint's number is its own;
  every address and every control endpoint number belongs to a single interface. The configuration value is the descriptor's.
\<close>
theorem accepted_configuration_well_formed:
  assumes "parseConfiguration raw = Inr c"
  shows "configuration_ok c \<and> cfg_Value c = raw ! 5 \<and>
    unat ` set (map if_Number (cfg_Interfaces c)) = {..<unat (raw ! 4)} \<and> length (cfg_Interfaces c) = unat (raw ! 4) \<and>
    (\<forall>i \<in> set (cfg_Interfaces c). unat ` set (map alt_Number (if_Alternates i)) = {..<length (if_Alternates i)})"
proof -
  have "dense (map if_Number (cfg_Interfaces c))"
    using parseConfiguration_ok(1) [OF assms] by (simp add: configuration_ok_def)
  moreover have "unat ` set (map alt_Number (if_Alternates i)) = {..<length (if_Alternates i)}"
    if "i \<in> set (cfg_Interfaces c)" for i
    using dense_covers [of "map alt_Number (if_Alternates i)"] parseConfiguration_ok(1) [OF assms] that
    by (simp add: configuration_ok_def list_all_iff del: set_map)
  ultimately show ?thesis
    using parseConfiguration_ok [OF assms] dense_covers [of "map if_Number (cfg_Interfaces c)"]
    by (simp del: set_map)
qed

theorem accepted_configuration_well_formed_witness:
  "configuration_ok probe_configuration \<and> cfg_Value probe_configuration = encode probe_configuration ! 5 \<and>
   unat ` set (map if_Number (cfg_Interfaces probe_configuration)) = {..<unat (encode probe_configuration ! 4)}"
  using accepted_configuration_well_formed [OF parse_encoding [OF probe_configuration_ok]] by blast

text \<open>
  C33: Parsing is complete and inverts encoding: every well-formed configuration whose counts fit their fields is
  read back from its descriptors exactly, whatever the order of its interfaces and alternate settings.
\<close>
theorem parse_encode_round_trip:
  assumes "configuration_ok c" "length (cfg_Interfaces c) < 256" "length (encode c) < 65536"
  shows "parseConfiguration (encode c) = Inr c"
  using assms by (rule parse_encoding)

theorem parse_encode_round_trip_witness:
  "parseConfiguration (encode probe_configuration) = Inr probe_configuration"
  by (rule parse_encode_round_trip [OF probe_configuration_ok])

end
