(* ===== verification/Usb_Command.thy ===== *)
theory Usb_Command
  imports Usb_Active Usb_Roundtrip
begin

text \<open>
  The active configuration end to end: what any device can make \<open>ActiveConfiguration\<close> return, what it returns for a
  device that serves its descriptors by control transfers and through the usbfs descriptor cache, and what the
  CMSIS-DAP search finds in it.
\<close>

section \<open>Whatever the device answers\<close>

text \<open>A program returns values that satisfy \<open>Q\<close> only; a program returns one value, whatever the state.\<close>

definition yielding :: "('s, err + 'a) state \<Rightarrow> ('a \<Rightarrow> bool) \<Rightarrow> bool" where
  "yielding m Q \<longleftrightarrow> (\<forall>s a. fst (run_state m s) = Inr a \<longrightarrow> Q a)"

definition answers :: "('s, err + 'a) state \<Rightarrow> 'a \<Rightarrow> bool" where
  "answers m a \<longleftrightarrow> (\<forall>s. fst (run_state m s) = Inr a)"

named_theorems yield_intros \<open>what the values of a program satisfy\<close>
named_theorems answer_intros \<open>the value a program returns in every state\<close>

lemma yielding_ret [yield_intros]: "yielding (ret (Inl e)) Q"
  by (simp add: yielding_def)

lemma yielding_value: "Q a \<Longrightarrow> yielding (ret (Inr a)) Q"
  by (simp add: yielding_def)

lemma yielding_any: "yielding m (\<lambda>_. True)"
  by (simp add: yielding_def)

lemma yielding_attempt:
  "yielding m R \<Longrightarrow> (\<And>a. R a \<Longrightarrow> yielding (f a) Q) \<Longrightarrow> yielding (attempt m f) Q"
  unfolding yielding_def run_attempt by (auto split: prod.splits sum.splits) (metis fst_conv)

lemma yielding_then [yield_intros]: "(\<And>a. yielding (f a) Q) \<Longrightarrow> yielding (attempt m f) Q"
  by (rule yielding_attempt [OF yielding_any])

lemma yielding_annotate [yield_intros]: "yielding m Q \<Longrightarrow> yielding (annotate msg args m) Q"
  unfolding yielding_def annotate_def
  by (auto split: prod.splits) (metis fst_conv map_sum.simps old.sum.exhaust sum.distinct(1) sum.inject(2))

lemma yielding_guarded [yield_intros]: "(ok \<Longrightarrow> yielding m Q) \<Longrightarrow> yielding (guarded ok e m) Q"
  by (auto simp: yielding_def guarded_def)

lemma yieldingD: "yielding m Q \<Longrightarrow> run_state m s = (Inr a, s') \<Longrightarrow> Q a"
  unfolding yielding_def by (metis fst_conv)

lemma yielding_mono: "yielding m R \<Longrightarrow> (\<And>a. R a \<Longrightarrow> Q a) \<Longrightarrow> yielding m Q"
  by (auto simp: yielding_def)

lemma answers_ret [answer_intros]: "answers (ret (Inr a)) a"
  by (simp add: answers_def)

lemma answersD: "answers m a \<Longrightarrow> fst (run_state m s) = Inr a"
  by (simp add: answers_def)

lemma answers_attempt [answer_intros]: "answers m a \<Longrightarrow> answers (f a) b \<Longrightarrow> answers (attempt m f) b"
  unfolding answers_def run_attempt by (auto split: prod.splits sum.splits) (metis fst_conv sum.inject sum.distinct)+

lemma answers_annotate [answer_intros]: "answers m a \<Longrightarrow> answers (annotate msg args m) a"
  unfolding answers_def annotate_def by (auto split: prod.splits) (metis fst_conv map_sum.simps(2))

lemma answers_guarded [answer_intros]: "ok \<Longrightarrow> answers m a \<Longrightarrow> answers (guarded ok e m) a"
  by (simp add: guarded_def)

lemma answers_checked: "live E x \<Longrightarrow> answers (f x) a \<Longrightarrow> answers (checked_ctx E e (Some x) f) a"
  by (auto simp: answers_def checked_ctx_def ctx_Err_def live_def Let_def)

lemma answers_outside:
  "(\<And>w. fst (f w) = r) \<Longrightarrow> answers (g r) a \<Longrightarrow> answers (State_Monad.bind (outside f) g) a"
  by (auto simp: answers_def split: prod.splits) (metis fst_conv)

lemma configurationAt_yields:
  "yielding (configurationAt E ctx device header active) (\<lambda>c. configuration_ok c \<and> cfg_Value c = active)"
proof -
  have "yielding (ret (parseConfiguration raw)) (\<lambda>c. configuration_ok c \<and> cfg_Value c = active)"
    if "raw ! 5 = active" for raw
    using that by (auto simp: yielding_def dest: parseConfiguration_ok)
  then show ?thesis
    unfolding configurationAt_def Let_def returned_def by (intro yield_intros) auto
qed

lemma activeConfigurationValue_yields: "yielding (activeConfigurationValue E ctx device) (\<lambda>v. v \<noteq> 0)"
  unfolding activeConfigurationValue_def by (intro yield_intros yielding_value)

lemma activeConfiguration_yields:
  "yielding (activeConfiguration E ctx device) (\<lambda>c. configuration_ok c \<and> cfg_Value c \<noteq> 0)"
  unfolding activeConfiguration_def
proof (rule yielding_attempt [OF activeConfigurationValue_yields])
  fix v :: byte
  assume "v \<noteq> 0"
  have "yielding (reread_configuration E ctx device v c) (\<lambda>c. configuration_ok c \<and> cfg_Value c \<noteq> 0)"
    if "configuration_ok c \<and> cfg_Value c = v" for c
    unfolding reread_configuration_def using that \<open>v \<noteq> 0\<close> by (intro yield_intros yielding_value) auto
  then have "yielding (attempt (configurationAt E ctx device header v) (reread_configuration E ctx device v))
      (\<lambda>c. configuration_ok c \<and> cfg_Value c \<noteq> 0)" for header
    by (rule yielding_attempt [OF configurationAt_yields])
  then show "yielding (attempt (configurationCount E ctx device) (\<lambda>count.
      attempt (find_active E ctx device v [0..<count] None) (\<lambda>active.
        case active of None \<Rightarrow> ret (Inl (usb_no_descriptor v))
        | Some header \<Rightarrow> attempt (configurationAt E ctx device header v) (reread_configuration E ctx device v))))
      (\<lambda>c. configuration_ok c \<and> cfg_Value c \<noteq> 0)"
    by (intro yielding_then) (auto intro: yielding_ret split: option.splits)
qed

section \<open>A device that serves its configurations\<close>

definition device_descriptor :: "configuration list \<Rightarrow> byte list" where
  "device_descriptor cs = [18, descriptorDevice] @ replicate 15 0 @ [of_nat (length cs)]"

definition serves :: "'w usb_device \<Rightarrow> byte \<Rightarrow> configuration list \<Rightarrow> bool" where
  "serves d v cs \<longleftrightarrow>
     (\<forall>x w. fst (ud_ControlTransfer d x 0x80 0x08 0 0 1 w) = ([v], 1, None)) \<and>
     (\<forall>x w. fst (ud_ControlTransfer d x 0x80 0x06 0x0100 0 18 w) = (device_descriptor cs, 18, None)) \<and>
     (\<forall>x k n w. k < length cs \<and> n \<le> length (encode (cs ! k)) \<longrightarrow>
        fst (ud_ControlTransfer d x 0x80 0x06 (configuration_request k) 0 n w) = (take n (encode (cs ! k)), int n, None))"

definition caches :: "'w attachment \<Rightarrow> configuration list \<Rightarrow> bool" where
  "caches a cs \<longleftrightarrow> \<not> at_closed a \<and> (\<exists>f. at_file a = Some f \<and>
     (let bytes = device_descriptor cs @ concat (map encode cs) in
      \<forall>offset n w. offset + n \<le> length bytes \<longrightarrow> fst (f offset n w) = (take n (drop offset bytes), None)))"

definition offered :: "configuration list \<Rightarrow> bool" where
  "offered cs \<longleftrightarrow> 0 < length cs \<and> length cs < 256 \<and> list_all (\<lambda>c. configuration_ok c \<and>
     length (cfg_Interfaces c) < 256 \<and> length (encode c) < 65536) cs"

lemma readStandard_answers:
  assumes "live E x" "\<And>w. fst (ud_ControlTransfer d x 0x80 request v 0 n w) = (bs, int n, None)" "length bs = n"
  shows "answers (readStandard E (Some x) d request v n) bs"
proof -
  have "stored n bs = bs"
    using assms(3) by (simp add: stored_def)
  then show ?thesis
    unfolding readStandard_def request_in_def
    by (intro answers_checked [OF assms(1)] answers_outside [OF assms(2)]) (simp add: guarded_def answers_ret)
qed

lemma take_encode:
  "take 9 (encode c) = (let n = of_nat (length (encode c)) :: uint16 in
     [9, descriptorConfiguration, ucast n, ucast (drop_bit 8 n), of_nat (length (cfg_Interfaces c)), cfg_Value c, 0, 0x80, 0])"
  "9 \<le> length (encode c)"
  by (simp_all add: encode_def Let_def add.commute)

definition header_of :: "configuration list \<Rightarrow> nat \<Rightarrow> configuration_header" where
  "header_of cs k = \<lparr>ch_index = k, ch_value = cfg_Value (cs ! k), ch_total = length (encode (cs ! k)), ch_size = 9\<rparr>"

lemma serves_value: "live E x \<Longrightarrow> serves d v cs \<Longrightarrow> answers (configurationValue E (Some x) d) v"
  unfolding configurationValue_def
  by (rule answers_attempt [OF readStandard_answers [where bs = "[v]"]]) (auto simp: serves_def answers_ret)

lemma serves_count:
  assumes "live E x" "serves d v cs" "offered cs"
  shows "answers (configurationCount E (Some x) d) (length cs)"
proof -
  have "answers (readStandard E (Some x) d 6 (push_bit 8 (ucast descriptorDevice)) 18) (device_descriptor cs)"
    using assms(2) by (intro readStandard_answers [OF assms(1)])
      (simp_all add: serves_def descriptorDevice_def device_descriptor_def)
  moreover have "unat (device_descriptor cs ! 17) = length cs" "device_descriptor cs ! 17 \<noteq> 0"
    "device_descriptor cs ! 0 = 18" "device_descriptor cs ! 1 = descriptorDevice"
    using assms(3) by (simp_all add: device_descriptor_def offered_def nth_append unat_of_nat word_unat_eq_iff)
  ultimately show ?thesis
    unfolding configurationCount_def
    by (intro answers_attempt answers_annotate answers_guarded) (auto simp: answers_ret)
qed

lemma serves_header:
  assumes "live E x" "serves d v cs" "k < length cs" "length (encode (cs ! k)) < 65536"
  shows "answers (configurationHeaderAt E (Some x) d k) (header_of cs k)"
proof -
  let ?bs = "take 9 (encode (cs ! k))"
  have "answers (readStandard E (Some x) d 6 (configuration_request k) 9) ?bs"
    using assms(2,3) take_encode(2) [of "cs ! k"]
    by (intro readStandard_answers [OF assms(1)]) (simp_all add: serves_def)
  moreover have "unat (le16 (?bs ! 2) (?bs ! 3)) = length (encode (cs ! k))" "?bs ! 0 = 9" "?bs ! 1 = descriptorConfiguration"
    "?bs ! 5 = cfg_Value (cs ! k)"
    using assms(4) by (simp_all add: take_encode(1) Let_def unat_of_nat del: nth_take)
  ultimately show ?thesis
    unfolding configurationHeaderAt_def header_of_def
    by (intro answers_attempt answers_annotate answers_guarded) (auto simp: answers_ret simp del: nth_take)
qed

lemma offered_length: "offered cs \<Longrightarrow> k < length cs \<Longrightarrow> length (encode (cs ! k)) < 65536"
  by (simp add: offered_def list_all_length)

lemma find_active_others:
  assumes "live E x" "serves d v cs" "offered cs"
  shows "\<forall>k \<in> set ks. k < length cs \<and> cfg_Value (cs ! k) \<noteq> v \<Longrightarrow> answers (find_active E (Some x) d v ks active) active"
proof (induction ks)
  case (Cons k ks)
  then have k: "k < length cs" "cfg_Value (cs ! k) \<noteq> v" by simp_all
  show ?case
    unfolding find_active.simps
    by (rule answers_attempt [OF serves_header [OF assms(1,2) k(1) offered_length [OF assms(3) k(1)]]])
       (use Cons k in \<open>simp add: header_of_def\<close>)
qed (simp add: answers_ret)

lemma find_active_answers:
  assumes "live E x" "serves d v cs" "offered cs" "k < length cs" "cfg_Value (cs ! k) = v"
    "\<And>j. j < length cs \<Longrightarrow> j \<noteq> k \<Longrightarrow> cfg_Value (cs ! j) \<noteq> v"
  shows "answers (find_active E (Some x) d v [0..<length cs] None) (Some (header_of cs k))"
proof -
  have hv: "ch_value (header_of cs k) = v"
    using assms(5) by (simp add: header_of_def)
  have rest: "answers (find_active E (Some x) d v [Suc k..<length cs] (Some (header_of cs k))) (Some (header_of cs k))"
    by (rule find_active_others [OF assms(1-3)]) (use assms(6) in auto)
  have last: "answers (find_active E (Some x) d v (k # [Suc k..<length cs]) None) (Some (header_of cs k))"
    unfolding find_active.simps
    by (rule answers_attempt [OF serves_header [OF assms(1,2,4) offered_length [OF assms(3,4)]]])
       (simp add: hv rest)
  have "answers (find_active E (Some x) d v (ks @ k # [Suc k..<length cs]) None) (Some (header_of cs k))"
    if "\<forall>j \<in> set ks. j < k" for ks
    using that
  proof (induction ks)
    case (Cons j ks)
    then have j: "j < length cs" "cfg_Value (cs ! j) \<noteq> v" "j < k"
      using assms(4,6) by auto
    show ?case
      unfolding append_Cons find_active.simps
      by (rule answers_attempt [OF serves_header [OF assms(1,2) j(1) offered_length [OF assms(3) j(1)]]])
         (use Cons j in \<open>simp add: header_of_def\<close>)
  qed (use last in simp)
  from this [of "[0..<k]"] have "answers (find_active E (Some x) d v ([0..<k] @ k # [Suc k..<length cs]) None) (Some (header_of cs k))"
    by simp
  moreover have "[0..<length cs] = [0..<k] @ k # [Suc k..<length cs]"
    using assms(4) upt_add_eq_append [of 0 k "length cs - k"] upt_conv_Cons [OF assms(4)] by simp
  ultimately show ?thesis by simp
qed

section \<open>The descriptor cache\<close>

definition cache_offset :: "configuration list \<Rightarrow> nat \<Rightarrow> nat" where
  "cache_offset cs k = 18 + length (concat (map encode (take k cs)))"

lemma cached_bytes:
  assumes "k < length cs" "n \<le> length (encode (cs ! k))"
  defines "bytes \<equiv> device_descriptor cs @ concat (map encode cs)"
  shows "cache_offset cs k + n \<le> length bytes" "take n (drop (cache_offset cs k) bytes) = take n (encode (cs ! k))"
proof -
  have "bytes = (device_descriptor cs @ concat (map encode (take k cs))) @ encode (cs ! k) @ concat (map encode (drop (Suc k) cs))"
    unfolding bytes_def by (subst id_take_nth_drop [OF assms(1)]) simp
  moreover have "length (device_descriptor cs @ concat (map encode (take k cs))) = cache_offset cs k"
    by (simp add: cache_offset_def device_descriptor_def)
  ultimately show "cache_offset cs k + n \<le> length bytes" "take n (drop (cache_offset cs k) bytes) = take n (encode (cs ! k))"
    using assms(2) by simp_all
qed

lemma caches_file:
  assumes "caches a cs" "k < length cs" "n \<le> length (encode (cs ! k))"
  shows "answers (read_file msg i (the (at_file a)) (cache_offset cs k) n) (take n (encode (cs ! k)))"
proof -
  obtain f where f: "at_file a = Some f"
    "\<And>offset n w. offset + n \<le> length (device_descriptor cs @ concat (map encode cs)) \<Longrightarrow>
       fst (f offset n w) = (take n (drop offset (device_descriptor cs @ concat (map encode cs))), None)"
    using assms(1) unfolding caches_def Let_def by blast
  have "fst (f (cache_offset cs k) n w) = (take n (encode (cs ! k)), None)" for w
    using f(2) cached_bytes [OF assms(2,3)] by simp
  then show ?thesis
    unfolding read_file_def f(1) option.sel
    by (rule answers_outside) (use assms(3) in \<open>simp add: stored_def answers_ret\<close>)
qed

lemma attachment_length_answers:
  assumes "caches a cs" "k < length cs" "length (encode (cs ! k)) < 65536"
  shows "answers (attachmentConfigurationLength (the (at_file a)) i (cache_offset cs k)) (length (encode (cs ! k)))"
proof -
  let ?bs = "take 9 (encode (cs ! k))"
  have "unat (le16 (?bs ! 2) (?bs ! 3)) = length (encode (cs ! k))" "?bs ! 0 = 9" "?bs ! 1 = descriptorConfiguration"
    using assms(3) by (simp_all add: take_encode(1) Let_def unat_of_nat del: nth_take)
  then show ?thesis
    unfolding attachmentConfigurationLength_def Let_def
    by (intro answers_attempt [OF caches_file [OF assms(1,2) take_encode(2)]] answers_guarded)
       (use take_encode(2) [of "cs ! k"] in \<open>auto simp: answers_ret simp del: nth_take\<close>)
qed

lemma attachment_answers:
  assumes "live E x" "caches a cs" "offered cs" "k < length cs" "left \<le> k"
  shows "answers (attachment_from E x (the (at_file a)) k (length (encode (cs ! k))) (cache_offset cs (k - left)) left) (encode (cs ! k))"
  using assms(5)
proof (induction left)
  case 0
  show ?case
    unfolding attachment_from.simps diff_zero
    using caches_file [OF assms(2,4), of "length (encode (cs ! k))"]
    by (intro answers_checked [OF assms(1)] answers_guarded
        answers_attempt [OF attachment_length_answers [OF assms(2,4) offered_length [OF assms(3,4)]]]) simp_all
next
  case (Suc left)
  let ?j = "k - Suc left"
  have j: "?j < length cs" "k - left = Suc ?j"
    using Suc.prems assms(4) by auto
  have next_offset: "cache_offset cs ?j + length (encode (cs ! ?j)) = cache_offset cs (k - left)"
    using j(1) by (simp add: cache_offset_def j(2) take_Suc_conv_app_nth)
  show ?case
    unfolding attachment_from.simps
    by (intro answers_checked [OF assms(1)]
        answers_attempt [OF attachment_length_answers [OF assms(2) j(1) offered_length [OF assms(3) j(1)]]])
       (use Suc in \<open>simp add: next_offset\<close>)
qed

lemma configurationBytes_answers:
  assumes "live E x" "serves d v cs" "offered cs" "k < length cs" "k < 255" "\<And>a. ud_attachment d = Some a \<Longrightarrow> caches a cs"
  shows "answers (configurationBytes E (Some x) d (header_of cs k)) (encode (cs ! k))"
proof (cases "ud_attachment d")
  case None
  have "answers (readStandard E (Some x) d 6 (configuration_request k) (length (encode (cs ! k)))) (encode (cs ! k))"
    using assms(2,4) by (intro readStandard_answers [OF assms(1)]) (simp_all add: serves_def)
  then show ?thesis
    by (simp add: configurationBytes_def None header_of_def)
next
  case (Some a)
  have "validConfigurationRead a k (length (encode (cs ! k)))"
    using assms(5) assms(6) [OF Some] offered_length [OF assms(3,4)] take_encode(2) [of "cs ! k"]
    by (auto simp: validConfigurationRead_def caches_def Let_def)
  then show ?thesis
    using attachment_answers [OF assms(1) assms(6) [OF Some] assms(3,4), of k]
    by (simp add: configurationBytes_def Some header_of_def readConfigurationDescriptor_def readAttachmentConfiguration_def
        cache_offset_def) (intro answers_checked [OF assms(1)] answers_guarded TrueI)
qed

lemma activeConfiguration_answers:
  assumes "live E x" "serves d v cs" "offered cs" "k < length cs" "k < 255" "v \<noteq> 0" "cfg_Value (cs ! k) = v"
    "\<And>j. j < length cs \<Longrightarrow> j \<noteq> k \<Longrightarrow> cfg_Value (cs ! j) \<noteq> v" "\<And>a. ud_attachment d = Some a \<Longrightarrow> caches a cs"
  shows "answers (activeConfiguration E (Some x) d) (cs ! k)"
proof -
  have "parseConfiguration (encode (cs ! k)) = Inr (cs ! k)"
    using assms(3,4) by (intro parse_encoding) (simp_all add: offered_def list_all_length)
  moreover have "encode (cs ! k) ! 0 = 9" "encode (cs ! k) ! 5 = v"
    using assms(7) by (simp_all add: encode_def Let_def)
  ultimately have config: "answers (configurationAt E (Some x) d (header_of cs k) v) (cs ! k)"
    unfolding configurationAt_def Let_def returned_def
    by (intro answers_guarded answers_annotate answers_attempt [OF answers_annotate [OF configurationBytes_answers [OF assms(1-5,9)]]])
       (use take_encode(2) [of "cs ! k"] in \<open>simp_all add: header_of_def answers_ret\<close>)
  have first: "answers (activeConfigurationValue E (Some x) d) v"
    unfolding activeConfigurationValue_def
    by (intro answers_attempt [OF answers_annotate [OF serves_value [OF assms(1,2)]]] answers_guarded assms(6) answers_ret)
  have again: "answers (reread_configuration E (Some x) d v (cs ! k)) (cs ! k)"
    unfolding reread_configuration_def
    by (intro answers_attempt [OF answers_annotate [OF serves_value [OF assms(1,2)]]] answers_guarded refl answers_ret)
  have found: "answers (find_active E (Some x) d v [0..<length cs] None) (Some (header_of cs k))"
    by (rule find_active_answers [OF assms(1-4,7)]) (rule assms(8))
  show ?thesis
    unfolding activeConfiguration_def
    by (intro answers_attempt [OF first] answers_attempt [OF serves_count [OF assms(1-3)]] answers_attempt [OF found])
       (simp only: option.case, rule answers_attempt [OF config], rule again)
qed

section \<open>Properties of the active configuration\<close>

text \<open>
  C35: Whatever a device answers to control transfers and whatever its descriptor cache holds, a configuration that
  ActiveConfiguration returns is well-formed and its value is not zero.
\<close>
theorem ActiveConfiguration_well_formed:
  assumes "run_state (ActiveConfiguration E d ctx) s = (Inr c, s')"
  shows "configuration_ok c \<and> cfg_Value c \<noteq> 0"
  using assms by (cases d) (auto simp: ActiveConfiguration_def dest: yieldingD [OF activeConfiguration_yields])

definition demo_device :: "unit usb_device" where
  "demo_device =
     \<lparr>ud_ControlTransfer = (\<lambda>x kind request v index n w.
        (if request = 0x08 then ([1], 1, None)
         else if v = 0x0100 then (device_descriptor [probe_configuration], 18, None)
         else (take n (encode probe_configuration), int n, None), w)),
      ud_attachment = Some
        \<lparr>at_file = Some (\<lambda>offset n w.
           ((take n (drop offset (device_descriptor [probe_configuration] @ encode probe_configuration)), None), w)),
         at_closed = False\<rparr>\<rparr>"

lemma demo_device_serves:
  "serves demo_device 1 [probe_configuration]" "offered [probe_configuration]" "cfg_Value probe_configuration = 1"
  "\<And>a. ud_attachment demo_device = Some a \<Longrightarrow> caches a [probe_configuration]"
  using probe_configuration_ok
  by (auto simp: serves_def demo_device_def configuration_request_def descriptorConfiguration_def offered_def caches_def
      probe_configuration_def)

lemma demo_device_answers:
  "answers (activeConfiguration still_env (Some (Caller 0)) demo_device :: (unit, unit, err + configuration) prog)
     probe_configuration"
  using activeConfiguration_answers [OF live_still(1) demo_device_serves(1,2), of 0] demo_device_serves(3,4) by simp

theorem ActiveConfiguration_well_formed_witness:
  "\<exists>s'. run_state (ActiveConfiguration still_env (Some demo_device) (Some (Caller 0))) ((), ()) = (Inr probe_configuration, s') \<and>
     configuration_ok probe_configuration \<and> cfg_Value probe_configuration \<noteq> 0"
proof -
  let ?r = "run_state (ActiveConfiguration still_env (Some demo_device) (Some (Caller 0))) ((), ())"
  have r: "?r = (Inr probe_configuration, snd ?r)"
    using demo_device_answers by (simp add: answers_def ActiveConfiguration_def prod_eq_iff)
  show ?thesis
    using ActiveConfiguration_well_formed [OF r] r by blast
qed

text \<open>
  C34: A device that serves its descriptors, with the usbfs descriptor cache or without, gets the configuration it reports
  as active, field for field: of any number of well-formed configurations with the reported value at exactly one index,
  ActiveConfiguration returns that one.
\<close>
theorem ActiveConfiguration_returns_active:
  assumes "live E x" "serves d v cs" "offered cs" "k < length cs" "k < 255" "v \<noteq> 0" "cfg_Value (cs ! k) = v"
    "\<And>j. j < length cs \<Longrightarrow> j \<noteq> k \<Longrightarrow> cfg_Value (cs ! j) \<noteq> v"
    "\<And>a. ud_attachment d = Some a \<Longrightarrow> caches a cs"
  shows "fst (run_state (ActiveConfiguration E (Some d) (Some x)) s) = Inr (cs ! k)"
  unfolding ActiveConfiguration_def option.case by (rule answersD [OF activeConfiguration_answers [OF assms]])

theorem ActiveConfiguration_returns_active_witness:
  "fst (run_state (ActiveConfiguration still_env (Some demo_device) (Some (Caller 0))) ((), ())) = Inr probe_configuration"
  using ActiveConfiguration_returns_active [OF live_still(1) demo_device_serves(1,2), of 0 0 "((), ())"] demo_device_serves(3,4)
  by simp

section \<open>The command interface\<close>

text \<open>
  What the CMSIS-DAP specification asks of a version 2 command interface: a vendor-specific class without subclass and
  protocol, whose first endpoint is a bulk OUT endpoint, whose second is a bulk IN endpoint, and which may have
  one more bulk IN endpoint, at another address, for SWO.
\<close>

definition bulk_endpoint :: "bool \<Rightarrow> endpoint \<Rightarrow> bool" where
  "bulk_endpoint input e \<longleftrightarrow> ep_TransferType e = TransferBulk \<and> 0 < ep_MaxPacketSize e \<and>
     uint (ep_Address e) mod 16 \<noteq> 0 \<and> bit (ep_Address e) 7 = input"

definition v2_setting :: "byte \<Rightarrow> alternate_setting \<Rightarrow> command_interface \<Rightarrow> bool" where
  "v2_setting number a ci \<longleftrightarrow> (alt_Class a, alt_Subclass a, alt_Protocol a) = (0xFF, 0, 0) \<and>
     ci_number ci = number \<and> ci_alternate ci = alt_Number a \<and>
     bulk_endpoint False (ci_bulkOut ci) \<and> bulk_endpoint True (ci_bulkIn ci) \<and>
     (alt_Endpoints a = [ci_bulkOut ci, ci_bulkIn ci] \<and> ci_swoIn ci = zero_endpoint \<or>
      alt_Endpoints a = [ci_bulkOut ci, ci_bulkIn ci, ci_swoIn ci] \<and> bulk_endpoint True (ci_swoIn ci) \<and>
        ep_Address (ci_swoIn ci) \<noteq> ep_Address (ci_bulkIn ci))"

text \<open>The command interfaces of a configuration, by the positions of their settings.\<close>

definition v2_settings :: "configuration \<Rightarrow> ((nat \<times> nat) \<times> command_interface) set" where
  "v2_settings c = {((i, j), ci). i < length (cfg_Interfaces c) \<and> j < length (if_Alternates (cfg_Interfaces c ! i)) \<and>
     v2_setting (if_Number (cfg_Interfaces c ! i)) (if_Alternates (cfg_Interfaces c ! i) ! j) ci}"

lemma usableBulkEndpoint_iff: "usableBulkEndpoint e input = bulk_endpoint input e"
proof -
  have "(ep_Address e AND 0x0F = 0) = (uint (ep_Address e) mod 16 = 0)"
  proof -
    have "ep_Address e AND 0x0F = take_bit 4 (ep_Address e)" by (simp add: take_bit_eq_mask mask_eq_exp_minus_1)
    then show ?thesis by (simp add: word_uint_eq_iff take_bit_eq_mod uint_mod_distrib)
  qed
  moreover have "(ep_Address e AND 0x80 = 0) = (\<not> bit (ep_Address e) 7)"
    using and_exp_eq_0_iff_not_bit [of "ep_Address e" 7] by simp
  ultimately show ?thesis by (auto simp: usableBulkEndpoint_def bulk_endpoint_def word_gt_0)
qed

lemma two_or_three: "length es = 2 \<longleftrightarrow> (\<exists>x y. es = [x, y])" "length es = 3 \<longleftrightarrow> (\<exists>x y z. es = [x, y, z])"
  by (auto simp: numeral_eq_Suc length_Suc_conv)

lemma candidate_iff: "commandInterfaceCandidate n a = Some ci \<longleftrightarrow> v2_setting n a ci"
proof (cases "length (alt_Endpoints a) = 2 \<or> length (alt_Endpoints a) = 3")
  case True
  then show ?thesis
    by (cases ci) (auto simp: two_or_three commandInterfaceCandidate_def v2_setting_def usableBulkEndpoint_iff Let_def)
next
  case False
  then have "commandInterfaceCandidate n a = None" by (auto simp: commandInterfaceCandidate_def Let_def)
  with False show ?thesis by (auto simp: v2_setting_def)
qed


definition setting_positions :: "configuration \<Rightarrow> (nat \<times> nat) list" where
  "setting_positions c = concat (map (\<lambda>i. map (Pair i) [0..<length (if_Alternates (cfg_Interfaces c ! i))])
     [0..<length (cfg_Interfaces c)])"

definition candidate_at :: "configuration \<Rightarrow> nat \<times> nat \<Rightarrow> command_interface option" where
  "candidate_at c p = commandInterfaceCandidate (if_Number (cfg_Interfaces c ! fst p))
     (if_Alternates (cfg_Interfaces c ! fst p) ! snd p)"

lemma distinct_pairs: "distinct is \<Longrightarrow> (\<And>i. distinct (g i)) \<Longrightarrow> distinct (concat (map (\<lambda>i. map (Pair i) (g i)) is))"
  by (induction "is") (auto simp: distinct_map inj_on_def)

lemma distinct_setting_positions: "distinct (setting_positions c)"
  unfolding setting_positions_def by (rule distinct_pairs) simp_all

lemma command_matches_positions:
  "command_matches c = map (the \<circ> candidate_at c) (filter (\<lambda>p. candidate_at c p \<noteq> None) (setting_positions c))"
proof -
  have alts: "List.map_filter f ys = map (the \<circ> f \<circ> nth ys) (filter (\<lambda>j. f (ys ! j) \<noteq> None) [0..<length ys])"
    for f :: "alternate_setting \<Rightarrow> command_interface option" and ys
    using arg_cong [OF map_nth [of ys], of "\<lambda>zs. map (the \<circ> f) (filter (\<lambda>x. f x \<noteq> None) zs)"]
    by (simp add: List.map_filter_def filter_map comp_def)
  have "command_matches c = concat (map (\<lambda>i. List.map_filter (commandInterfaceCandidate (if_Number (cfg_Interfaces c ! i)))
      (if_Alternates (cfg_Interfaces c ! i))) [0..<length (cfg_Interfaces c)])"
    unfolding command_matches_def by (subst map_nth [symmetric, of "cfg_Interfaces c"]) (simp add: comp_def)
  then show ?thesis
    by (simp add: alts setting_positions_def candidate_at_def filter_concat map_concat filter_map comp_def)
qed

lemma v2_settings_positions:
  "v2_settings c = (\<lambda>p. (p, the (candidate_at c p))) ` set (filter (\<lambda>p. candidate_at c p \<noteq> None) (setting_positions c))"
  by (fastforce simp: v2_settings_def setting_positions_def candidate_at_def image_iff candidate_iff [symmetric])

lemma card_v2_settings: "card (v2_settings c) = length (command_matches c)"
proof -
  let ?ps = "filter (\<lambda>p. candidate_at c p \<noteq> None) (setting_positions c)"
  have "card (v2_settings c) = card (set ?ps)"
    unfolding v2_settings_positions by (rule card_image) (simp add: inj_on_def)
  also have "\<dots> = length ?ps" by (rule distinct_card) (simp add: distinct_setting_positions)
  finally show ?thesis by (simp add: command_matches_positions)
qed

lemma finite_v2_settings: "finite (v2_settings c)"
  by (simp add: v2_settings_positions)

lemma snd_v2_settings: "snd ` v2_settings c = set (command_matches c)"
  by (simp add: v2_settings_positions command_matches_positions image_image)

lemma findCommandInterface_cases:
  "findCommandInterface c = Inl (Sentinel CmsisErrNoV2Interface) \<longleftrightarrow> v2_settings c = {}"
  "findCommandInterface c = Inr ci \<longleftrightarrow> (\<exists>p. v2_settings c = {(p, ci)})"
  "1 < card (v2_settings c) \<Longrightarrow> findCommandInterface c =
     Inl (New ''cmsisdap: active USB configuration has %d CMSIS-DAP v2 command interfaces'' [int (card (v2_settings c))])"
proof -
  have empty: "v2_settings c = {} \<longleftrightarrow> command_matches c = []"
    using finite_v2_settings [of c] card_v2_settings [of c] by (metis card_eq_0_iff length_0_conv)
  show "findCommandInterface c = Inl (Sentinel CmsisErrNoV2Interface) \<longleftrightarrow> v2_settings c = {}"
    by (simp add: empty findCommandInterface_def Let_def)
  have "findCommandInterface c = Inr ci \<longleftrightarrow> command_matches c = [ci]"
    by (cases "command_matches c") (auto simp: findCommandInterface_def Let_def)
  also have "\<dots> \<longleftrightarrow> (\<exists>p. v2_settings c = {(p, ci)})"
  proof
    assume "command_matches c = [ci]"
    then have one: "card (v2_settings c) = 1" and snd: "snd ` v2_settings c = {ci}"
      by (simp_all add: card_v2_settings snd_v2_settings)
    from one obtain x where "v2_settings c = {x}" by (auto simp: card_1_singleton_iff)
    with snd show "\<exists>p. v2_settings c = {(p, ci)}" by (intro exI [of _ "fst x"]) (cases x, simp)
  next
    assume "\<exists>p. v2_settings c = {(p, ci)}"
    then obtain p where p: "v2_settings c = {(p, ci)}" by blast
    have "length (command_matches c) = 1" "set (command_matches c) = {ci}"
      using card_v2_settings [of c] snd_v2_settings [of c] unfolding p by simp_all
    then show "command_matches c = [ci]" by (auto simp: length_Suc_conv)
  qed
  finally show "findCommandInterface c = Inr ci \<longleftrightarrow> (\<exists>p. v2_settings c = {(p, ci)})" .
  show "1 < card (v2_settings c) \<Longrightarrow> findCommandInterface c =
     Inl (New ''cmsisdap: active USB configuration has %d CMSIS-DAP v2 command interfaces'' [int (card (v2_settings c))])"
    by (auto simp: card_v2_settings findCommandInterface_def Let_def)
qed


definition command_endpoints :: "command_interface \<Rightarrow> endpoint list" where
  "command_endpoints ci = [ci_bulkOut ci, ci_bulkIn ci] @ (if ci_swoIn ci = zero_endpoint then [] else [ci_swoIn ci])"

text \<open>The addresses of these endpoints belong to interface \<open>n\<close> alone.\<close>

definition owned_by :: "configuration \<Rightarrow> byte \<Rightarrow> endpoint list \<Rightarrow> bool" where
  "owned_by c n es \<longleftrightarrow> (\<forall>e \<in> set es. \<forall>(m, f) \<in> ports c. ep_Address f = ep_Address e \<longrightarrow> m = n)"

lemma command_endpoints_setting:
  assumes "v2_setting n a ci"
  shows "set (command_endpoints ci) \<subseteq> set (alt_Endpoints a)" "distinct (map ep_Address (command_endpoints ci))"
  using assms by (auto simp: v2_setting_def command_endpoints_def bulk_endpoint_def)

lemma command_endpoints_owned:
  assumes "configuration_ok c" "((i, j), ci) \<in> v2_settings c"
  shows "owned_by c (ci_number ci) (command_endpoints ci)"
proof -
  let ?i = "cfg_Interfaces c ! i"
  from assms(2) have ij: "?i \<in> set (cfg_Interfaces c)" "if_Alternates ?i ! j \<in> set (if_Alternates ?i)"
    and v: "v2_setting (if_Number ?i) (if_Alternates ?i ! j) ci"
    by (auto simp: v2_settings_def)
  have port: "(ci_number ci, e) \<in> ports c" if "e \<in> set (command_endpoints ci)" for e
    using that ij v command_endpoints_setting(1) [OF v] by (auto simp: port_list_def v2_setting_def)
  have "owned_once (ports c)" using assms(1) by (simp add: configuration_ok_def)
  then show ?thesis using port unfolding owned_by_def owned_once_def by fast
qed

text \<open>
  C36: The CMSIS-DAP search finds the version 2 command interfaces of a configuration, as the specification describes them:
  class 0xFF, subclass 0 and protocol 0, a bulk OUT endpoint first, a bulk IN endpoint second and at most one more bulk IN
  endpoint, at another address, for SWO; all with a packet size and an endpoint number that are not zero. It returns an
  interface exactly when one setting is such an interface, and returns that setting's interface number, setting number
  and endpoints; the error is \<open>ErrNoV2Interface\<close> exactly when there is none and counts them when there are more.
  The endpoints returned have distinct addresses, which in a well-formed configuration no other interface uses.
\<close>
theorem findCommandInterface_sound:
  "(findCommandInterface c = Inl (Sentinel CmsisErrNoV2Interface) \<longleftrightarrow> v2_settings c = {}) \<and>
   (\<forall>ci. findCommandInterface c = Inr ci \<longleftrightarrow> (\<exists>p. v2_settings c = {(p, ci)})) \<and>
   (1 < card (v2_settings c) \<longrightarrow> findCommandInterface c = Inl (New
      ''cmsisdap: active USB configuration has %d CMSIS-DAP v2 command interfaces'' [int (card (v2_settings c))])) \<and>
   (\<forall>ci. findCommandInterface c = Inr ci \<longrightarrow> distinct (map ep_Address (command_endpoints ci)) \<and>
      (configuration_ok c \<longrightarrow> owned_by c (ci_number ci) (command_endpoints ci)))"
proof -
  have "distinct (map ep_Address (command_endpoints ci)) \<and> (configuration_ok c \<longrightarrow> owned_by c (ci_number ci) (command_endpoints ci))"
    if "findCommandInterface c = Inr ci" for ci
  proof -
    from that obtain i j where "((i, j), ci) \<in> v2_settings c" unfolding findCommandInterface_cases by auto
    then show ?thesis
      using command_endpoints_setting(2) command_endpoints_owned by (fastforce simp: v2_settings_def)
  qed
  then show ?thesis using findCommandInterface_cases by blast
qed

theorem findCommandInterface_sound_witness:
  "\<exists>ci p. findCommandInterface probe_configuration = Inr ci \<and> v2_settings probe_configuration = {(p, ci)} \<and>
     ci_bulkOut ci = bulk 0x01 \<and> ci_bulkIn ci = bulk 0x81 \<and> ci_swoIn ci = bulk 0x82 \<and>
     owned_by probe_configuration (ci_number ci) (command_endpoints ci)"
proof -
  have "\<exists>ci. findCommandInterface probe_configuration = Inr ci \<and> ci_bulkOut ci = bulk 0x01 \<and> ci_bulkIn ci = bulk 0x81 \<and>
      ci_swoIn ci = bulk 0x82"
    by (simp add: findCommandInterface_def command_matches_def probe_configuration_def commandInterfaceCandidate_def
        usableBulkEndpoint_def bulk_def Let_def List.map_filter_def)
  with findCommandInterface_sound [of probe_configuration] probe_configuration_ok(1) show ?thesis by blast
qed

end
