(* ===== verification/Dap_Target.thy ===== *)
theory Dap_Target
  imports Dap_Types Swd_Sim
begin

text \<open>
  The simulated debug port of \<open>src/dap/sim\<close>: \<open>target.go\<close>, its mapped devices (\<open>device.go\<close>,
  \<open>device_error.go\<close>, \<open>ram.go\<close>) and its fixtures (\<open>debugbase.go\<close>, \<open>debugspace.go\<close>). The receiver of a
  method is not nil. A method of an access port is a program on that port and on the world behind the mapped
  devices; a method of the target runs it on the selected port. Registers and memory are Go maps whose missing
  entries read as zero, so they are total functions. \<open>dap_sim_target\<close> is the target as the simulated wire sees it.
\<close>

section \<open>State\<close>

definition sim_clearStickyCompare :: uint32 where "sim_clearStickyCompare = push_bit 1 1"
definition sim_clearStickyError :: uint32 where "sim_clearStickyError = push_bit 2 1"
definition sim_clearWriteDataError :: uint32 where "sim_clearWriteDataError = push_bit 3 1"
definition sim_clearStickyOverrun :: uint32 where "sim_clearStickyOverrun = push_bit 4 1"
definition sim_stickyOverrun :: uint32 where "sim_stickyOverrun = push_bit 1 1"
definition sim_stickyCompare :: uint32 where "sim_stickyCompare = push_bit 4 1"
definition sim_stickyError :: uint32 where "sim_stickyError = push_bit 5 1"
definition writeDataError :: uint32 where "writeDataError = push_bit 7 1"
definition sim_overrunDetect :: uint32 where "sim_overrunDetect = push_bit 0 1"
definition debugPowerRequest :: uint32 where "debugPowerRequest = push_bit 28 1"
definition debugPowerAck :: uint32 where "debugPowerAck = push_bit 29 1"
definition systemPowerRequest :: uint32 where "systemPowerRequest = push_bit 30 1"
definition systemPowerAck :: uint32 where "systemPowerAck = push_bit 31 1"
definition dlcrTurnaroundMask :: uint32 where "dlcrTurnaroundMask = push_bit 8 3"

lemmas ctrlstat_bits = sim_clearStickyCompare_def sim_clearStickyError_def sim_clearWriteDataError_def sim_clearStickyOverrun_def
  sim_stickyOverrun_def sim_stickyCompare_def sim_stickyError_def writeDataError_def sim_overrunDetect_def debugPowerRequest_def
  debugPowerAck_def systemPowerRequest_def systemPowerAck_def

record 'd memory_device =
  md_Read :: "ctx \<Rightarrow> uint64 \<Rightarrow> nat \<Rightarrow> 'd \<Rightarrow> (byte list \<times> go_error) \<times> 'd"
  md_Write :: "ctx \<Rightarrow> uint64 \<Rightarrow> byte list \<Rightarrow> 'd \<Rightarrow> go_error \<times> 'd"

record 'd device_mapping =
  dm_start :: uint64
  dm_end :: uint64
  dm_device :: "'d memory_device"

datatype large_phase = largeDataIdle | largeDataRead | largeDataWrite

record 'd access_port =
  ap_devices :: "'d device_mapping list"
  ap_regs :: "byte \<Rightarrow> uint32"
  ap_memory :: "uint64 \<Rightarrow> byte"
  ap_memAP :: bool
  ap_sizes :: byte
  ap_largePhase :: large_phase
  ap_largeWord :: uint32

record 'd dap_target =
  dt_started :: bool
  dt_debugWords :: "uint64 \<rightharpoonup> uint32"
  dt_dpidr :: uint32
  dt_ctrlStat :: uint32
  dt_dpBanks :: "nat \<Rightarrow> uint32"
  dt_dpIDBanks :: "nat \<Rightarrow> uint32"
  dt_dpIDBankSet :: "nat \<Rightarrow> bool"
  dt_selectHigh :: uint32
  dt_dpBankSet :: "nat \<Rightarrow> bool"
  dt_selectDP :: uint32
  dt_rdbuff :: uint32
  dt_resend :: uint32
  dt_aps :: "ap_sel \<rightharpoonup> 'd access_port"

definition target_New :: "uint32 \<Rightarrow> 'd dap_target" where
  "target_New dpidr =
     \<lparr>dt_started = False, dt_debugWords = Map.empty, dt_dpidr = dpidr, dt_ctrlStat = 0, dt_dpBanks = (\<lambda>_. 0),
      dt_dpIDBanks = (\<lambda>_. 0), dt_dpIDBankSet = (\<lambda>_. False), dt_selectHigh = 0, dt_dpBankSet = (\<lambda>_. False),
      dt_selectDP = 0, dt_rdbuff = 0, dt_resend = 0, dt_aps = Map.empty\<rparr>"

definition dp_version :: "'d dap_target \<Rightarrow> uint32" where
  "dp_version t = drop_bit 12 (dt_dpidr t) AND 15"

definition sim_error :: "string \<Rightarrow> int list \<Rightarrow> err" where
  "sim_error msg args = New msg args"

section \<open>Memory\<close>

definition memoryRangeEnd :: "uint64 \<Rightarrow> int \<Rightarrow> err + uint64" where
  "memoryRangeEnd addr sz =
     (if sz < 0 then Inl (sim_error ''dap/sim: negative memory range size'' [])
      else if sz = 0 then Inr addr
      else
        let last_addr = addr + of_int (sz - 1) in
        if last_addr < addr then Inl (sim_error ''dap/sim: memory range overflows'' []) else Inr last_addr)"

definition store_bytes :: "uint64 \<Rightarrow> byte list \<Rightarrow> (uint64 \<Rightarrow> byte) \<Rightarrow> (uint64 \<Rightarrow> byte)" where
  "store_bytes addr bs m = fold (\<lambda>(i, b) m. m(addr + of_nat i := b)) (enumerate 0 bs) m"

definition load_bytes :: "uint64 \<Rightarrow> nat \<Rightarrow> (uint64 \<Rightarrow> byte) \<Rightarrow> byte list" where
  "load_bytes addr n m = map (\<lambda>i. m (addr + of_nat i)) [0..<n]"

definition overlapsDevice :: "uint64 \<Rightarrow> uint64 \<Rightarrow> 'd access_port \<Rightarrow> bool" where
  "overlapsDevice first_addr last_addr ap =
     list_ex (\<lambda>m. first_addr \<le> dm_end m \<and> last_addr \<ge> dm_start m) (ap_devices ap)"

abbreviation ErrBusFault :: err where "ErrBusFault \<equiv> Sentinel SimErrBusFault"

primrec find_device :: "uint64 \<Rightarrow> nat \<Rightarrow> uint64 \<Rightarrow> 'd device_mapping list \<Rightarrow> err + 'd memory_device option" where
  "find_device addr width last_addr [] = Inr None"
| "find_device addr width last_addr (m # ms) =
     (if addr > dm_end m \<or> last_addr < dm_start m then find_device addr width last_addr ms
      else if addr mod of_nat width \<noteq> 0 then Inl ErrBusFault
      else if addr < dm_start m \<or> last_addr > dm_end m
      then Inl (Wrap ''%w: access crosses device mapping'' [] [ErrBusFault])
      else Inr (Some (dm_device m)))"

definition deviceForAccess :: "uint64 \<Rightarrow> nat \<Rightarrow> 'd access_port \<Rightarrow> err + 'd memory_device option" where
  "deviceForAccess addr width ap =
     (case memoryRangeEnd addr (int width) of
        Inl _ \<Rightarrow> Inl ErrBusFault
      | Inr last_addr \<Rightarrow> find_device addr width last_addr (ap_devices ap))"

definition deviceFailure :: "err \<Rightarrow> err" where
  "deviceFailure cause =
     Wrap ''%v: %v'' [] (Sentinel SimErrDeviceFailure #
       map Sentinel (filter (err_is cause) [Canceled, DeadlineExceeded]))"

definition deviceResult :: "go_error \<Rightarrow> go_error" where
  "deviceResult e =
     (if e = None \<or> errors_Is e SimErrBusFault then e else Some (deviceFailure (the e)))"

type_synonym ('d, 'a) port_prog = "('d access_port, 'd, err + 'a) prog"

definition readMemory :: "ctx \<Rightarrow> uint64 \<Rightarrow> nat \<Rightarrow> ('d, byte list) port_prog" where
  "readMemory ctx addr width = do {
     device \<leftarrow> fetch (deviceForAccess addr width);
     case device of
       Inl e \<Rightarrow> ret (Inl e)
     | Inr (Some d) \<Rightarrow> do {
         r \<leftarrow> outside (md_Read d ctx addr width);
         case deviceResult (snd r) of
           Some e \<Rightarrow> ret (Inl e)
         | None \<Rightarrow> ret (Inr (stored width (fst r)))
       }
     | Inr None \<Rightarrow> fetch (\<lambda>ap. Inr (load_bytes addr width (ap_memory ap)))
   }"

definition writeMemory :: "ctx \<Rightarrow> uint64 \<Rightarrow> byte list \<Rightarrow> ('d, unit) port_prog" where
  "writeMemory ctx addr bs = do {
     device \<leftarrow> fetch (deviceForAccess addr (length bs));
     case device of
       Inl e \<Rightarrow> ret (Inl e)
     | Inr (Some d) \<Rightarrow> do {
         e \<leftarrow> outside (md_Write d ctx addr bs);
         case deviceResult e of Some x \<Rightarrow> ret (Inl x) | None \<Rightarrow> ret (Inr ())
       }
     | Inr None \<Rightarrow> do {
         update (\<lambda>ap. ap\<lparr>ap_memory := store_bytes addr bs (ap_memory ap)\<rparr>);
         ret (Inr ())
       }
   }"

definition port_bigEndian :: "'d access_port \<Rightarrow> bool" where
  "port_bigEndian ap \<longleftrightarrow> ap_regs ap 0xF4 AND 1 \<noteq> 0"

definition join_bytes :: "bool \<Rightarrow> byte list \<Rightarrow> uint64" where
  "join_bytes big bs =
     (if big then foldl (\<lambda>v b. push_bit 8 v OR ucast b) 0 bs
      else foldl (\<lambda>v (i, b). v OR push_bit (i * 8) (ucast b)) 0 (enumerate 0 bs))"

definition split_bytes :: "bool \<Rightarrow> nat \<Rightarrow> uint64 \<Rightarrow> byte list" where
  "split_bytes big width v =
     map (\<lambda>offset. ucast (drop_bit (if big then (width - 1 - offset) * 8 else offset * 8) v)) [0..<width]"

definition memoryValue :: "ctx \<Rightarrow> uint64 \<Rightarrow> nat \<Rightarrow> ('d, uint64) port_prog" where
  "memoryValue ctx addr width =
     attempt (readMemory ctx addr width) (\<lambda>bs. fetch (\<lambda>ap. Inr (join_bytes (port_bigEndian ap) bs)))"

definition writeMemoryValue :: "ctx \<Rightarrow> uint64 \<Rightarrow> nat \<Rightarrow> uint64 \<Rightarrow> ('d, unit) port_prog" where
  "writeMemoryValue ctx addr width v = do {
     big \<leftarrow> fetch port_bigEndian;
     writeMemory ctx addr (split_bytes big width v)
   }"

section \<open>Access ports\<close>

definition supportsDRWAddressing :: "'d access_port \<Rightarrow> bool" where
  "supportsDRWAddressing ap =
     (let sz = ap_regs ap 0 AND 7; inc = ap_regs ap 0 AND 0x30 in
      sz \<le> 3 \<and> (inc = 0 \<or> inc = 0x10 \<and> sz = 2))"

definition incrementTAR :: "nat \<Rightarrow> 'd access_port \<Rightarrow> 'd access_port" where
  "incrementTAR width ap =
     (if ap_regs ap 0 AND 0x30 \<noteq> 0x10 then ap
      else
        let tar = ap_regs ap 4 in
        ap\<lparr>ap_regs := (ap_regs ap)(4 := (tar AND NOT 0x3FF) OR ((tar + of_nat width) AND 0x3FF))\<rparr>)"

definition targetAddress :: "'d access_port \<Rightarrow> uint64" where
  "targetAddress ap =
     (let address = ucast (ap_regs ap 4) in
      if ap_regs ap 0xF4 AND 2 \<noteq> 0 then address OR push_bit 32 (ucast (ap_regs ap 8)) else address)"

definition port_laneShift :: "nat \<Rightarrow> 'd access_port \<Rightarrow> nat" where
  "port_laneShift width ap =
     (if width \<ge> 4 then 0
      else
        let lane = uint (targetAddress ap AND 3);
            lane = (if port_bigEndian ap then 4 - int width - lane else lane)
        in nat (lane mod 4) * 8)"

definition lane_mask :: "nat \<Rightarrow> nat \<Rightarrow> uint32" where
  "lane_mask width shift = word_rotl shift (ucast (push_bit (width * 8) 1 - 1 :: uint64))"

definition drw_result :: "nat \<Rightarrow> uint64 \<Rightarrow> 'd access_port \<Rightarrow> uint32" where
  "drw_result width v ap =
     (let shift = port_laneShift width ap; result = word_rotl shift (ucast v) in
      if width < 4 then result OR (0xA5A5A5A5 AND NOT (lane_mask width shift)) else result)"

definition readLargeDRW :: "ctx \<Rightarrow> ('d, uint32) port_prog" where
  "readLargeDRW ctx = do {
     ap \<leftarrow> fetch id;
     if ap_regs ap 0xF4 AND 4 = 0 then ret (Inl (sim_error ''dap/sim: 64-bit DRW read requires CFG.LD'' []))
     else
       (case ap_largePhase ap of
          largeDataIdle \<Rightarrow>
            attempt (memoryValue ctx (targetAddress ap) 8) (\<lambda>v. do {
              update (\<lambda>ap. ap\<lparr>ap_largeWord := ucast (drop_bit 32 v), ap_largePhase := largeDataRead\<rparr>);
              ret (Inr (ucast v))
            })
        | largeDataRead \<Rightarrow> do {
            update (\<lambda>ap. ap\<lparr>ap_largePhase := largeDataIdle\<rparr>);
            ret (Inr (ap_largeWord ap))
          }
        | largeDataWrite \<Rightarrow> ret (Inl (sim_error ''dap/sim: 64-bit DRW read interrupted a write'' [])))
   }"

definition readDRW :: "ctx \<Rightarrow> ('d, uint32) port_prog" where
  "readDRW ctx = do {
     ap \<leftarrow> fetch id;
     let sz = unat (ap_regs ap 0 AND 7);
     if \<not> supportsDRWAddressing ap
     then ret (Inl (sim_error ''dap/sim: DRW read has unsupported CSW.Size or AddrInc'' []))
     else if sz = 3 then readLargeDRW ctx
     else
       attempt (memoryValue ctx (targetAddress ap) (2 ^ sz)) (\<lambda>v. do {
         update (incrementTAR (2 ^ sz));
         fetch (\<lambda>ap. Inr (drw_result (2 ^ sz) v ap))
       })
   }"

definition writeLargeDRW :: "ctx \<Rightarrow> uint32 \<Rightarrow> ('d, unit) port_prog" where
  "writeLargeDRW ctx v = do {
     ap \<leftarrow> fetch id;
     if ap_regs ap 0xF4 AND 4 = 0 then ret (Inl (sim_error ''dap/sim: 64-bit DRW write requires CFG.LD'' []))
     else
       (case ap_largePhase ap of
          largeDataIdle \<Rightarrow> do {
            update (\<lambda>ap. ap\<lparr>ap_largeWord := v, ap_largePhase := largeDataWrite\<rparr>);
            ret (Inr ())
          }
        | largeDataWrite \<Rightarrow> do {
            update (\<lambda>ap. ap\<lparr>ap_largePhase := largeDataIdle\<rparr>);
            writeMemoryValue ctx (targetAddress ap) 8 (ucast (ap_largeWord ap) OR push_bit 32 (ucast v))
          }
        | largeDataRead \<Rightarrow> ret (Inl (sim_error ''dap/sim: 64-bit DRW write interrupted a read'' [])))
   }"

definition writeDRW :: "ctx \<Rightarrow> uint32 \<Rightarrow> ('d, unit) port_prog" where
  "writeDRW ctx v = do {
     ap \<leftarrow> fetch id;
     let sz = unat (ap_regs ap 0 AND 7);
     if \<not> supportsDRWAddressing ap
     then ret (Inl (sim_error ''dap/sim: DRW write has unsupported CSW.Size or AddrInc'' []))
     else if sz = 3 then writeLargeDRW ctx v
     else
       attempt (writeMemoryValue ctx (targetAddress ap) (2 ^ sz)
           (ucast (word_rotr (port_laneShift (2 ^ sz) ap) v))) (\<lambda>_. do {
         update (incrementTAR (2 ^ sz));
         ret (Inr ())
       })
   }"

definition readOnlyRegister :: "byte \<Rightarrow> 'd access_port \<Rightarrow> bool" where
  "readOnlyRegister reg ap \<longleftrightarrow> reg = 0xFC \<or> ap_memAP ap \<and> (reg = 0xF0 \<or> reg = 0xF4 \<or> reg = 0xF8)"

text \<open>The name of the operation in the messages is left out.\<close>

definition validateRegisterAccess :: "byte \<Rightarrow> 'd access_port \<Rightarrow> go_error" where
  "validateRegisterAccess reg ap =
     (if reg \<ge> 0x10 \<and> reg \<le> 0x1C
      then Some (sim_error ''dap/sim: MEM-AP banked data register %#02x is not modeled'' [uint reg])
      else if ap_largePhase ap = largeDataIdle \<or> reg = 0 \<or> reg = 0x0C then None
      else Some (sim_error ''dap/sim: MEM-AP register %#02x %s during incomplete 64-bit transfer'' [uint reg]))"

definition readRegister :: "ctx \<Rightarrow> byte \<Rightarrow> ('d, uint32) port_prog" where
  "readRegister ctx reg = do {
     ap \<leftarrow> fetch id;
     if \<not> ap_memAP ap then ret (Inr (ap_regs ap reg))
     else
       (case validateRegisterAccess reg ap of
          Some e \<Rightarrow> ret (Inl e)
        | None \<Rightarrow>
            if (reg = 8 \<or> reg = 0xF0) \<and> ap_regs ap 0xF4 AND 2 = 0 then ret (Inr 0)
            else if reg = 0x0C then readDRW ctx
            else do {
              update (\<lambda>ap. if reg = 0 then ap\<lparr>ap_largePhase := largeDataIdle\<rparr> else ap);
              ret (Inr (ap_regs ap reg))
            })
   }"

definition store_register :: "byte \<Rightarrow> uint32 \<Rightarrow> 'd access_port \<Rightarrow> 'd access_port" where
  "store_register reg v ap =
     (let v = (if reg = 0 \<and> ap_sizes ap AND push_bit (unat (v AND 7)) 1 = 0
               then (v AND NOT 7) OR (ap_regs ap 0 AND 7) else v);
          ap = ap\<lparr>ap_regs := (ap_regs ap)(reg := v)\<rparr>
      in if reg = 0 then ap\<lparr>ap_largePhase := largeDataIdle\<rparr> else ap)"

definition writeRegister :: "ctx \<Rightarrow> byte \<Rightarrow> uint32 \<Rightarrow> ('d, unit) port_prog" where
  "writeRegister ctx reg v = do {
     ap \<leftarrow> fetch id;
     if readOnlyRegister reg ap then ret (Inr ())
     else if \<not> ap_memAP ap then do {
       update (\<lambda>ap. ap\<lparr>ap_regs := (ap_regs ap)(reg := v)\<rparr>);
       ret (Inr ())
     } else
       (case validateRegisterAccess reg ap of
          Some e \<Rightarrow> ret (Inl e)
        | None \<Rightarrow>
            if reg = 8 \<and> ap_regs ap 0xF4 AND 2 = 0 then ret (Inr ())
            else if reg = 0x0C then writeDRW ctx v
            else do { update (store_register reg v); ret (Inr ()) })
   }"

section \<open>Selection\<close>

definition validDebugAddress :: "uint64 \<Rightarrow> 'd dap_target \<Rightarrow> bool" where
  "validDebugAddress address t =
     (let bits = dt_dpIDBanks t 1 AND 0x7F in
      bits \<in> {12, 20, 32, 40, 48, 52} \<and> drop_bit (unat bits) address = 0)"

definition selectorValue :: "ap_sel \<Rightarrow> 'd dap_target \<Rightarrow> err + uint64" where
  "selectorValue sel t =
     (if dp_version t > 3 then Inl (sim_error ''dap/sim: AP fixtures do not support DPv%d'' [uint (dp_version t)])
      else if dp_version t = 3 then
        (case BaseAddress sel of
           Inl e \<Rightarrow> Inl e
         | Inr base \<Rightarrow>
             if \<not> validDebugAddress base t
             then Inl (sim_error ''dap/sim: AP base requires a configured, supported DPIDR1 address width'' [])
             else Inr base)
      else map_sum id ucast (APSel_Value sel))"

definition zero_sel :: ap_sel where
  "zero_sel = \<lparr>as_index = 0, as_base = 0, as_v2 = False\<rparr>"

definition selectedAP :: "'d dap_target \<Rightarrow> ap_sel" where
  "selectedAP t =
     (if dp_version t = 3 then
        (case APAt (push_bit 32 (ucast (dt_selectHigh t)) OR ucast (dt_selectDP t AND NOT 0xFFF)) of
           Inl _ \<Rightarrow> zero_sel
         | Inr sel \<Rightarrow> sel)
      else NewAPSel (ucast (drop_bit 24 (dt_selectDP t))))"

definition apReg :: "request \<Rightarrow> 'd dap_target \<Rightarrow> err + byte" where
  "apReg req t =
     (if dp_version t = 3 \<and> dt_selectDP t AND 0xF00 \<noteq> 0xD00
      then Inl (sim_error ''dap/sim: AP register outside modeled register window'' [])
      else Inr (push_bit 4 (ucast (drop_bit 4 (dt_selectDP t)) AND 0x0F) OR req_addr req))"

text \<open>A method of the access port behind a selector, which exists.\<close>

definition on_port :: "ap_sel \<Rightarrow> ('d, 'a) port_prog \<Rightarrow> ('d dap_target, 'd, err + 'a) prog" where
  "on_port sel m = State (\<lambda>(t, d).
     case run_state m (the (dt_aps t sel), d) of (r, (ap, d)) \<Rightarrow> (r, (t\<lparr>dt_aps := (dt_aps t)(sel \<mapsto> ap)\<rparr>, d)))"

section \<open>Debug-port requests\<close>

definition OverrunDetectEnabled :: "'d dap_target \<Rightarrow> bool" where
  "OverrunDetectEnabled t \<longleftrightarrow> dt_ctrlStat t AND sim_overrunDetect \<noteq> 0"

definition SetOverrunDetect :: "bool \<Rightarrow> 'd dap_target \<Rightarrow> 'd dap_target" where
  "SetOverrunDetect enabled t =
     t\<lparr>dt_ctrlStat := (if enabled then dt_ctrlStat t OR sim_overrunDetect else dt_ctrlStat t AND NOT sim_overrunDetect)\<rparr>"

definition ObserveResponse :: "go_error \<Rightarrow> 'd dap_target \<Rightarrow> 'd dap_target" where
  "ObserveResponse e t =
     (if e \<noteq> None \<and> OverrunDetectEnabled t then t\<lparr>dt_ctrlStat := dt_ctrlStat t OR sim_stickyOverrun\<rparr> else t)"

definition ObserveLineReset :: "'d dap_target \<Rightarrow> 'd dap_target" where
  "ObserveLineReset t =
     (let t = t\<lparr>dt_started := True, dt_dpBanks := (dt_dpBanks t)(1 := 0)\<rparr>;
          t = (if dp_version t = 3 then t\<lparr>dt_selectDP := dt_selectDP t AND NOT 15\<rparr> else t)
      in if OverrunDetectEnabled t then t\<lparr>dt_ctrlStat := dt_ctrlStat t OR sim_stickyOverrun\<rparr> else t)"

definition isStickyExempt :: "request \<Rightarrow> uint32 \<Rightarrow> bool" where
  "isStickyExempt req selectDP =
     (if req_ap req then False
      else if \<not> req_read req then req_addr req = 0x00
      else req_addr req = 0x00 \<or> req_addr req = 0x04 \<and> selectDP AND 0x0F = 0)"

definition sticky_mask :: uint32 where
  "sticky_mask = (sim_stickyOverrun OR sim_stickyCompare OR sim_stickyError OR writeDataError)"

definition Acknowledge :: "'d go_env \<Rightarrow> ctx \<Rightarrow> request \<Rightarrow> ('d dap_target, 'd, go_error) prog" where
  "Acknowledge E ctx req =
     (if req_addr req AND 3 \<noteq> 0 \<or> req_addr req > 0x0C then ret (Some (sim_error ''dap/sim: invalid request'' []))
      else do {
        e \<leftarrow> outside (ctx_Err E ctx);
        case e of
          Some x \<Rightarrow> ret (Some (Sentinel x))
        | None \<Rightarrow> do {
            update (\<lambda>t. t\<lparr>dt_started := True\<rparr>);
            fetch (\<lambda>t. if dt_ctrlStat t AND sticky_mask = 0 \<or> isStickyExempt req (dt_selectDP t) then None
              else Some ErrFault)
          }
      })"

definition with_ctx :: "'w go_env \<Rightarrow> ctx \<Rightarrow> ('c, 'w, err + 'a) prog \<Rightarrow> ('c, 'w, err + 'a) prog" where
  "with_ctx E ctx m = do {
     e \<leftarrow> outside (ctx_Err E ctx);
     case e of Some x \<Rightarrow> ret (Inl (Sentinel x)) | None \<Rightarrow> m
   }"

definition validateRequest :: "request \<Rightarrow> bool \<Rightarrow> go_error" where
  "validateRequest req read =
     (if req_addr req AND 3 \<noteq> 0 \<or> req_addr req > 0x0C
      then Some (sim_error ''dap/sim: invalid request address %#02x'' [uint (req_addr req)])
      else if req_read req \<noteq> read then Some (sim_error ''dap/sim: invalid request direction'' [])
      else None)"

definition target_clearSticky :: "uint32 \<Rightarrow> 'd dap_target \<Rightarrow> 'd dap_target" where
  "target_clearSticky v t =
     (let s = dt_ctrlStat t;
          s = (if v AND sim_clearStickyCompare \<noteq> 0 then s AND NOT sim_stickyCompare else s);
          s = (if v AND sim_clearStickyError \<noteq> 0 then s AND NOT sim_stickyError else s);
          s = (if v AND sim_clearWriteDataError \<noteq> 0 then s AND NOT writeDataError else s);
          s = (if v AND sim_clearStickyOverrun \<noteq> 0 then s AND NOT sim_stickyOverrun else s)
      in t\<lparr>dt_ctrlStat := s\<rparr>)"

definition setPower :: "uint32 \<Rightarrow> 'd dap_target \<Rightarrow> 'd dap_target" where
  "setPower v t =
     (let sticky = dt_ctrlStat t AND sticky_mask;
          control = v AND (sim_overrunDetect OR debugPowerRequest OR systemPowerRequest);
          requests = control AND (debugPowerRequest OR systemPowerRequest);
          s = sticky OR control;
          s = (if requests AND debugPowerRequest \<noteq> 0 then s OR debugPowerAck else s);
          s = (if requests AND systemPowerRequest \<noteq> 0 then s OR systemPowerAck else s)
      in t\<lparr>dt_ctrlStat := s\<rparr>)"

definition readIdentityRegister :: "'d dap_target \<Rightarrow> uint32" where
  "readIdentityRegister t =
     (let bank = dt_selectDP t AND 15 in
      if dp_version t = 3 \<and> bank \<noteq> 0 then (if bank < 4 then dt_dpIDBanks t (unat bank) else 0) else dt_dpidr t)"

definition bad_turnaround :: err where
  "bad_turnaround = sim_error ''dap/sim: variable SWD turnaround is not modeled'' []"

definition writeBankedRegister :: "uint32 \<Rightarrow> 'd dap_target \<Rightarrow> go_error \<times> 'd dap_target" where
  "writeBankedRegister v t =
     (let bank = dt_selectDP t AND 0x0F in
      if bank = 0 then (None, setPower v t)
      else if bank = 5 then (None, if dp_version t = 3 then t\<lparr>dt_selectHigh := v\<rparr> else t)
      else if bank = 1 then
        (if v AND dlcrTurnaroundMask \<noteq> 0 then (Some bad_turnaround, t)
         else (None, t\<lparr>dt_dpBanks := (dt_dpBanks t)(unat bank := v)\<rparr>))
      else (None, t))"

section \<open>Access-port requests\<close>

definition set_stickyError :: "'d dap_target \<Rightarrow> 'd dap_target" where
  "set_stickyError t = t\<lparr>dt_ctrlStat := dt_ctrlStat t OR sim_stickyError\<rparr>"

definition readAP_port :: "ctx \<Rightarrow> request \<Rightarrow> uint32 \<Rightarrow> ('d dap_target, 'd, err + uint32) prog" where
  "readAP_port ctx req posted =
     attempt (fetch (apReg req)) (\<lambda>reg. do {
       sel \<leftarrow> fetch selectedAP;
       r \<leftarrow> on_port sel (readRegister ctx reg);
       case r of
         Inl e \<Rightarrow>
           if err_is e SimErrBusFault then do { update set_stickyError; ret (Inr posted) } else ret (Inl e)
       | Inr v \<Rightarrow> do { update (\<lambda>t. t\<lparr>dt_rdbuff := v\<rparr>); ret (Inr posted) }
     })"

definition target_readAP :: "ctx \<Rightarrow> request \<Rightarrow> ('d dap_target, 'd, err + uint32) prog" where
  "target_readAP ctx req = do {
     t \<leftarrow> fetch id;
     case (if dp_version t = 3
           then dt_debugWords t (push_bit 32 (ucast (dt_selectHigh t)) OR ucast (dt_selectDP t AND NOT 15) OR
             ucast (req_addr req))
           else None) of
       Some v \<Rightarrow> do { update (\<lambda>t. t\<lparr>dt_rdbuff := v\<rparr>); ret (Inr (dt_rdbuff t)) }
     | None \<Rightarrow>
         if dt_aps t (selectedAP t) = None then do { update (\<lambda>t. t\<lparr>dt_rdbuff := 0\<rparr>); ret (Inr (dt_rdbuff t)) }
         else readAP_port ctx req (dt_rdbuff t)
   }"

definition target_writeAP :: "ctx \<Rightarrow> request \<Rightarrow> uint32 \<Rightarrow> ('d dap_target, 'd, err + unit) prog" where
  "target_writeAP ctx req v = do {
     t \<leftarrow> fetch id;
     if dt_aps t (selectedAP t) = None then ret (Inr ())
     else
       attempt (fetch (apReg req)) (\<lambda>reg. do {
         r \<leftarrow> on_port (selectedAP t) (writeRegister ctx reg v);
         case r of
           Inl e \<Rightarrow>
             if err_is e SimErrBusFault then do { update set_stickyError; ret (Inr ()) } else ret (Inl e)
         | Inr u \<Rightarrow> ret (Inr ())
       })
   }"

section \<open>The target of the wire\<close>

definition unsupported_read :: "request \<Rightarrow> err" where
  "unsupported_read req = sim_error ''dap/sim: unsupported DP read %#02x'' [uint (req_addr req)]"
definition unsupported_write :: "request \<Rightarrow> err" where
  "unsupported_write req = sim_error ''dap/sim: unsupported DP write %#02x'' [uint (req_addr req)]"

definition read_DP :: "request \<Rightarrow> ('d dap_target, 'd, err + uint32) prog" where
  "read_DP req =
     (if req_addr req = 0x00 then fetch (\<lambda>t. Inr (readIdentityRegister t))
      else if req_addr req = 0x04 then
        fetch (\<lambda>t. Inr (let bank = dt_selectDP t AND 0x0F in if bank = 0 then dt_ctrlStat t else dt_dpBanks t (unat bank)))
      else if req_addr req = 0x08 then fetch (\<lambda>t. Inr (dt_resend t))
      else if req_addr req = 0x0C then do {
        update (\<lambda>t. t\<lparr>dt_resend := dt_rdbuff t, dt_rdbuff := 0\<rparr>);
        fetch (\<lambda>t. Inr (dt_resend t))
      }
      else ret (Inl (unsupported_read req)))"

definition target_Read :: "'d go_env \<Rightarrow> ctx \<Rightarrow> request \<Rightarrow> ('d dap_target, 'd, err + uint32) prog" where
  "target_Read E ctx req =
     (case validateRequest req True of
        Some e \<Rightarrow> ret (Inl e)
      | None \<Rightarrow> with_ctx E ctx (do {
          update (\<lambda>t. t\<lparr>dt_started := True\<rparr>);
          if req_ap req then
            attempt (target_readAP ctx req) (\<lambda>v. do { update (\<lambda>t. t\<lparr>dt_resend := v\<rparr>); ret (Inr v) })
          else read_DP req
        }))"

definition write_DP :: "request \<Rightarrow> uint32 \<Rightarrow> ('d dap_target, 'd, err + unit) prog" where
  "write_DP req v =
     (if req_addr req = 0x00 then do { update (\<lambda>t. target_clearSticky v (t\<lparr>dt_rdbuff := 0\<rparr>)); ret (Inr ()) }
      else if req_addr req = 0x04 then do {
        update (\<lambda>t. t\<lparr>dt_rdbuff := 0\<rparr>);
        r \<leftarrow> fetch (writeBankedRegister v);
        update (\<lambda>t. snd r);
        ret (case fst r of None \<Rightarrow> Inr () | Some e \<Rightarrow> Inl e)
      }
      else if req_addr req = 0x08 then do { update (\<lambda>t. t\<lparr>dt_rdbuff := 0, dt_selectDP := v\<rparr>); ret (Inr ()) }
      else ret (Inl (unsupported_write req)))"

definition target_Write :: "'d go_env \<Rightarrow> ctx \<Rightarrow> request \<Rightarrow> uint32 \<Rightarrow> ('d dap_target, 'd, err + unit) prog" where
  "target_Write E ctx req v =
     (case validateRequest req False of
        Some e \<Rightarrow> ret (Inl e)
      | None \<Rightarrow> with_ctx E ctx (do {
          update (\<lambda>t. t\<lparr>dt_started := True\<rparr>);
          if req_ap req then do { update (\<lambda>t. t\<lparr>dt_rdbuff := 0\<rparr>); target_writeAP ctx req v }
          else write_DP req v
        }))"

definition dap_sim_target :: "'d go_env \<Rightarrow> ('d dap_target \<times> 'd) sim_target" where
  "dap_sim_target E =
     \<lparr>st_Read = (\<lambda>ctx req s. case run_state (target_Read E ctx req) s of
        (Inl e, s) \<Rightarrow> ((0, Some e), s) | (Inr v, s) \<Rightarrow> ((v, None), s)),
      st_Write = (\<lambda>ctx req v s. case run_state (target_Write E ctx req v) s of
        (Inl e, s) \<Rightarrow> (Some e, s) | (Inr _, s) \<Rightarrow> (None, s)),
      st_Acknowledge = Some (\<lambda>ctx req. run_state (Acknowledge E ctx req)),
      st_OverrunDetectEnabled = Some (\<lambda>s. OverrunDetectEnabled (fst s)),
      st_ObserveResponse = Some (\<lambda>e s. (ObserveResponse (Some e) (fst s), snd s)),
      st_ObserveLineReset = Some (\<lambda>s. (ObserveLineReset (fst s), snd s))\<rparr>"

end
