(* ===== verification/Dap_Fixture.thy ===== *)
theory Dap_Fixture
  imports Dap_Target
begin

text \<open>
  Configuring a simulated target before and between traffic: the fixture methods of \<open>src/dap/sim/target.go\<close>,
  \<open>device.go\<close>, \<open>debugbase.go\<close> and \<open>debugspace.go\<close>, and the shared memory of \<open>ram.go\<close>. A fixture method
  either returns an error and leaves the target as it was, or returns the changed target.
\<close>

section \<open>Registers\<close>

definition setIdentityRegister :: "dp_register \<Rightarrow> uint32 \<Rightarrow> 'd dap_target \<Rightarrow> err + 'd dap_target" where
  "setIdentityRegister reg v t =
     (let bank = unat (reg - DPIDR1) + 1 in
      if dp_version t \<noteq> 3 \<or> dt_dpIDBankSet t bank
      then Inl (sim_error ''dap/sim: %s fixture unavailable'' [uint reg])
      else Inr (t\<lparr>dt_dpIDBanks := (dt_dpIDBanks t)(bank := v), dt_dpIDBankSet := (dt_dpIDBankSet t)(bank := True)\<rparr>))"

definition fixture_bank :: "dp_register \<Rightarrow> nat option" where
  "fixture_bank reg =
     (if reg = DLCR then Some 1 else if reg = TARGETID then Some 2 else if reg = DLPIDR then Some 3
      else if reg = EVENTSTAT then Some 4 else None)"

definition SetDPRegister :: "dp_register \<Rightarrow> uint32 \<Rightarrow> 'd dap_target \<Rightarrow> err + 'd dap_target" where
  "SetDPRegister reg v t =
     (if reg \<ge> DPIDR1 \<and> reg \<le> BASEPTR1 then setIdentityRegister reg v t
      else
        (case fixture_bank reg of
           None \<Rightarrow> Inl (sim_error ''dap/sim: %s has no banked fixture'' [uint reg])
         | Some bank \<Rightarrow>
             if reg = DLCR \<and> v AND dlcrTurnaroundMask \<noteq> 0 then Inl bad_turnaround
             else if dt_dpBankSet t bank then Inl (sim_error ''dap/sim: %s is already configured'' [uint reg])
             else Inr (t\<lparr>dt_dpBanks := (dt_dpBanks t)(bank := v), dt_dpBankSet := (dt_dpBankSet t)(bank := True)\<rparr>)))"

definition SetDebugWord :: "uint64 \<Rightarrow> uint32 \<Rightarrow> 'd dap_target \<Rightarrow> err + 'd dap_target" where
  "SetDebugWord address v t =
     (if dp_version t \<noteq> 3 then Inl (sim_error ''dap/sim: debug words require DPv3'' [])
      else if address AND 3 \<noteq> 0 \<or> \<not> validDebugAddress address t
      then Inl (sim_error ''dap/sim: invalid debug word address'' [])
      else Inr (t\<lparr>dt_debugWords := (dt_debugWords t)(address \<mapsto> v)\<rparr>))"

section \<open>Access ports\<close>

definition already_configured :: "uint64 \<Rightarrow> err" where
  "already_configured selection = sim_error ''dap/sim: AP %d is already configured'' [uint selection]"

definition plain_port :: "uint32 \<Rightarrow> 'd access_port" where
  "plain_port idr =
     \<lparr>ap_devices = [], ap_regs = (\<lambda>_. 0)(0xFC := idr), ap_memory = (\<lambda>_. 0), ap_memAP = False, ap_sizes = 0,
      ap_largePhase = largeDataIdle, ap_largeWord = 0\<rparr>"

definition AddAP :: "ap_sel \<Rightarrow> uint32 \<Rightarrow> 'd dap_target \<Rightarrow> err + 'd dap_target" where
  "AddAP sel idr t =
     (if idr = 0 then Inl (sim_error ''dap/sim: APIDR must be nonzero'' [])
      else
        (case selectorValue sel t of
           Inl e \<Rightarrow> Inl e
         | Inr selection \<Rightarrow>
             if dt_aps t sel \<noteq> None then Inl (already_configured selection)
             else Inr (t\<lparr>dt_aps := (dt_aps t)(sel \<mapsto> plain_port idr)\<rparr>)))"

text \<open>The words of a memory port, in the order the map is ranged over.\<close>

primrec fixture_memory :: "(uint32 \<times> uint32) list \<Rightarrow> (uint64 \<Rightarrow> byte) \<Rightarrow> err + (uint64 \<Rightarrow> byte)" where
  "fixture_memory [] m = Inr m"
| "fixture_memory (w # ws) m =
     (if fst w AND 3 \<noteq> 0 then Inl (sim_error ''dap/sim: unaligned target-word address %#08x'' [uint (fst w)])
      else fixture_memory ws (store_bytes (ucast (fst w)) (map (\<lambda>i. ucast (drop_bit (i * 8) (snd w))) [0..<4]) m))"

definition memory_port :: "uint32 \<Rightarrow> (uint64 \<Rightarrow> byte) \<Rightarrow> 'd access_port" where
  "memory_port idr m =
     \<lparr>ap_devices = [], ap_regs = (\<lambda>_. 0)(0xF4 := 0, 0xF8 := 2, 0xFC := idr), ap_memory = m, ap_memAP = True,
      ap_sizes = push_bit 0 1 OR push_bit 1 1 OR push_bit 2 1, ap_largePhase = largeDataIdle, ap_largeWord = 0\<rparr>"

definition AddMEMAP :: "ap_sel \<Rightarrow> uint32 \<Rightarrow> (uint32 \<times> uint32) list \<Rightarrow> 'd dap_target \<Rightarrow> err + 'd dap_target" where
  "AddMEMAP sel idr words t =
     (if idr = 0 \<or> ai_Class (DecodeAPIDR idr) \<noteq> 8
      then Inl (sim_error ''dap/sim: MEM-AP requires a nonzero class-8 APIDR'' [])
      else
        (case selectorValue sel t of
           Inl e \<Rightarrow> Inl e
         | Inr selection \<Rightarrow>
             if dt_aps t sel \<noteq> None then Inl (already_configured selection)
             else
               (case fixture_memory words (\<lambda>_. 0) of
                  Inl e \<Rightarrow> Inl e
                | Inr m \<Rightarrow> Inr (t\<lparr>dt_aps := (dt_aps t)(sel \<mapsto> memory_port idr m)\<rparr>))))"

text \<open>The common start of the MEM-AP fixtures: the memory port behind a selector.\<close>

definition memory_port_at :: "ap_sel \<Rightarrow> 'd dap_target \<Rightarrow> err + 'd access_port" where
  "memory_port_at sel t =
     (case selectorValue sel t of
        Inl e \<Rightarrow> Inl e
      | Inr selection \<Rightarrow>
          (case dt_aps t sel of
             None \<Rightarrow> Inl (sim_error ''dap/sim: AP %d is not a MEM-AP'' [uint selection])
           | Some ap \<Rightarrow>
               if \<not> ap_memAP ap then Inl (sim_error ''dap/sim: AP %d is not a MEM-AP'' [uint selection]) else Inr ap))"

definition put_port :: "ap_sel \<Rightarrow> 'd access_port \<Rightarrow> 'd dap_target \<Rightarrow> 'd dap_target" where
  "put_port sel ap t = t\<lparr>dt_aps := (dt_aps t)(sel \<mapsto> ap)\<rparr>"

definition configure_port :: "uint32 \<Rightarrow> 'd access_port \<Rightarrow> 'd access_port" where
  "configure_port cfg ap =
     (let regs = (ap_regs ap)(0xF4 := cfg);
          regs = (if cfg AND push_bit 1 1 = 0 then regs(8 := 0) else regs)
      in ap\<lparr>ap_regs := regs,
           ap_sizes := (if cfg AND push_bit 2 1 \<noteq> 0 then ap_sizes ap OR push_bit 3 1 else ap_sizes ap AND NOT (push_bit 3 1)),
           ap_largePhase := largeDataIdle\<rparr>)"

definition SetMEMAPCFG :: "ap_sel \<Rightarrow> uint32 \<Rightarrow> 'd dap_target \<Rightarrow> err + 'd dap_target" where
  "SetMEMAPCFG sel cfg t =
     (case memory_port_at sel t of Inl e \<Rightarrow> Inl e | Inr ap \<Rightarrow> Inr (put_port sel (configure_port cfg ap) t))"

definition sim_transferSizeEncoding :: "transfer_size \<Rightarrow> nat option" where
  "sim_transferSizeEncoding sz =
     (if sz = Size8 then Some 0 else if sz = Size16 then Some 1 else if sz = Size32 then Some 2
      else if sz = Size64 then Some 3 else None)"

primrec accepted_sizes :: "uint32 \<Rightarrow> byte \<Rightarrow> transfer_size list \<Rightarrow> err + byte" where
  "accepted_sizes cfg accepted [] = Inr accepted"
| "accepted_sizes cfg accepted (sz # szs) =
     (case sim_transferSizeEncoding sz of
        None \<Rightarrow> Inl (sim_error ''dap/sim: invalid MEM-AP transfer size %d'' [uint sz])
      | Some encoding \<Rightarrow>
          if sz = Size64 \<and> cfg AND push_bit 2 1 = 0 then Inl (sim_error ''dap/sim: Size64 requires CFG.LD'' [])
          else accepted_sizes cfg (accepted OR push_bit encoding 1) szs)"

definition SetMEMAPSizes :: "ap_sel \<Rightarrow> transfer_size list \<Rightarrow> 'd dap_target \<Rightarrow> err + 'd dap_target" where
  "SetMEMAPSizes sel szs t =
     (case memory_port_at sel t of
        Inl e \<Rightarrow> Inl e
      | Inr ap \<Rightarrow>
          (case accepted_sizes (ap_regs ap 0xF4) (push_bit 2 1) szs of
             Inl e \<Rightarrow> Inl e
           | Inr accepted \<Rightarrow> Inr (put_port sel (ap\<lparr>ap_sizes := accepted,
               ap_regs := (ap_regs ap)(0 := (ap_regs ap 0 AND NOT 7) OR 2), ap_largePhase := largeDataIdle\<rparr>) t)))"

definition SetMEMAPBytes :: "ap_sel \<Rightarrow> uint64 \<Rightarrow> byte list \<Rightarrow> 'd dap_target \<Rightarrow> err + 'd dap_target" where
  "SetMEMAPBytes sel addr bs t =
     (case memory_port_at sel t of
        Inl e \<Rightarrow> Inl e
      | Inr ap \<Rightarrow>
          (case memoryRangeEnd addr (int (length bs)) of
             Inl e \<Rightarrow> Inl e
           | Inr last_addr \<Rightarrow>
               if bs \<noteq> [] \<and> overlapsDevice addr last_addr ap
               then Inl (sim_error ''dap/sim: fixture write overlaps mapped device'' [])
               else Inr (put_port sel (ap\<lparr>ap_memory := store_bytes addr bs (ap_memory ap)\<rparr>) t)))"

definition MEMAPBytes :: "ap_sel \<Rightarrow> uint64 \<Rightarrow> int \<Rightarrow> 'd dap_target \<Rightarrow> err + byte list" where
  "MEMAPBytes sel addr sz t =
     (case memory_port_at sel t of
        Inl e \<Rightarrow> Inl e
      | Inr ap \<Rightarrow>
          (case memoryRangeEnd addr sz of
             Inl e \<Rightarrow> Inl e
           | Inr last_addr \<Rightarrow>
               if sz \<noteq> 0 \<and> overlapsDevice addr last_addr ap
               then Inl (sim_error ''dap/sim: fixture read overlaps mapped device'' [])
               else Inr (load_bytes addr (nat sz) (ap_memory ap))))"

definition SetMEMAPDebugBase :: "ap_sel \<Rightarrow> uint32 \<Rightarrow> uint32 \<Rightarrow> 'd dap_target \<Rightarrow> err + 'd dap_target" where
  "SetMEMAPDebugBase sel low high t =
     (case memory_port_at sel t of
        Inl e \<Rightarrow> Inl e
      | Inr ap \<Rightarrow> Inr (put_port sel (ap\<lparr>ap_regs := (ap_regs ap)(0xF8 := low, 0xF0 := high)\<rparr>) t))"

definition mapping_needs_memap :: err where
  "mapping_needs_memap = sim_error ''dap/sim: device mapping requires a MEM-AP'' []"

definition MapMEMAPDevice ::
  "ap_sel \<Rightarrow> uint64 \<Rightarrow> uint64 \<Rightarrow> 'd memory_device option \<Rightarrow> 'd dap_target \<Rightarrow> err + 'd dap_target" where
  "MapMEMAPDevice sel addr sz device t =
     (if dt_started t then Inl (sim_error ''dap/sim: device mapping after target traffic'' [])
      else
        (case selectorValue sel t of
           Inl e \<Rightarrow> Inl e
         | Inr _ \<Rightarrow>
             (case dt_aps t sel of
                None \<Rightarrow> Inl mapping_needs_memap
              | Some ap \<Rightarrow>
                  if \<not> ap_memAP ap then Inl mapping_needs_memap
                  else if sz = 0 \<or> addr + sz - 1 < addr
                  then Inl (sim_error ''dap/sim: empty or overflowing device mapping'' [])
                  else
                    (case device of
                       None \<Rightarrow> Inl (sim_error ''dap/sim: nil memory device'' [])
                     | Some d \<Rightarrow>
                         let last_addr = addr + sz - 1 in
                         if overlapsDevice addr last_addr ap
                         then Inl (sim_error ''dap/sim: overlapping device mapping'' [])
                         else Inr (put_port sel (ap\<lparr>ap_devices := ap_devices ap @
                           [\<lparr>dm_start = addr, dm_end = last_addr, dm_device = d\<rparr>]\<rparr>) t)))))"

section \<open>Shared memory\<close>

type_synonym ram = "uint64 \<Rightarrow> byte"

definition RAM_SetBytes :: "uint64 \<Rightarrow> byte list \<Rightarrow> ram \<Rightarrow> err + ram" where
  "RAM_SetBytes addr bs r =
     (case memoryRangeEnd addr (int (length bs)) of Inl e \<Rightarrow> Inl e | Inr _ \<Rightarrow> Inr (store_bytes addr bs r))"

definition RAM_Bytes :: "uint64 \<Rightarrow> int \<Rightarrow> ram \<Rightarrow> err + byte list" where
  "RAM_Bytes addr sz r =
     (case memoryRangeEnd addr sz of Inl e \<Rightarrow> Inl e | Inr _ \<Rightarrow> Inr (load_bytes addr (nat sz) r))"

definition checkRAMAccess :: "ram go_env \<Rightarrow> ctx \<Rightarrow> uint64 \<Rightarrow> nat \<Rightarrow> ram \<Rightarrow> go_error \<times> ram" where
  "checkRAMAccess E ctx addr width r =
     (case ctx_Err E ctx r of
        (Some x, r) \<Rightarrow> (Some (Sentinel x), r)
      | (None, r) \<Rightarrow>
          (if width \<noteq> 1 \<and> width \<noteq> 2 \<and> width \<noteq> 4 \<and> width \<noteq> 8 then Some ErrBusFault
           else
             (case memoryRangeEnd addr (int width) of
                Inl _ \<Rightarrow> Some ErrBusFault
              | Inr _ \<Rightarrow> if addr mod of_nat width \<noteq> 0 then Some ErrBusFault else None), r))"

definition RAM_Read :: "ram go_env \<Rightarrow> ctx \<Rightarrow> uint64 \<Rightarrow> nat \<Rightarrow> ram \<Rightarrow> (byte list \<times> go_error) \<times> ram" where
  "RAM_Read E ctx addr n r =
     (case checkRAMAccess E ctx addr n r of
        (Some e, r) \<Rightarrow> (([], Some e), r)
      | (None, r) \<Rightarrow>
          (case RAM_Bytes addr (int n) r of
             Inl e \<Rightarrow> (([], Some e), r)
           | Inr bs \<Rightarrow> ((bs, None), r)))"

definition RAM_Write :: "ram go_env \<Rightarrow> ctx \<Rightarrow> uint64 \<Rightarrow> byte list \<Rightarrow> ram \<Rightarrow> go_error \<times> ram" where
  "RAM_Write E ctx addr bs r =
     (case checkRAMAccess E ctx addr (length bs) r of
        (Some e, r) \<Rightarrow> (Some e, r)
      | (None, r) \<Rightarrow> (case RAM_SetBytes addr bs r of Inl e \<Rightarrow> (Some e, r) | Inr r' \<Rightarrow> (None, r')))"

definition ram_device :: "ram go_env \<Rightarrow> ram memory_device" where
  "ram_device E = \<lparr>md_Read = RAM_Read E, md_Write = RAM_Write E\<rparr>"

end
