(* ===== verification/Dap_Memory.thy ===== *)
theory Dap_Memory
  imports Dap_Fixture
begin

text \<open>
  Scalars in the memory behind a simulated MEM-AP. Values and bytes are related in both byte orders, words and their
  lanes by rotation; together they show that the lanes the MEM-AP client chooses are those the port uses.
\<close>


section \<open>Bytes\<close>

primrec le_value :: "byte list \<Rightarrow> uint64" where
  "le_value [] = 0"
| "le_value (b # bs) = ucast b OR push_bit 8 (le_value bs)"

primrec le_split :: "nat \<Rightarrow> uint64 \<Rightarrow> byte list" where
  "le_split 0 v = []"
| "le_split (Suc w) v = ucast v # le_split w (drop_bit 8 v)"

lemma foldl_le_value:
  "foldl (\<lambda>v (i, b). v OR push_bit (i * 8) (ucast b)) a (enumerate k bs) = a OR push_bit (k * 8) (le_value bs)"
proof (induction bs arbitrary: a k)
  case (Cons b bs)
  have "push_bit (Suc k * 8) (le_value bs) = push_bit (k * 8) (push_bit 8 (le_value bs))"
    by (simp add: add.commute)
  with Cons show ?case
    by (simp add: push_bit_or or.assoc del: mult_Suc)
qed simp

lemma foldl_be_value: "foldl (\<lambda>v b. push_bit 8 v OR ucast b) 0 bs = le_value (rev bs)"
  by (induction bs rule: rev_induct) (simp_all add: or.commute)

lemma join_bytes_le_value: "join_bytes big bs = le_value (if big then rev bs else bs)"
  by (simp add: join_bytes_def foldl_be_value foldl_le_value [where k = 0, simplified])

lemma nth_le_split: "i < w \<Longrightarrow> le_split w v ! i = ucast (drop_bit (i * 8) v)"
  by (induction w arbitrary: v i) (auto simp: nth_Cons add.commute split: nat.splits)

lemma length_le_split [simp]: "length (le_split w v) = w"
  by (induction w arbitrary: v) simp_all

lemma split_bytes_le_split: "split_bytes big w v = (if big then rev (le_split w v) else le_split w v)"
  by (rule nth_equalityI) (auto simp: split_bytes_def nth_le_split rev_nth)

lemma length_split_bytes [simp]: "length (split_bytes big w v) = w"
  by (simp add: split_bytes_def)

lemma le_value_split: "le_value (le_split w v) = take_bit (8 * w) v"
proof (induction w arbitrary: v)
  case (Suc w)
  have "ucast (ucast v :: byte) OR push_bit 8 (take_bit (8 * w) (drop_bit 8 v)) = take_bit (8 * Suc w) v"
    by (rule bit_word_eqI) (auto simp: bit_simps)
  with Suc show ?case by simp
qed simp

lemma join_split_bytes: "join_bytes big (split_bytes big w v) = take_bit (8 * w) v"
  by (simp add: join_bytes_le_value split_bytes_le_split le_value_split)

lemma fold_store:
  "k + length bs \<le> 2 ^ 64 \<Longrightarrow>
   fold (\<lambda>(i, b) m. m(addr + of_nat i := b)) (enumerate k bs) m (a :: uint64) =
     (if k \<le> unat (a - addr) \<and> unat (a - addr) < k + length bs then bs ! (unat (a - addr) - k) else m a)"
proof (induction bs arbitrary: k m)
  case (Cons b bs)
  have "a = addr + of_nat k \<longleftrightarrow> unat (a - addr) = k"
    using Cons.prems by (auto simp: unat_of_nat)
  with Cons show ?case
    by (auto simp: nth_Cons')
qed auto

lemma store_bytes_at:
  "length bs \<le> 2 ^ 64 \<Longrightarrow>
   store_bytes addr bs m a = (if unat (a - addr) < length bs then bs ! unat (a - addr) else m a)"
  by (simp add: store_bytes_def fold_store)

lemma load_store_bytes:
  "length bs \<le> 2 ^ 64 \<Longrightarrow> load_bytes addr (length bs) (store_bytes addr bs m) = bs"
  by (rule nth_equalityI) (auto simp: load_bytes_def store_bytes_at unat_of_nat)

section \<open>Lanes\<close>

lemma word_rotl_push:
  assumes "take_bit n x = (x :: uint32)" "sh + n \<le> 32" "sh < 32"
  shows "word_rotl sh x = push_bit sh x"
proof (rule bit_word_eqI)
  fix i assume i: "i < LENGTH(32)"
  have high: "\<not> bit x j" if "n \<le> j" for j
    using assms(1) that by (metis bit_take_bit_iff not_le)
  show "bit (word_rotl sh x) i = bit (push_bit sh x) i"
  proof (cases "sh \<le> i")
    case True
    then have "(i + (32 - sh)) mod 32 = i - sh"
      using i assms(3) by (simp add: mod_if)
    then show ?thesis
      using i True assms(3) by (simp add: bit_word_rotl_iff bit_push_bit_iff)
  next
    case False
    then have "(i + (32 - sh)) mod 32 = i + (32 - sh)"
      using i by simp
    moreover have "n \<le> i + (32 - sh)"
      using assms(2,3) by simp
    ultimately show ?thesis
      using i False assms(3) high by (simp add: bit_word_rotl_iff bit_push_bit_iff)
  qed
qed

lemma lane_mask_push:
  assumes "sh + 8 * w \<le> 32" "sh < 32"
  shows "lane_mask w sh = push_bit sh (mask (8 * w))"
proof -
  have "(push_bit (w * 8) 1 - 1 :: uint64) = mask (8 * w)"
    by (simp add: mask_eq_exp_minus_1 push_bit_eq_mult mult.commute)
  moreover have "ucast (mask (8 * w) :: uint64) = (mask (8 * w) :: uint32)"
    using assms(1) by (intro bit_word_eqI) (auto simp: bit_simps)
  ultimately show ?thesis
    unfolding lane_mask_def using assms
    by (simp add: word_rotl_push [where n = "8 * w"])
qed

text \<open>The value a reader takes out of a lane is the value that was rotated into it.\<close>

lemma lane_extract:
  assumes "take_bit (8 * w) x = (x :: uint32)" "sh + 8 * w \<le> 32" "sh < 32"
  shows "take_bit (8 * w) (drop_bit sh (word_rotl sh x OR (y AND NOT (lane_mask w sh)))) = x"
proof (rule bit_word_eqI)
  fix i assume "i < LENGTH(32)"
  moreover have "bit x i \<Longrightarrow> i < 8 * w"
    using assms(1) by (metis bit_take_bit_iff)
  ultimately show "bit (take_bit (8 * w) (drop_bit sh (word_rotl sh x OR (y AND NOT (lane_mask w sh))))) i = bit x i"
    using assms(2,3) by (auto simp: word_rotl_push [OF assms] lane_mask_push bit_simps)
qed

lemma word_rotr_rotl: "sh < 32 \<Longrightarrow> word_rotr sh (word_rotl sh (x :: uint32)) = x"
  by (simp add: word_rot_rl)

section \<open>Data transfers of a memory port\<close>

text \<open>A memory port set up for one scalar of \<open>2 ^ k\<close> bytes in ordinary memory.\<close>

definition scalar_setup :: "'d access_port \<Rightarrow> uint64 \<Rightarrow> nat \<Rightarrow> bool" where
  "scalar_setup ap addr k \<longleftrightarrow> ap_memAP ap \<and> ap_largePhase ap = largeDataIdle \<and> unat (ap_regs ap 0 AND 7) = k \<and>
     ap_regs ap 0 AND 0x30 = 0 \<and> targetAddress ap = addr \<and> deviceForAccess addr (2 ^ k) ap = Inr None"

lemma port_views_memory [simp]:
  "targetAddress (ap\<lparr>ap_memory := m\<rparr>) = targetAddress ap" "port_bigEndian (ap\<lparr>ap_memory := m\<rparr>) = port_bigEndian ap"
  "deviceForAccess addr w (ap\<lparr>ap_memory := m\<rparr>) = deviceForAccess addr w ap"
  "port_laneShift w (ap\<lparr>ap_memory := m\<rparr>) = port_laneShift w ap"
  "supportsDRWAddressing (ap\<lparr>ap_memory := m\<rparr>) = supportsDRWAddressing ap"
  by (simp_all add: targetAddress_def Let_def port_bigEndian_def deviceForAccess_def port_laneShift_def
      supportsDRWAddressing_def split: sum.split)

lemma scalar_setup_memory [simp]: "scalar_setup (ap\<lparr>ap_memory := m\<rparr>) addr k = scalar_setup ap addr k"
  by (simp add: scalar_setup_def)

lemma run_readMemory:
  "deviceForAccess addr w ap = Inr None \<Longrightarrow>
   run_state (readMemory ctx addr w) (ap, d) = (Inr (load_bytes addr w (ap_memory ap)), (ap, d))"
  by (simp add: readMemory_def)

lemma run_writeMemory:
  "deviceForAccess addr (length bs) ap = Inr None \<Longrightarrow>
   run_state (writeMemory ctx addr bs) (ap, d) = (Inr (), (ap\<lparr>ap_memory := store_bytes addr bs (ap_memory ap)\<rparr>, d))"
  by (simp add: writeMemory_def)

lemma scalar_addressing:
  assumes "scalar_setup ap addr k" "k < 3"
  shows "supportsDRWAddressing ap" "incrementTAR w ap = ap"
proof -
  have "ap_regs ap 0 AND 7 \<le> 3"
    using assms by (simp add: scalar_setup_def word_le_nat_alt)
  then show "supportsDRWAddressing ap" "incrementTAR w ap = ap"
    using assms(1) by (simp_all add: supportsDRWAddressing_def incrementTAR_def scalar_setup_def Let_def)
qed

lemma run_readDRW:
  assumes "scalar_setup ap addr k" "k < 3"
  shows "run_state (readRegister ctx 0x0C) (ap, d) =
    (Inr (drw_result (2 ^ k) (join_bytes (port_bigEndian ap) (load_bytes addr (2 ^ k) (ap_memory ap))) ap), (ap, d))"
  using assms scalar_addressing [OF assms]
  by (simp add: readRegister_def validateRegisterAccess_def readDRW_def scalar_setup_def memoryValue_def run_attempt
      run_readMemory)

lemma run_writeDRW:
  assumes "scalar_setup ap addr k" "k < 3"
  shows "run_state (writeRegister ctx 0x0C v) (ap, d) =
    (Inr (), (ap\<lparr>ap_memory := store_bytes addr (split_bytes (port_bigEndian ap) (2 ^ k)
       (ucast (word_rotr (port_laneShift (2 ^ k) ap) v))) (ap_memory ap)\<rparr>, d))"
proof -
  have "incrementTAR w (ap\<lparr>ap_memory := m\<rparr>) = ap\<lparr>ap_memory := m\<rparr>" for w m
    using assms by (intro scalar_addressing(2)) simp_all
  then show ?thesis
    using assms scalar_addressing(1) [OF assms]
    by (simp add: writeRegister_def readOnlyRegister_def validateRegisterAccess_def writeDRW_def scalar_setup_def
        writeMemoryValue_def run_attempt run_writeMemory)
qed


section \<open>Scalars\<close>

lemma low_lane:
  "uint (addr AND 3) = uint (addr :: uint64) mod 4" "(addr AND 1 = 0) = (uint addr mod 2 = 0)"
proof -
  have "addr AND 3 = take_bit 2 addr" "addr AND 1 = take_bit 1 addr"
    by (simp_all add: take_bit_eq_mask mask_eq_exp_minus_1)
  then show "uint (addr AND 3) = uint addr mod 4" "(addr AND 1 = 0) = (uint addr mod 2 = 0)"
    by (simp_all add: word_uint_eq_iff take_bit_eq_mod uint_mod_distrib)
qed

lemma lanes_agree:
  assumes "sizeBytes sz = Inr (2 ^ k)" "k < 3" "addr AND of_nat (2 ^ k - 1) = 0" "targetAddress ap = addr"
  shows "memap_laneShift (port_bigEndian ap) addr sz = int (port_laneShift (2 ^ k) ap)"
    "port_laneShift (2 ^ k) ap + 8 * 2 ^ k \<le> 32" "port_laneShift (2 ^ k) ap < 32"
proof -
  define l where "l = uint (addr AND 3)"
  have l: "0 \<le> l" "l \<le> 3" "l = uint addr mod 4"
    by (simp_all add: l_def low_lane)
  consider "k = 0" | "k = 1" "l mod 2 = 0" | "k = 2" "l = 0"
  proof -
    have "k = 0 \<or> k = 1 \<or> k = 2" using assms(2) by auto
    moreover have "l mod 2 = 0" if "k = 1"
      using assms(3) that l(3) by (simp add: low_lane mod_mod_cancel)
    moreover have "l = 0" if "k = 2"
      using assms(3) that by (simp add: l_def)
    ultimately show ?thesis using that by metis
  qed
  then have "memap_laneShift (port_bigEndian ap) addr sz = int (port_laneShift (2 ^ k) ap) \<and>
    port_laneShift (2 ^ k) ap + 8 * 2 ^ k \<le> 32 \<and> port_laneShift (2 ^ k) ap < 32"
    using l(1,2) assms(1,4)
    by cases (auto simp: memap_laneShift_def port_laneShift_def Let_def l_def [symmetric], (presburger | linarith)+)
  then show "memap_laneShift (port_bigEndian ap) addr sz = int (port_laneShift (2 ^ k) ap)"
    "port_laneShift (2 ^ k) ap + 8 * 2 ^ k \<le> 32" "port_laneShift (2 ^ k) ap < 32"
    by auto
qed

primrec write_words :: "ctx \<Rightarrow> uint32 list \<Rightarrow> ('d, unit) port_prog" where
  "write_words ctx [] = ret (Inr ())"
| "write_words ctx (w # ws) = attempt (writeRegister ctx 0x0C w) (\<lambda>_. write_words ctx ws)"

primrec read_words :: "ctx \<Rightarrow> nat \<Rightarrow> ('d, uint32 list) port_prog" where
  "read_words ctx 0 = ret (Inr [])"
| "read_words ctx (Suc n) =
     attempt (readRegister ctx 0x0C) (\<lambda>w. attempt (read_words ctx n) (\<lambda>ws. ret (Inr (w # ws))))"

lemma sizeMask_mask:
  assumes "sizeBytes sz = Inr w"
  shows "sizeMask sz = mask (8 * w)"
  using assms by (auto simp: sizeBytes_def sizeMask_def mask_eq_exp_minus_1 transfer_size_defs split: if_splits)

lemma fits_mask:
  assumes "v AND NOT (mask n) = 0"
  shows "take_bit n v = (v :: uint64)"
proof -
  have "v = (v AND mask n) OR (v AND NOT (mask n))"
    by (rule bit_word_eqI) (auto simp: bit_simps)
  then show ?thesis
    using assms by (simp add: take_bit_eq_mask)
qed

lemma take_bit_ucast: "n \<le> 32 \<Longrightarrow> take_bit n (ucast (y :: uint32) :: uint64) = ucast (take_bit n y)"
  by (rule bit_word_eqI) (auto simp: bit_simps)

lemma sizeBytes_cases:
  assumes "sizeBytes sz = Inr w"
  obtains k where "w = 2 ^ k" "k < 3" "sz \<noteq> Size64" | "w = 8" "sz = Size64"
proof (cases "sz = Size64")
  case False
  then have "w = 2 ^ 0 \<or> w = 2 ^ 1 \<or> w = 2 ^ 2"
    using assms by (auto simp: sizeBytes_def split: if_splits)
  then show ?thesis
    using that(1) [of 0] that(1) [of 1] that(1) [of 2] False by auto
qed (use assms that(2) in \<open>auto simp: sizeBytes_def transfer_size_defs\<close>)

lemma sub_word_round_trip:
  assumes s: "scalar_setup ap addr k" "k < 3" and sz: "sizeBytes sz = Inr (2 ^ k)" "sz \<noteq> Size64"
    and al: "addr AND of_nat (2 ^ k - 1) = 0" and v: "take_bit (8 * 2 ^ k) v = v"
  defines "ap' \<equiv> ap\<lparr>ap_memory := store_bytes addr (split_bytes (port_bigEndian ap) (2 ^ k) v) (ap_memory ap)\<rparr>"
  shows "run_state (write_words ctx (scalar_words (port_bigEndian ap) addr sz v)) (ap, d) = (Inr (), (ap', d))"
    "\<exists>ws. run_state (read_words ctx 1) (ap', d) = (Inr ws, (ap', d)) \<and> scalar_value (port_bigEndian ap) addr sz ws = v"
proof -
  have addr: "targetAddress ap = addr" using s(1) by (simp add: scalar_setup_def)
  note lane = lanes_agree [OF sz(1) s(2) al addr]
  define sh where "sh = port_laneShift (2 ^ k) ap"
  define x :: uint32 where "x = ucast v"
  have "8 * 2 ^ k \<le> (32 :: nat)"
    using lane(2) by simp
  moreover have "n < 8 * 2 ^ k" if "bit v n" for n
    using v that by (metis bit_take_bit_iff)
  ultimately have x: "take_bit (8 * 2 ^ k) x = x" "ucast x = v"
    unfolding x_def by (intro bit_word_eqI; fastforce simp: bit_simps)+
  have "word_rotr sh (push_bit sh x) = x"
    using word_rotl_push [OF x(1)] lane(2,3) word_rotr_rotl by (metis sh_def)
  then show "run_state (write_words ctx (scalar_words (port_bigEndian ap) addr sz v)) (ap, d) = (Inr (), (ap', d))"
    by (simp add: scalar_words_def sz(2) run_attempt run_writeDRW [OF s] lane(1) sh_def [symmetric] x_def [symmetric]
        x(2) ap'_def)
  have s': "scalar_setup ap' addr k" using s(1) by (simp add: ap'_def)
  have "(2 :: nat) ^ k \<le> 2 ^ 64"
    using s(2) by (intro power_increasing) auto
  then have "join_bytes (port_bigEndian ap) (load_bytes addr (2 ^ k) (ap_memory ap')) = v"
    using load_store_bytes [of "split_bytes (port_bigEndian ap) (2 ^ k) v" addr "ap_memory ap"]
    by (simp add: ap'_def join_split_bytes v)
  moreover have "port_laneShift (2 ^ k) ap' = sh" "port_bigEndian ap' = port_bigEndian ap"
    by (simp_all add: ap'_def sh_def)
  moreover have "take_bit (8 * 2 ^ k) (drop_bit sh (drw_result (2 ^ k) v ap')) = x"
    using lane_extract [OF x(1) lane(2,3), of "0xA5A5A5A5"] lane_extract [OF x(1) lane(2,3), of 0] \<open>port_laneShift (2 ^ k) ap' = sh\<close>
    by (auto simp: drw_result_def Let_def x_def sh_def)
  then have "ucast (drop_bit sh (drw_result (2 ^ k) v ap')) AND sizeMask sz = v"
    using x(2) \<open>8 * 2 ^ k \<le> (32 :: nat)\<close>
    unfolding sizeMask_mask [OF sz(1)] take_bit_eq_mask [symmetric] by (simp add: take_bit_ucast)
  ultimately show "\<exists>ws. run_state (read_words ctx 1) (ap', d) = (Inr ws, (ap', d)) \<and> scalar_value (port_bigEndian ap) addr sz ws = v"
    by (simp add: run_attempt run_readDRW [OF s' s(2)] scalar_value_def sz(2) lane(1) sh_def [symmetric])
qed

text \<open>Double words go through DRW in two halves.\<close>

definition large_ready :: "'d access_port \<Rightarrow> uint64 \<Rightarrow> bool" where
  "large_ready ap addr \<longleftrightarrow> scalar_setup ap addr 3 \<and> ap_regs ap 0xF4 AND 4 \<noteq> 0"

lemma large_addressing:
  assumes "large_ready ap addr"
  shows "supportsDRWAddressing ap" "unat (ap_regs ap 0 AND 7) = 3" "ap_memAP ap" "ap_regs ap 0xF4 AND 4 \<noteq> 0"
    "targetAddress ap = addr" "deviceForAccess addr 8 ap = Inr None" "ap_largePhase ap = largeDataIdle"
proof -
  have "unat (ap_regs ap 0 AND 7) = 3" "ap_regs ap 0 AND 0x30 = 0"
    using assms by (simp_all add: large_ready_def scalar_setup_def)
  then show "supportsDRWAddressing ap" "unat (ap_regs ap 0 AND 7) = 3"
    by (simp_all add: supportsDRWAddressing_def Let_def word_le_nat_alt)
qed (use assms in \<open>simp_all add: large_ready_def scalar_setup_def\<close>)

lemma port_views_phase [simp]:
  "targetAddress (ap\<lparr>ap_largeWord := x, ap_largePhase := ph\<rparr>) = targetAddress ap"
  "port_bigEndian (ap\<lparr>ap_largeWord := x, ap_largePhase := ph\<rparr>) = port_bigEndian ap"
  "deviceForAccess addr w (ap\<lparr>ap_largeWord := x, ap_largePhase := ph\<rparr>) = deviceForAccess addr w ap"
  "supportsDRWAddressing (ap\<lparr>ap_largeWord := x, ap_largePhase := ph\<rparr>) = supportsDRWAddressing ap"
  by (simp_all add: targetAddress_def Let_def port_bigEndian_def deviceForAccess_def supportsDRWAddressing_def split: sum.split)

lemma halves: "ucast (ucast v :: uint32) OR push_bit 32 (ucast (ucast (drop_bit 32 v) :: uint32)) = (v :: uint64)"
  by (rule bit_word_eqI) (auto simp: bit_simps)

lemma read_two:
  "read_words ctx 2 = attempt (readRegister ctx 0x0C) (\<lambda>w. attempt (read_words ctx 1) (\<lambda>ws. ret (Inr (w # ws))))"
  by (simp add: numeral_2_eq_2)

lemma double_word_round_trip:
  fixes v :: uint64
  assumes r: "large_ready ap addr"
  defines "ap1 \<equiv> ap\<lparr>ap_largeWord := ucast v, ap_largePhase := largeDataIdle\<rparr>"
  defines "ap' \<equiv> ap1\<lparr>ap_memory := store_bytes addr (split_bytes (port_bigEndian ap) 8 v) (ap_memory ap)\<rparr>"
  shows "run_state (write_words ctx (scalar_words (port_bigEndian ap) addr Size64 v)) (ap, d) = (Inr (), (ap', d))"
    "\<exists>ws ap''. run_state (read_words ctx 2) (ap', d) = (Inr ws, (ap'', d)) \<and> ap_memory ap'' = ap_memory ap' \<and>
       scalar_value (port_bigEndian ap) addr Size64 ws = v"
proof -
  note f = large_addressing [OF r]
  show "run_state (write_words ctx (scalar_words (port_bigEndian ap) addr Size64 v)) (ap, d) = (Inr (), (ap', d))"
    using f by (simp add: scalar_words_def run_attempt writeRegister_def readOnlyRegister_def validateRegisterAccess_def
        writeDRW_def writeLargeDRW_def writeMemoryValue_def run_writeMemory halves ap'_def ap1_def)
  have mem: "join_bytes (port_bigEndian ap) (load_bytes addr 8 (ap_memory ap')) = v"
    using load_store_bytes [of "split_bytes (port_bigEndian ap) 8 v" addr "ap_memory ap"]
    by (simp add: ap'_def join_split_bytes take_bit_word_eq_self)
  have f': "ap_memAP ap'" "ap_largePhase ap' = largeDataIdle" "supportsDRWAddressing ap'" "unat (ap_regs ap' 0 AND 7) = 3"
    "ap_regs ap' 0xF4 AND 4 \<noteq> 0" "targetAddress ap' = addr" "deviceForAccess addr 8 ap' = Inr None"
    "port_bigEndian ap' = port_bigEndian ap"
    using f by (simp_all add: ap'_def ap1_def)
  show "\<exists>ws ap''. run_state (read_words ctx 2) (ap', d) = (Inr ws, (ap'', d)) \<and> ap_memory ap'' = ap_memory ap' \<and>
       scalar_value (port_bigEndian ap) addr Size64 ws = v"
    using f' mem halves [of v] by (simp add: read_two run_attempt readRegister_def validateRegisterAccess_def readDRW_def
        readLargeDRW_def memoryValue_def run_readMemory scalar_value_def)
qed

text \<open>A port whose address and size registers were set up for a scalar.\<close>

definition port_accepts :: "'d access_port \<Rightarrow> uint64 \<Rightarrow> transfer_size \<Rightarrow> bool" where
  "port_accepts ap addr sz \<longleftrightarrow> (\<exists>k. sizeBytes sz = Inr (2 ^ k) \<and> scalar_setup ap addr k) \<and>
     (sz = Size64 \<longrightarrow> ap_regs ap 0xF4 AND 4 \<noteq> 0)"

text \<open>
  C37: The byte lanes of the MEM-AP client and of the simulated port agree. For every scalar access that
  \<open>validateScalarAccess\<close> allows (8 to 64 bits, either byte order, any lane), writing the words of \<open>WriteScalar\<close> to
  DRW stores exactly the value's bytes at the address, in the port's byte order, and nothing elsewhere; reading DRW
  back and assembling the words as \<open>ReadScalar\<close> does gives the value.
\<close>
theorem scalar_memory_round_trip:
  assumes "port_accepts ap addr sz" "sizeBytes sz = Inr w" "validateScalarAccess addr sz large = None"
    "v AND NOT (sizeMask sz) = 0"
  shows "\<exists>ap'. run_state (write_words ctx (scalar_words (port_bigEndian ap) addr sz v)) (ap, d) = (Inr (), (ap', d)) \<and>
    load_bytes addr w (ap_memory ap') = split_bytes (port_bigEndian ap) w v \<and>
    (\<forall>a. w \<le> unat (a - addr) \<longrightarrow> ap_memory ap' a = ap_memory ap a) \<and>
    (\<exists>ws ap''. run_state (read_words ctx (if sz = Size64 then 2 else 1)) (ap', d) = (Inr ws, (ap'', d)) \<and>
       ap_memory ap'' = ap_memory ap' \<and> scalar_value (port_bigEndian ap) addr sz ws = v)"
proof -
  obtain k where k: "w = 2 ^ k" "scalar_setup ap addr k"
    using assms(1,2) by (auto simp: port_accepts_def)
  have al: "addr AND of_nat (w - 1) = 0"
    using assms(2,3) by (auto simp: validateScalarAccess_def split: if_splits)
  have v: "take_bit (8 * w) v = v"
    using assms(4) by (intro fits_mask) (simp add: sizeMask_mask [OF assms(2)])
  have w: "w \<le> 8"
    using assms(2) by (auto simp: sizeBytes_def split: if_splits)
  let ?m = "store_bytes addr (split_bytes (port_bigEndian ap) w v) (ap_memory ap)"
  have mem: "load_bytes addr w ?m = split_bytes (port_bigEndian ap) w v" "\<forall>a. w \<le> unat (a - addr) \<longrightarrow> ?m a = ap_memory ap a"
    using w load_store_bytes [of "split_bytes (port_bigEndian ap) w v" addr "ap_memory ap"]
    by (auto simp: store_bytes_at)
  from assms(2) show ?thesis
  proof (cases rule: sizeBytes_cases)
    case (1 k')
    then have "k < 3" using k(1) by simp
    then show ?thesis
      using sub_word_round_trip [OF k(2) _ _ 1(3), of v ctx d] assms(2) al v mem k(1) 1(3) by fastforce
  next
    case 2
    then have "k = 3"
      using k(1) power_inject_exp [of "2 :: nat" k 3] by simp
    then have "large_ready ap addr"
      using k(2) 2(2) assms(1) by (simp add: large_ready_def port_accepts_def)
    from double_word_round_trip [OF this, of ctx v d] show ?thesis
      using 2 mem by fastforce
  qed
qed

text \<open>A big-endian port, set up for the halfword at address 2.\<close>

definition demo_port :: "unit access_port" where
  "demo_port = (memory_port 0x10000 (\<lambda>_. 0))\<lparr>ap_regs := (\<lambda>_. 0)(0 := 1, 4 := 2, 0xF4 := 1)\<rparr>"

theorem scalar_memory_round_trip_witness:
  "\<exists>ap'. run_state (write_words Background (scalar_words (port_bigEndian demo_port) 2 Size16 0xBEEF)) (demo_port, ()) =
       (Inr (), (ap', ())) \<and> load_bytes 2 2 (ap_memory ap') = [0xBE, 0xEF]"
proof -
  have big: "port_bigEndian demo_port"
    by (simp add: demo_port_def port_bigEndian_def)
  have "sizeBytes Size16 = Inr (2 ^ 1)" "scalar_setup demo_port 2 1"
    by (simp_all add: sizeBytes_def transfer_size_defs scalar_setup_def demo_port_def memory_port_def targetAddress_def
        deviceForAccess_def memoryRangeEnd_def)
  then have accepts: "port_accepts demo_port 2 Size16"
    unfolding port_accepts_def by (intro conjI exI [of _ 1]) (simp_all add: transfer_size_defs)
  have "sizeBytes Size16 = Inr 2" "validateScalarAccess 2 Size16 False = None" "0xBEEF AND NOT (sizeMask Size16) = 0"
    by (simp_all add: validateScalarAccess_def sizeBytes_def transfer_size_defs sizeMask_def)
  from scalar_memory_round_trip [OF accepts this, of Background "()"] obtain ap' where
    "run_state (write_words Background (scalar_words (port_bigEndian demo_port) 2 Size16 0xBEEF)) (demo_port, ()) = (Inr (), (ap', ()))"
    "load_bytes 2 2 (ap_memory ap') = split_bytes (port_bigEndian demo_port) 2 0xBEEF"
    by (elim exE conjE)
  then show ?thesis
    by (simp add: big split_bytes_def upt_rec)
qed

end
