(* ===== verification/Dap_Reachable.thy ===== *)
theory Dap_Reachable
  imports Dap_Fixture
begin

text \<open>
  Well-formedness of the simulated debug port: an invariant of access ports that every register access keeps, an
  invariant of targets that traffic and every fixture keep, and the targets reachable from a new one.
\<close>

section \<open>Invariant of an access port\<close>

definition disjoint_mappings :: "'d device_mapping list \<Rightarrow> bool" where
  "disjoint_mappings ms \<longleftrightarrow> list_all (\<lambda>m. dm_start m \<le> dm_end m) ms \<and>
     sorted_wrt (\<lambda>m n. dm_end m < dm_start n \<or> dm_end n < dm_start m) ms"

text \<open>
  A memory port has a class-8 identification, transfers words, holds a size its data register can use, and is inside
  a 64-bit transfer only at that size with CFG.LD; another port maps no device.
\<close>

definition memory_port_ok :: "'d access_port \<Rightarrow> bool" where
  "memory_port_ok ap \<longleftrightarrow> ai_Class (DecodeAPIDR (ap_regs ap 0xFC)) = 8 \<and>
     bit (ap_sizes ap) 2 \<and> (\<forall>n \<ge> 4. \<not> bit (ap_sizes ap) n) \<and> ap_regs ap 0 AND 7 \<le> 3 \<and>
     (ap_largePhase ap \<noteq> largeDataIdle \<longrightarrow> ap_regs ap 0 AND 7 = 3 \<and> ap_regs ap 0xF4 AND 4 \<noteq> 0)"

definition port_ok :: "'d access_port \<Rightarrow> bool" where
  "port_ok ap \<longleftrightarrow> ap_regs ap 0xFC \<noteq> 0 \<and> disjoint_mappings (ap_devices ap) \<and>
     (ap_memAP ap \<longrightarrow> memory_port_ok ap) \<and>
     (\<not> ap_memAP ap \<longrightarrow> ap_devices ap = [] \<and> ap_largePhase ap = largeDataIdle)"

text \<open>What traffic leaves alone: the mapped devices, the accepted sizes and the read-only registers.\<close>

definition same_fixture :: "'d access_port \<Rightarrow> 'd access_port \<Rightarrow> bool" where
  "same_fixture ap ap' \<longleftrightarrow> ap_devices ap = ap_devices ap' \<and> ap_sizes ap = ap_sizes ap' \<and> ap_memAP ap = ap_memAP ap' \<and>
     (\<forall>reg. readOnlyRegister reg ap \<longrightarrow> ap_regs ap' reg = ap_regs ap reg)"

definition port_inv :: "'d access_port \<Rightarrow> 'd access_port \<Rightarrow> bool" where
  "port_inv ap0 ap \<longleftrightarrow> port_ok ap \<and> same_fixture ap0 ap"

lemma same_fixture_refl [simp]: "same_fixture ap ap"
  by (simp add: same_fixture_def)

lemma readOnlyRegister_memAP: "ap_memAP ap = ap_memAP ap' \<Longrightarrow> readOnlyRegister reg ap = readOnlyRegister reg ap'"
  by (simp add: readOnlyRegister_def)

lemma same_fixture_trans: "same_fixture a b \<Longrightarrow> same_fixture b c \<Longrightarrow> same_fixture a c"
  by (simp add: same_fixture_def readOnlyRegister_def)

text \<open>The parts of a port an operation may change freely.\<close>

lemma port_invI: "port_inv ap0 ap \<Longrightarrow> same_fixture ap ap' \<Longrightarrow> (port_ok ap \<Longrightarrow> port_ok ap') \<Longrightarrow> port_inv ap0 ap'"
  by (auto simp: port_inv_def intro: same_fixture_trans)

lemma port_inv_memory: "port_inv ap0 ap \<Longrightarrow> port_inv ap0 (ap\<lparr>ap_memory := m\<rparr>)"
  by (erule port_invI) (simp_all add: same_fixture_def port_ok_def memory_port_ok_def)

lemma port_inv_idle: "port_inv ap0 ap \<Longrightarrow> port_inv ap0 (ap\<lparr>ap_largePhase := largeDataIdle\<rparr>)"
  by (erule port_invI) (auto simp: same_fixture_def port_ok_def memory_port_ok_def)

lemma port_inv_large:
  "port_inv ap0 ap \<Longrightarrow> ap_memAP ap \<Longrightarrow> ap_regs ap 0 AND 7 = 3 \<Longrightarrow> ap_regs ap 0xF4 AND 4 \<noteq> 0 \<Longrightarrow>
   port_inv ap0 (ap\<lparr>ap_largeWord := w, ap_largePhase := p\<rparr>)"
  by (erule port_invI) (auto simp: same_fixture_def port_ok_def memory_port_ok_def)

lemma port_inv_regs:
  assumes "port_inv ap0 ap" "\<not> readOnlyRegister reg ap" "ap_memAP ap \<Longrightarrow> reg \<noteq> 0"
  shows "port_inv ap0 (ap\<lparr>ap_regs := (ap_regs ap)(reg := v)\<rparr>)"
  using assms(1)
proof (rule port_invI)
  show "same_fixture ap (ap\<lparr>ap_regs := (ap_regs ap)(reg := v)\<rparr>)"
    using assms(2) by (auto simp: same_fixture_def)
  show "port_ok (ap\<lparr>ap_regs := (ap_regs ap)(reg := v)\<rparr>)" if "port_ok ap"
    using assms(2,3) that by (cases "ap_memAP ap") (auto simp: port_ok_def memory_port_ok_def readOnlyRegister_def)
qed

lemma port_inv_incrementTAR: "port_inv ap0 ap \<Longrightarrow> port_inv ap0 (incrementTAR n ap)"
  by (simp add: incrementTAR_def Let_def port_inv_regs readOnlyRegister_def)

lemma size_le_3:
  fixes v :: uint32 and s :: byte
  assumes "\<forall>n \<ge> 4. \<not> bit s n" "s AND push_bit (unat (v AND 7)) 1 \<noteq> 0"
  shows "v AND 7 \<le> 3"
proof (rule ccontr)
  assume "\<not> v AND 7 \<le> 3"
  then have "4 \<le> unat (v AND 7)"
    by (simp add: word_le_nat_alt not_le)
  moreover have "bit s (unat (v AND 7))"
    using assms(2) by (simp add: and_exp_eq_0_iff_not_bit)
  ultimately show False using assms(1) by blast
qed

lemma port_inv_store:
  assumes "port_inv ap0 ap" "\<not> readOnlyRegister reg ap" "ap_memAP ap"
  shows "port_inv ap0 (store_register reg v ap)"
proof (cases "reg = 0")
  case False
  then show ?thesis using assms by (simp add: store_register_def port_inv_regs)
next
  case True
  have "\<forall>n \<ge> 4. \<not> bit (ap_sizes ap) n"
    using assms by (simp add: port_inv_def port_ok_def memory_port_ok_def)
  then have "v AND 7 \<le> 3" if "ap_sizes ap AND push_bit (unat (v AND 7)) 1 \<noteq> 0"
    using that by (rule size_le_3)
  moreover have "((v AND NOT 7) OR (ap_regs ap 0 AND 7)) AND 7 = ap_regs ap 0 AND 7"
    by (rule bit_word_eqI) (auto simp: bit_simps)
  ultimately have "port_ok (store_register reg v ap)" if "port_ok ap"
    using that assms(3) True by (auto simp: store_register_def Let_def port_ok_def memory_port_ok_def)
  moreover have "same_fixture ap (store_register reg v ap)"
    using True by (auto simp: store_register_def Let_def same_fixture_def readOnlyRegister_def)
  ultimately show ?thesis
    using assms(1) by (blast intro: port_invI)
qed

section \<open>Register accesses keep it\<close>

lemma only_world_readMemory: "only_world (readMemory ctx addr w)"
  unfolding readMemory_def by (intro only_worldI keeps_intros)

lemma only_world_memoryValue: "only_world (memoryValue ctx addr w)"
  unfolding memoryValue_def
  by (intro only_worldI keeps_intros only_world_keeps [OF only_world_readMemory])

lemma keeps_writeMemoryValue: "keeps (\<lambda>s. port_inv ap0 (fst s)) (writeMemoryValue ctx addr w v)"
  unfolding writeMemoryValue_def writeMemory_def
  by (intro keeps_intros keeps_update) (simp add: port_inv_memory)

lemma wp_memoryValue: "(\<And>a d'. Q a (ap, d')) \<Longrightarrow> wp (memoryValue ctx addr w) Q (ap, d)"
  by (rule wp_only_world [OF only_world_memoryValue])

lemma wp_readLargeDRW:
  assumes "port_inv ap0 ap" "ap_memAP ap" "ap_regs ap 0 AND 7 = 3"
  shows "wp (readLargeDRW ctx) (\<lambda>_ s. port_inv ap0 (fst s)) (ap, d)"
  using assms unfolding readLargeDRW_def
  by (cases "ap_largePhase ap")
     (auto simp: wp_simps port_inv_large port_inv_idle intro!: wp_memoryValue split: sum.split)

lemma wp_writeLargeDRW:
  assumes "port_inv ap0 ap" "ap_memAP ap" "ap_regs ap 0 AND 7 = 3"
  shows "wp (writeLargeDRW ctx v) (\<lambda>_ s. port_inv ap0 (fst s)) (ap, d)"
  using assms unfolding writeLargeDRW_def
  by (cases "ap_largePhase ap")
     (auto simp: wp_simps port_inv_large port_inv_idle intro!: keepsD [OF keeps_writeMemoryValue])

lemma word_size_three: "unat (x AND 7 :: uint32) = 3 \<longleftrightarrow> x AND 7 = 3"
  by (simp add: word_unat_eq_iff)

lemma wp_readDRW:
  assumes "port_inv ap0 ap" "ap_memAP ap"
  shows "wp (readDRW ctx) (\<lambda>_ s. port_inv ap0 (fst s)) (ap, d)"
  using assms unfolding readDRW_def
  by (auto simp: wp_simps Let_def word_size_three intro!: wp_readLargeDRW wp_memoryValue port_inv_incrementTAR split: sum.split)

lemma wp_writeDRW:
  assumes "port_inv ap0 ap" "ap_memAP ap"
  shows "wp (writeDRW ctx v) (\<lambda>_ s. port_inv ap0 (fst s)) (ap, d)"
  using assms unfolding writeDRW_def
  by (auto simp: wp_simps Let_def word_size_three intro!: wp_writeLargeDRW wp_conseq [OF keeps_wp [OF keeps_writeMemoryValue]]
      port_inv_incrementTAR split: sum.split)

lemma keeps_readRegister: "keeps (\<lambda>s. port_inv ap0 (fst s)) (readRegister ctx reg)"
  unfolding keeps_def readRegister_def
  by (auto simp: wp_simps port_inv_idle intro!: wp_readDRW split: option.split)

lemma keeps_writeRegister: "keeps (\<lambda>s. port_inv ap0 (fst s)) (writeRegister ctx reg v)"
  unfolding keeps_def writeRegister_def
  by (auto simp: wp_simps port_inv_store intro!: wp_writeDRW port_inv_regs split: option.split)

section \<open>Flags of CTRL/STAT\<close>

lemma bit_single: "bit (push_bit k 1 :: 'a :: len word) n \<longleftrightarrow> n = k \<and> k < LENGTH('a)"
  by (auto simp: bit_exp_iff)

lemma and_single: "k < 32 \<Longrightarrow> (x AND push_bit k 1 = 0) = (\<not> bit (x :: uint32) k)"
  by (metis and_exp_eq_0_iff_not_bit push_bit_of_1)

lemma bit_flags:
  "bit sim_stickyOverrun n \<longleftrightarrow> n = 1" "bit sim_stickyCompare n \<longleftrightarrow> n = 4" "bit sim_stickyError n \<longleftrightarrow> n = 5"
  "bit writeDataError n \<longleftrightarrow> n = 7" "bit sim_overrunDetect n \<longleftrightarrow> n = 0" "bit debugPowerRequest n \<longleftrightarrow> n = 28"
  "bit debugPowerAck n \<longleftrightarrow> n = 29" "bit systemPowerRequest n \<longleftrightarrow> n = 30" "bit systemPowerAck n \<longleftrightarrow> n = 31"
  unfolding ctrlstat_bits bit_single by auto

lemma and_flags:
  "(x AND debugPowerRequest = 0) = (\<not> bit x 28)" "(x AND systemPowerRequest = 0) = (\<not> bit x 30)"
  "(x AND sim_overrunDetect = 0) = (\<not> bit x 0)"
  unfolding ctrlstat_bits by (rule and_single, simp)+

section \<open>Invariant of a target\<close>

text \<open>The power acknowledgements in CTRL/STAT are the requests.\<close>

definition power_ok :: "uint32 \<Rightarrow> bool" where
  "power_ok s \<longleftrightarrow> bit s 29 = bit s 28 \<and> bit s 31 = bit s 30"

definition target_ok :: "'d dap_target \<Rightarrow> bool" where
  "target_ok t \<longleftrightarrow> (\<forall>sel. pred_option port_ok (dt_aps t sel)) \<and> power_ok (dt_ctrlStat t) \<and>
     dt_dpBanks t 1 AND dlcrTurnaroundMask = 0"

definition same_ports :: "'d dap_target \<Rightarrow> 'd dap_target \<Rightarrow> bool" where
  "same_ports t t' \<longleftrightarrow> (\<forall>sel. rel_option same_fixture (dt_aps t sel) (dt_aps t' sel))"

definition target_inv :: "'d dap_target \<Rightarrow> 'd dap_target \<Rightarrow> bool" where
  "target_inv t0 t \<longleftrightarrow> target_ok t \<and> same_ports t0 t"

lemma target_inv_same:
  assumes "target_inv t0 t" "dt_aps t' = dt_aps t" "power_ok (dt_ctrlStat t) \<Longrightarrow> power_ok (dt_ctrlStat t')"
    "dt_dpBanks t 1 AND dlcrTurnaroundMask = 0 \<Longrightarrow> dt_dpBanks t' 1 AND dlcrTurnaroundMask = 0"
  shows "target_inv t0 t'"
  using assms by (simp add: target_inv_def target_ok_def same_ports_def)

lemma power_ok_flags:
  "power_ok s \<Longrightarrow> power_ok (s OR sim_stickyOverrun)" "power_ok s \<Longrightarrow> power_ok (s OR sim_stickyError)"
  "power_ok s \<Longrightarrow> power_ok (s OR sim_overrunDetect)"
  "power_ok s \<Longrightarrow> power_ok (s AND NOT sim_overrunDetect)" "power_ok s \<Longrightarrow> power_ok (s AND NOT sim_stickyOverrun)"
  "power_ok s \<Longrightarrow> power_ok (s AND NOT sim_stickyCompare)" "power_ok s \<Longrightarrow> power_ok (s AND NOT sim_stickyError)"
  "power_ok s \<Longrightarrow> power_ok (s AND NOT writeDataError)"
  by (simp_all add: power_ok_def bit_flags bit_or_iff bit_and_iff bit_not_iff)

lemma power_ok_setPower: "power_ok (dt_ctrlStat (setPower v t))"
  by (simp add: power_ok_def setPower_def Let_def and_flags bit_flags bit_or_iff bit_and_iff sticky_mask_def)

lemma power_ok_clearSticky: "power_ok (dt_ctrlStat t) \<Longrightarrow> power_ok (dt_ctrlStat (target_clearSticky v t))"
  by (simp add: target_clearSticky_def Let_def power_ok_flags)


section \<open>Traffic keeps it\<close>

lemma wp_on_port:
  assumes m: "\<And>ap0. keeps (\<lambda>s. port_inv ap0 (fst s)) m" and inv: "target_inv t0 t" and sel: "dt_aps t sel = Some ap"
  shows "wp (on_port sel m) (\<lambda>_ s. target_inv t0 (fst s)) (t, d)"
proof -
  obtain r ap' d' where run: "run_state m (ap, d) = (r, (ap', d'))" by (metis prod_cases3)
  have "port_ok ap" using inv sel by (metis option.pred_inject(2) target_inv_def target_ok_def)
  then have "port_inv ap (fst (ap, d))" by (simp add: port_inv_def)
  then have "port_inv ap (fst (ap', d'))" by (rule keeps_run [OF m run])
  then have ap': "port_ok ap'" "same_fixture ap ap'" by (simp_all add: port_inv_def)
  have "rel_option same_fixture (dt_aps t0 sel) (Some ap)"
    using inv sel by (metis same_ports_def target_inv_def)
  then have "rel_option same_fixture (dt_aps t0 sel) (Some ap')"
    using ap'(2) by (cases "dt_aps t0 sel") (auto intro: same_fixture_trans)
  then have "target_inv t0 (t\<lparr>dt_aps := (dt_aps t)(sel \<mapsto> ap')\<rparr>)"
    using inv ap'(1) by (auto simp: target_inv_def target_ok_def same_ports_def)
  then show ?thesis using run sel by (simp add: wp_def on_port_def)
qed

lemma keeps_recordI: "(\<And>c w. P c \<Longrightarrow> wp m (\<lambda>_ s. P (fst s)) (c, w)) \<Longrightarrow> keeps (\<lambda>s. P (fst s)) m"
  by (simp add: keeps_def)

lemma wp_keeps_bind: "wp m (\<lambda>_. I) s \<Longrightarrow> (\<And>a. keeps I (f a)) \<Longrightarrow> wp (State_Monad.bind m f) (\<lambda>_. I) s"
  by (erule wp_seq) (rule keepsD)

abbreviation "keeps_target t0 m \<equiv> keeps (\<lambda>s. target_inv t0 (fst s)) m"

lemma keeps_target_update:
  "(\<And>t. dt_aps (f t) = dt_aps t) \<Longrightarrow> (\<And>t. power_ok (dt_ctrlStat t) \<Longrightarrow> power_ok (dt_ctrlStat (f t))) \<Longrightarrow>
   (\<And>t. dt_dpBanks (f t) = dt_dpBanks t) \<Longrightarrow> keeps_target t0 (update f)"
  by (rule keeps_update) (auto intro: target_inv_same)

lemma keeps_set_stickyError: "keeps_target t0 (update set_stickyError)"
  by (rule keeps_target_update) (simp_all add: set_stickyError_def power_ok_flags)

lemma keeps_writeAP: "keeps_target t0 (target_writeAP ctx req v)"
proof (rule keeps_recordI)
  fix t d assume inv: "target_inv t0 t"
  show "wp (target_writeAP ctx req v) (\<lambda>_ s. target_inv t0 (fst s)) (t, d)"
  proof (cases "dt_aps t (selectedAP t)")
    case None
    then show ?thesis using inv by (simp add: target_writeAP_def wp_simps)
  next
    case (Some ap)
    have "wp (do {
        r \<leftarrow> on_port (selectedAP t) (writeRegister ctx reg v);
        case r of
          Inl e \<Rightarrow> if err_is e SimErrBusFault then do { update set_stickyError; ret (Inr ()) } else ret (Inl e)
        | Inr u \<Rightarrow> ret (Inr ())
      }) (\<lambda>_ s. target_inv t0 (fst s)) (t, d)" for reg
      by (rule wp_keeps_bind, rule wp_on_port [OF keeps_writeRegister inv Some]) (intro keeps_intros keeps_set_stickyError)
    then show ?thesis using inv Some by (simp add: target_writeAP_def wp_simps split: sum.split)
  qed
qed


lemma keeps_readAP: "keeps_target t0 (target_readAP ctx req)"
proof (rule keeps_recordI)
  fix t d assume inv: "target_inv t0 t"
  have rdbuff: "target_inv t0 (t'\<lparr>dt_rdbuff := v\<rparr>)" if "target_inv t0 t'" for t' v
    using that by (rule target_inv_same) simp_all
  have port: "wp (readAP_port ctx req posted) (\<lambda>_ s. target_inv t0 (fst s)) (t, d)" if "dt_aps t (selectedAP t) = Some ap" for posted ap
  proof -
    have "wp (do {
        r \<leftarrow> on_port (selectedAP t) (readRegister ctx reg);
        case r of
          Inl e \<Rightarrow> if err_is e SimErrBusFault then do { update set_stickyError; ret (Inr posted) } else ret (Inl e)
        | Inr v \<Rightarrow> do { update (\<lambda>t. t\<lparr>dt_rdbuff := v\<rparr>); ret (Inr posted) }
      }) (\<lambda>_ s. target_inv t0 (fst s)) (t, d)" for reg
      by (rule wp_keeps_bind, rule wp_on_port [OF keeps_readRegister inv that])
         (intro keeps_intros keeps_set_stickyError keeps_update rdbuff)
    then show ?thesis using inv by (simp add: readAP_port_def wp_simps split: sum.split)
  qed
  show "wp (target_readAP ctx req) (\<lambda>_ s. target_inv t0 (fst s)) (t, d)"
    using inv rdbuff unfolding target_readAP_def by (auto simp: wp_simps intro: port split: option.split)
qed

lemma keeps_read_DP: "keeps_target t0 (read_DP req)"
  unfolding read_DP_def by (intro keeps_intros keeps_target_update) simp_all

lemma writeBankedRegister_inv: "target_inv t0 t \<Longrightarrow> target_inv t0 (snd (writeBankedRegister v t))"
  by (erule target_inv_same)
     (auto simp: writeBankedRegister_def Let_def power_ok_setPower, simp_all add: setPower_def Let_def)

lemma keeps_write_DP: "keeps_target t0 (write_DP req v)"
proof -
  have abort: "keeps_target t0 (update (\<lambda>t. target_clearSticky v (t\<lparr>dt_rdbuff := 0\<rparr>)))"
    by (rule keeps_target_update) (simp_all add: power_ok_clearSticky, simp_all add: target_clearSticky_def Let_def)
  have rdbuff: "target_inv t0 (t'\<lparr>dt_rdbuff := v\<rparr>)" if "target_inv t0 t'" for t' v
    using that by (rule target_inv_same) simp_all
  have banked: "keeps_target t0 (do {
      update (\<lambda>t. t\<lparr>dt_rdbuff := 0\<rparr>);
      r \<leftarrow> fetch (writeBankedRegister v);
      update (\<lambda>t. snd r);
      ret (case fst r of None \<Rightarrow> Inr () | Some e \<Rightarrow> Inl e)
    })"
    unfolding keeps_def by (auto simp: wp_simps intro: writeBankedRegister_inv rdbuff)
  show ?thesis
    unfolding write_DP_def by (intro keeps_intros keeps_target_update abort banked) simp_all
qed

lemma keeps_with_ctx: "keeps (\<lambda>s. P (fst s)) m \<Longrightarrow> keeps (\<lambda>s. P (fst s)) (with_ctx E ctx m)"
  unfolding with_ctx_def by (intro keeps_intros)

lemma keeps_target_Read: "keeps_target t0 (target_Read E ctx req)"
  unfolding target_Read_def
  by (intro keeps_intros keeps_with_ctx keeps_readAP keeps_read_DP keeps_target_update) simp_all

lemma keeps_target_Write: "keeps_target t0 (target_Write E ctx req v)"
  unfolding target_Write_def
  by (intro keeps_intros keeps_with_ctx keeps_writeAP keeps_write_DP keeps_target_update) simp_all

lemma keeps_Acknowledge: "keeps_target t0 (Acknowledge E ctx req)"
  unfolding Acknowledge_def by (intro keeps_intros keeps_target_update) simp_all

lemma observe_inv:
  "target_inv t0 t \<Longrightarrow> target_inv t0 (ObserveResponse e t)"
  "target_inv t0 t \<Longrightarrow> target_inv t0 (ObserveLineReset t)"
  "target_inv t0 t \<Longrightarrow> target_inv t0 (SetOverrunDetect b t)"
  by (erule target_inv_same; simp add: ObserveResponse_def ObserveLineReset_def SetOverrunDetect_def Let_def power_ok_flags)+


section \<open>Fixtures keep the invariant\<close>

lemma target_ok_put: "target_ok t \<Longrightarrow> port_ok ap \<Longrightarrow> target_ok (t\<lparr>dt_aps := (dt_aps t)(sel \<mapsto> ap)\<rparr>)"
  by (simp add: target_ok_def)

lemma memory_port_at_ok: "memory_port_at sel t = Inr ap \<Longrightarrow> target_ok t \<Longrightarrow> port_ok ap \<and> ap_memAP ap"
  by (auto simp: memory_port_at_def target_ok_def split: sum.splits option.splits if_splits) (metis option.pred_inject(2))

lemma bit_sizes: "bit (4 :: byte) n \<longleftrightarrow> n = 2" "bit (7 :: byte) n \<longleftrightarrow> n < 3" "bit (8 :: byte) n \<longleftrightarrow> n = 3"
proof -
  show "bit (4 :: byte) n \<longleftrightarrow> n = 2" "bit (8 :: byte) n \<longleftrightarrow> n = 3"
    using bit_single [of 2 n, where ?'a = 8] bit_single [of 3 n, where ?'a = 8] by simp_all
  have "(7 :: byte) = mask 3" by (simp add: mask_eq_exp_minus_1)
  then show "bit (7 :: byte) n \<longleftrightarrow> n < 3" by (simp only: bit_mask_iff) auto
qed

lemma port_ok_plain: "idr \<noteq> 0 \<Longrightarrow> port_ok (plain_port idr)"
  by (simp add: port_ok_def plain_port_def disjoint_mappings_def)

lemma port_ok_memory: "idr \<noteq> 0 \<Longrightarrow> ai_Class (DecodeAPIDR idr) = 8 \<Longrightarrow> port_ok (memory_port idr m)"
  by (simp add: port_ok_def memory_port_def memory_port_ok_def disjoint_mappings_def bit_sizes del: bit_numeral_word_iff)

lemma port_ok_configure: "port_ok ap \<Longrightarrow> ap_memAP ap \<Longrightarrow> port_ok (configure_port cfg ap)"
  by (auto simp: port_ok_def memory_port_ok_def configure_port_def Let_def bit_or_iff bit_and_iff bit_not_iff bit_sizes
      simp del: bit_numeral_word_iff)

definition sizes_ok :: "byte \<Rightarrow> bool" where
  "sizes_ok a \<longleftrightarrow> bit a 2 \<and> (\<forall>n \<ge> 4. \<not> bit a n)"

lemma sizes_ok_add:
  assumes "sim_transferSizeEncoding sz = Some k" "sizes_ok a"
  shows "sizes_ok (a OR push_bit k 1)"
proof -
  have "k < 4" using assms(1) by (auto simp: sim_transferSizeEncoding_def split: if_splits)
  then show ?thesis using assms(2) unfolding sizes_ok_def bit_or_iff bit_single by auto
qed

lemma accepted_sizes_ok: "accepted_sizes cfg a szs = Inr b \<Longrightarrow> sizes_ok a \<Longrightarrow> sizes_ok b"
  by (induction szs arbitrary: a) (auto dest: sizes_ok_add split: option.splits if_splits)

lemma SetMEMAPSizes_ok:
  assumes "SetMEMAPSizes sel szs t = Inr t'" "target_ok t"
  shows "target_ok t'"
proof -
  obtain ap a where ap: "memory_port_at sel t = Inr ap" and a: "accepted_sizes (ap_regs ap 0xF4) (push_bit 2 1) szs = Inr a"
    and t': "t' = put_port sel (ap\<lparr>ap_sizes := a, ap_regs := (ap_regs ap)(0 := (ap_regs ap 0 AND NOT 7) OR 2),
      ap_largePhase := largeDataIdle\<rparr>) t"
    using assms(1) by (auto simp: SetMEMAPSizes_def split: sum.splits)
  have "sizes_ok (push_bit 2 1)" by (simp add: sizes_ok_def bit_sizes del: bit_numeral_word_iff)
  then have "sizes_ok a" by (rule accepted_sizes_ok [OF a])
  moreover have "((ap_regs ap 0 AND NOT 7) OR 2) AND 7 = 2" by (rule bit_word_eqI) (auto simp: bit_simps)
  moreover have "port_ok ap" "ap_memAP ap" using memory_port_at_ok [OF ap assms(2)] by simp_all
  ultimately show ?thesis
    unfolding t' put_port_def by (intro target_ok_put assms(2)) (simp add: port_ok_def memory_port_ok_def sizes_ok_def)
qed

lemma disjoint_mappings_append:
  assumes "disjoint_mappings (ap_devices ap)" "\<not> overlapsDevice addr last_addr ap" "addr \<le> last_addr"
  shows "disjoint_mappings (ap_devices ap @ [\<lparr>dm_start = addr, dm_end = last_addr, dm_device = d\<rparr>])"
  using assms
  by (auto simp: disjoint_mappings_def overlapsDevice_def list_all_iff list_ex_iff sorted_wrt_append not_le)

lemma MapMEMAPDevice_ok:
  assumes "MapMEMAPDevice sel addr sz device t = Inr t'" "target_ok t"
  shows "target_ok t'"
proof -
  obtain ap d where ap: "dt_aps t sel = Some ap" "ap_memAP ap" "addr \<le> addr + sz - 1" "\<not> overlapsDevice addr (addr + sz - 1) ap"
    and t': "t' = put_port sel (ap\<lparr>ap_devices := ap_devices ap @ [\<lparr>dm_start = addr, dm_end = addr + sz - 1, dm_device = d\<rparr>]\<rparr>) t"
    using assms(1) by (auto simp: MapMEMAPDevice_def Let_def not_less split: sum.splits option.splits if_splits)
  have "port_ok ap" using assms(2) ap(1) by (metis option.pred_inject(2) target_ok_def)
  then show ?thesis
    using ap(2-) unfolding t' put_port_def
    by (intro target_ok_put assms(2)) (simp add: port_ok_def memory_port_ok_def disjoint_mappings_append)
qed

lemma port_fixtures_ok:
  assumes "target_ok t"
  shows "AddAP sel idr t = Inr t' \<Longrightarrow> target_ok t'" "AddMEMAP sel idr ws t = Inr t' \<Longrightarrow> target_ok t'"
    "SetMEMAPCFG sel v t = Inr t' \<Longrightarrow> target_ok t'" "SetMEMAPBytes sel address bs t = Inr t' \<Longrightarrow> target_ok t'"
    "SetMEMAPDebugBase sel low high t = Inr t' \<Longrightarrow> target_ok t'"
proof -
  have bytes: "port_ok (ap\<lparr>ap_memory := m\<rparr>)" if "port_ok ap" for ap :: "'a access_port" and m
    using that by (simp add: port_ok_def memory_port_ok_def)
  have base: "port_ok (ap\<lparr>ap_regs := (ap_regs ap)(0xF8 := low, 0xF0 := high)\<rparr>)" if "port_ok ap" for ap :: "'a access_port"
    using that by (simp add: port_ok_def memory_port_ok_def)
  show "AddAP sel idr t = Inr t' \<Longrightarrow> target_ok t'"
    using assms by (auto simp: AddAP_def port_ok_plain intro!: target_ok_put split: if_splits sum.splits)
  show "AddMEMAP sel idr ws t = Inr t' \<Longrightarrow> target_ok t'"
    using assms by (auto simp: AddMEMAP_def port_ok_memory intro!: target_ok_put split: if_splits sum.splits)
  show "SetMEMAPCFG sel v t = Inr t' \<Longrightarrow> target_ok t'"
    using assms by (auto simp: SetMEMAPCFG_def put_port_def port_ok_configure dest: memory_port_at_ok intro!: target_ok_put split: sum.splits)
  show "SetMEMAPBytes sel address bs t = Inr t' \<Longrightarrow> target_ok t'"
    using assms by (auto simp: SetMEMAPBytes_def put_port_def bytes dest: memory_port_at_ok intro!: target_ok_put split: if_splits sum.splits)
  show "SetMEMAPDebugBase sel low high t = Inr t' \<Longrightarrow> target_ok t'"
    using assms by (auto simp: SetMEMAPDebugBase_def put_port_def base dest: memory_port_at_ok intro!: target_ok_put split: sum.splits)
qed

lemma SetDPRegister_ok: "SetDPRegister reg v t = Inr t' \<Longrightarrow> target_ok t \<Longrightarrow> target_ok t'"
  by (auto simp: SetDPRegister_def setIdentityRegister_def Let_def fixture_bank_def target_ok_def dp_register_defs
      split: if_splits)

lemma SetDebugWord_ok: "SetDebugWord address v t = Inr t' \<Longrightarrow> target_ok t \<Longrightarrow> target_ok t'"
  by (auto simp: SetDebugWord_def target_ok_def split: if_splits)

section \<open>Reachable targets\<close>

text \<open>
  One call on a target, in any order: the traffic of the wire, the observations of the wire, or a fixture that was
  accepted. The world behind the devices may change between two calls.
\<close>

inductive dap_step :: "'d go_env \<Rightarrow> 'd dap_target \<times> 'd \<Rightarrow> 'd dap_target \<times> 'd \<Rightarrow> bool" for E where
  acknowledge: "run_state (Acknowledge E ctx req) s = (e, s') \<Longrightarrow> dap_step E s s'"
| read_step: "run_state (target_Read E ctx req) s = (r, s') \<Longrightarrow> dap_step E s s'"
| write_step: "run_state (target_Write E ctx req v) s = (u, s') \<Longrightarrow> dap_step E s s'"
| response: "dap_step E (t, d) (ObserveResponse err t, d)"
| line_reset: "dap_step E (t, d) (ObserveLineReset t, d)"
| overrun: "dap_step E (t, d) (SetOverrunDetect enabled t, d)"
| devices: "dap_step E (t, d) (t, d')"
| dp_register: "SetDPRegister reg v t = Inr t' \<Longrightarrow> dap_step E (t, d) (t', d)"
| debug_word: "SetDebugWord address v t = Inr t' \<Longrightarrow> dap_step E (t, d) (t', d)"
| add_ap: "AddAP sel idr t = Inr t' \<Longrightarrow> dap_step E (t, d) (t', d)"
| add_memap: "AddMEMAP sel idr ws t = Inr t' \<Longrightarrow> dap_step E (t, d) (t', d)"
| memap_cfg: "SetMEMAPCFG sel v t = Inr t' \<Longrightarrow> dap_step E (t, d) (t', d)"
| memap_sizes: "SetMEMAPSizes sel szs t = Inr t' \<Longrightarrow> dap_step E (t, d) (t', d)"
| memap_bytes: "SetMEMAPBytes sel address bs t = Inr t' \<Longrightarrow> dap_step E (t, d) (t', d)"
| memap_base: "SetMEMAPDebugBase sel low high t = Inr t' \<Longrightarrow> dap_step E (t, d) (t', d)"
| memap_device: "MapMEMAPDevice sel address sz device t = Inr t' \<Longrightarrow> dap_step E (t, d) (t', d)"

lemma same_ports_refl: "same_ports t t"
  by (simp add: same_ports_def option.rel_refl)

lemma keeps_ok: "(\<And>t0. keeps_target t0 m) \<Longrightarrow> run_state m s = (a, s') \<Longrightarrow> target_ok (fst s) \<Longrightarrow> target_ok (fst s')"
  using keeps_run [of "\<lambda>s'. target_inv (fst s) (fst s')" m s a s'] by (simp add: target_inv_def same_ports_refl)

lemma observe_ok:
  "target_ok t \<Longrightarrow> target_ok (ObserveResponse e t)" "target_ok t \<Longrightarrow> target_ok (ObserveLineReset t)"
  "target_ok t \<Longrightarrow> target_ok (SetOverrunDetect b t)"
  using observe_inv [of t t] by (simp_all add: target_inv_def same_ports_refl)

lemma dap_step_ok: "dap_step E s s' \<Longrightarrow> target_ok (fst s) \<Longrightarrow> target_ok (fst s')"
  by (induction rule: dap_step.induct)
     (auto intro: port_fixtures_ok observe_ok SetDPRegister_ok SetDebugWord_ok SetMEMAPSizes_ok MapMEMAPDevice_ok
        keeps_ok [OF keeps_Acknowledge] keeps_ok [OF keeps_target_Read] keeps_ok [OF keeps_target_Write])

lemma dap_steps_ok: "(dap_step E)\<^sup>*\<^sup>* s s' \<Longrightarrow> target_ok (fst s) \<Longrightarrow> target_ok (fst s')"
  by (induction rule: rtranclp_induct) (auto intro: dap_step_ok)

lemma target_ok_New: "target_ok (target_New dpidr)"
  by (simp add: target_ok_def target_New_def power_ok_def)


lemma keeps_same_ports:
  assumes "keeps_target t m" "target_ok t"
  shows "same_ports t (fst (snd (run_state m (t, d))))"
proof -
  have "target_inv t (fst (t, d))" using assms(2) by (simp add: target_inv_def same_ports_refl)
  then have "target_inv t (fst (snd (run_state m (t, d))))"
    by (rule keeps_run [OF assms(1), of _ "fst (run_state m (t, d))", rotated]) simp
  then show ?thesis by (simp add: target_inv_def)
qed

text \<open>
  C40: Every simulated target that is reached from a new one, by traffic and fixtures in any order, is well-formed:
  the devices mapped on a port occupy disjoint ranges that do not wrap, only memory ports have any, an identification
  is never zero, a port is inside a 64-bit transfer only with the size and CFG.LD set, the power acknowledgements are
  the requests and no turnaround but the modelled one is configured. A read or write request of any kind, accepted
  or failed, changes neither the set of ports nor their devices, sizes and read-only registers.
\<close>

theorem reachable_targets_well_formed:
  assumes "(dap_step E)\<^sup>*\<^sup>* (target_New dpidr, d) (t, d')"
  shows "target_ok t \<and> (\<forall>ctx req. same_ports t (fst (snd (run_state (target_Read E ctx req) (t, d'))))) \<and>
    (\<forall>ctx req v. same_ports t (fst (snd (run_state (target_Write E ctx req v) (t, d')))))"
proof -
  have t: "target_ok t"
    using dap_steps_ok [OF assms] by (simp add: target_ok_New)
  then show ?thesis
    by (intro conjI allI keeps_same_ports keeps_target_Read keeps_target_Write)
qed

text \<open>A memory port with one mapped device.\<close>

definition demo_device :: "unit memory_device" where
  "demo_device = \<lparr>md_Read = (\<lambda>ctx addr n d. ((replicate n 0xAA, None), d)), md_Write = (\<lambda>ctx addr bs d. (None, d))\<rparr>"

definition demo_target :: "unit dap_target" where
  "demo_target = (target_New 0x2BA01477)\<lparr>dt_aps := [NewAPSel 0 \<mapsto> (memory_port 0x24770011 (\<lambda>_. 0))
     \<lparr>ap_devices := [\<lparr>dm_start = 0x40000000, dm_end = 0x40000FFF, dm_device = demo_device\<rparr>]\<rparr>]\<rparr>"

lemma demo_target_reachable: "(dap_step still_env)\<^sup>*\<^sup>* (target_New 0x2BA01477, ()) (demo_target, ())"
proof -
  let ?sel = "NewAPSel 0"
  let ?t0 = "target_New 0x2BA01477 :: unit dap_target"
  let ?t1 = "?t0\<lparr>dt_aps := [?sel \<mapsto> memory_port 0x24770011 (\<lambda>_. 0)]\<rparr>"
  have v: "selectorValue ?sel t = Inr 0" if "dt_dpidr t = 0x2BA01477" for t :: "unit dap_target"
    using that by (simp add: selectorValue_def dp_version_def APSel_Value_def NewAPSel_def)
  have "AddMEMAP ?sel 0x24770011 [] ?t0 = Inr ?t1"
    by (simp add: AddMEMAP_def v DecodeAPIDR_def target_New_def)
  then have "dap_step still_env (?t0, ()) (?t1, ())" by (rule add_memap)
  moreover have "MapMEMAPDevice ?sel 0x40000000 0x1000 (Some demo_device) ?t1 = Inr demo_target"
    by (simp add: MapMEMAPDevice_def v target_New_def memory_port_def overlapsDevice_def put_port_def demo_target_def)
  then have "dap_step still_env (?t1, ()) (demo_target, ())" by (rule memap_device)
  ultimately show ?thesis by (rule converse_rtranclp_into_rtranclp [OF _ r_into_rtranclp])
qed

theorem reachable_targets_well_formed_witness: "target_ok demo_target"
  using reachable_targets_well_formed [OF demo_target_reachable] by simp

end
