(* ===== verification/Dap_Wire.thy ===== *)
theory Dap_Wire
  imports Dap_Memory Dap_Reachable Swd_Sim_Refine
begin

text \<open>
  The simulated debug port behind the simulated wire. Its transfers are computed for a live context; sticky errors
  block them until ABORT is written, and the register operations of an SWD connection reach the memory of a port.
\<close>

section \<open>Transfers of the simulated debug port\<close>

lemma live_ctx: "live E ctx \<Longrightarrow> ctx_Err E ctx d = (None, d)"
  by (simp add: live_def ctx_Err_def Let_def)

lemma wf_request_valid: "wf_request req \<Longrightarrow> req_addr req AND 3 = 0 \<and> req_addr req \<le> 0x0C"
  by (auto simp: wf_request_def)

lemma Acknowledge_live:
  assumes "live E ctx" "wf_request req"
  shows "run_state (Acknowledge E ctx req) (t, d) =
    (if dt_ctrlStat t AND sticky_mask = 0 \<or> isStickyExempt req (dt_selectDP t) then None else Some ErrFault,
     (t\<lparr>dt_started := True\<rparr>, d))"
  using assms wf_request_valid [of req] by (auto simp: Acknowledge_def live_ctx)

lemma dap_transfer:
  assumes "live E ctx" "wf_request req"
  shows "target_transfer (dap_sim_target E) ctx req v (t, d) =
    (if dt_ctrlStat t AND sticky_mask = 0 \<or> isStickyExempt req (dt_selectDP t)
     then if req_read req
       then case run_state (target_Read E ctx req) (t\<lparr>dt_started := True\<rparr>, d) of
         (Inl e, s) \<Rightarrow> (if e = ErrParity then Inr (0, Some ErrParity) else Inl e, s) | (Inr x, s) \<Rightarrow> (Inr (x, None), s)
       else case run_state (target_Write E ctx req v) (t\<lparr>dt_started := True\<rparr>, d) of
         (Inl e, s) \<Rightarrow> (Inl e, s) | (Inr x, s) \<Rightarrow> (Inr (0, None), s)
     else (Inr (0, Some ErrFault), (ObserveResponse (Some ErrFault) (t\<lparr>dt_started := True\<rparr>), d)))"
  using Acknowledge_live [OF assms]
  by (simp add: target_transfer_def sim_acknowledge_def dap_sim_target_def observeResponse_def ackError_def Let_def
      split: sum.split prod.split)

lemma overrun_dap [simp]: "overrunEnabled (dap_sim_target E) s = OverrunDetectEnabled (fst s)"
  by (simp add: overrunEnabled_def dap_sim_target_def)

lemma overrun_after_response: "OverrunDetectEnabled (ObserveResponse e t) = OverrunDetectEnabled t"
  by (simp add: OverrunDetectEnabled_def ObserveResponse_def and_flags bit_flags bit_or_iff)

lemma keeps_grammar_dap: "keeps_grammar (dap_sim_target E)"
proof -
  have ack: "OverrunDetectEnabled (fst s') = OverrunDetectEnabled (fst s)"
    if "run_state (Acknowledge E ctx req) s = (e, s')" for ctx req s e s'
    using that by (cases s)
      (auto simp: Acknowledge_def OverrunDetectEnabled_def split: if_splits prod.splits option.splits)
  show ?thesis
    unfolding keeps_grammar_def
    by (auto simp: sim_acknowledge_def dap_sim_target_def observeResponse_def overrun_after_response overrunEnabled_def
        dest!: ack split: option.splits prod.splits if_splits)
qed

section \<open>Sticky errors\<close>

primrec run_transfers :: "'t sim_target \<Rightarrow> ctx \<Rightarrow> (request \<times> uint32) list \<Rightarrow> 't \<Rightarrow> 't" where
  "run_transfers T ctx [] s = s"
| "run_transfers T ctx (op # ops) s = run_transfers T ctx ops (snd (target_transfer T ctx (fst op) (snd op) s))"

text \<open>A target whose sticky bits block it, after \<open>t\<close>: nothing was selected, written or read through a port.\<close>

definition blocked_since :: "'d dap_target \<Rightarrow> 'd dap_target \<Rightarrow> bool" where
  "blocked_since t t' \<longleftrightarrow> dt_aps t' = dt_aps t \<and> dt_selectDP t' = dt_selectDP t \<and> dt_selectHigh t' = dt_selectHigh t \<and>
     dt_dpBanks t' = dt_dpBanks t \<and> dt_ctrlStat t' \<in> {dt_ctrlStat t, dt_ctrlStat t OR sim_stickyOverrun}"

lemma and_nonzero: "(x AND y \<noteq> 0) = (\<exists>n. bit x n \<and> bit (y :: uint32) n)"
proof -
  have "n < 32" if "bit x n" for n using bit_imp_le_length [OF that] by simp
  then show ?thesis by (auto simp: bit_eq_iff bit_and_iff)
qed

lemma sticky_or: "s AND sticky_mask \<noteq> 0 \<Longrightarrow> (s OR sim_stickyOverrun) AND sticky_mask \<noteq> 0"
  unfolding and_nonzero bit_or_iff by blast

lemma blocked_transfer:
  assumes "live E ctx" "wf_request req" "\<not> isAbortWrite req" "blocked_since t0 t" "dt_ctrlStat t0 AND sticky_mask \<noteq> 0"
  shows "\<exists>t'. snd (target_transfer (dap_sim_target E) ctx req v (t, d)) = (t', d) \<and> blocked_since t0 t'"
proof -
  have s: "dt_ctrlStat t AND sticky_mask \<noteq> 0"
    using assms(4,5) sticky_or [of "dt_ctrlStat t0"] unfolding blocked_since_def by (metis insert_iff singletonD)
  show ?thesis
  proof (cases "isStickyExempt req (dt_selectDP t)")
    case False
    then show ?thesis
      using assms s by (simp add: dap_transfer ObserveResponse_def blocked_since_def) (auto simp: or.assoc)
  next
    case True
    then have "req_read req" "\<not> req_ap req" "req_addr req = 0 \<or> req_addr req = 4"
      using assms(3) by (auto simp: isStickyExempt_def isAbortWrite_def split: if_splits)
    then show ?thesis
      using assms s True
      by (auto simp: dap_transfer target_Read_def validateRequest_def with_ctx_def live_ctx read_DP_def blocked_since_def)
  qed
qed

lemma blocked_run:
  assumes "live E ctx" "\<forall>op \<in> set ops. wf_request (fst op) \<and> \<not> isAbortWrite (fst op)"
    "blocked_since t0 t" "dt_ctrlStat t0 AND sticky_mask \<noteq> 0"
  shows "\<exists>t'. run_transfers (dap_sim_target E) ctx ops (t, d) = (t', d) \<and> blocked_since t0 t'"
  using assms
proof (induction ops arbitrary: t)
  case (Cons op ops)
  obtain t1 where "snd (target_transfer (dap_sim_target E) ctx (fst op) (snd op) (t, d)) = (t1, d)" "blocked_since t0 t1"
    using blocked_transfer [OF Cons.prems(1) _ _ Cons.prems(3,4)] Cons.prems(2) by force
  then show ?case using Cons by simp
qed auto


lemma abort_clears: "dt_ctrlStat (target_clearSticky 0x1E t) AND sticky_mask = 0"
proof -
  have "0x1E AND sim_clearStickyCompare \<noteq> 0" "0x1E AND sim_clearStickyError \<noteq> 0"
    "0x1E AND sim_clearWriteDataError \<noteq> 0" "0x1E AND sim_clearStickyOverrun \<noteq> 0"
    by (simp_all add: ctrlstat_bits)
  then have "dt_ctrlStat (target_clearSticky 0x1E t) =
      (((dt_ctrlStat t AND NOT sim_stickyCompare) AND NOT sim_stickyError) AND NOT writeDataError) AND NOT sim_stickyOverrun"
    by (simp add: target_clearSticky_def)
  then show ?thesis
    using and_nonzero [of "dt_ctrlStat (target_clearSticky 0x1E t)" sticky_mask]
    by (auto simp: sticky_mask_def bit_flags bit_or_iff bit_and_iff bit_not_iff)
qed

lemma abort_transfer:
  assumes "live E ctx"
  shows "target_transfer (dap_sim_target E) ctx abort_request 0x1E (t, d) =
    (Inr (0, None), (target_clearSticky 0x1E (t\<lparr>dt_started := True, dt_rdbuff := 0\<rparr>), d))"
  using assms by (simp add: dap_transfer wf_request_def abort_request_def isStickyExempt_def target_Write_def
      validateRequest_def with_ctx_def live_ctx write_DP_def)

text \<open>
  C39: Sticky errors block the debug port until they are cleared. While a sticky bit is set in CTRL/STAT, no sequence
  of requests without a write to ABORT, whatever its length and order, selects anything, changes a register or the
  memory of an access port, or reaches a mapped device; no sticky bit is lost, and every access-port request is
  answered with FAULT and no data. Writing all clear bits to ABORT is always accepted and clears every sticky bit.
\<close>

theorem sticky_errors_block_until_abort:
  assumes "live E ctx" "dt_ctrlStat t AND sticky_mask \<noteq> 0"
    and "\<forall>op \<in> set ops. wf_request (fst op) \<and> \<not> isAbortWrite (fst op)"
  shows "\<exists>t'. run_transfers (dap_sim_target E) ctx ops (t, d) = (t', d) \<and> blocked_since t t' \<and>
    (\<forall>req v. wf_request req \<and> req_ap req \<longrightarrow>
       fst (target_transfer (dap_sim_target E) ctx req v (t', d)) = Inr (0, Some ErrFault)) \<and>
    (\<exists>t''. target_transfer (dap_sim_target E) ctx abort_request 0x1E (t', d) = (Inr (0, None), (t'', d)) \<and>
       dt_aps t'' = dt_aps t \<and> dt_ctrlStat t'' AND sticky_mask = 0)"
proof -
  have "blocked_since t t" by (simp add: blocked_since_def)
  from blocked_run [OF assms(1,3) this assms(2)] obtain t' where
    t': "run_transfers (dap_sim_target E) ctx ops (t, d) = (t', d)" "blocked_since t t'" by blast
  have s: "dt_ctrlStat t' AND sticky_mask \<noteq> 0"
    using t'(2) assms(2) sticky_or [of "dt_ctrlStat t"] unfolding blocked_since_def by (metis insert_iff singletonD)
  have "fst (target_transfer (dap_sim_target E) ctx req v (t', d)) = Inr (0, Some ErrFault)"
    if "wf_request req \<and> req_ap req" for req v
    using that s assms(1) by (simp add: dap_transfer isStickyExempt_def)
  moreover have "dt_aps (target_clearSticky 0x1E (t'\<lparr>dt_started := True, dt_rdbuff := 0\<rparr>)) = dt_aps t"
    using t'(2) by (simp add: target_clearSticky_def Let_def blocked_since_def)
  ultimately show ?thesis
    using t' abort_transfer [OF assms(1), of t' d] abort_clears by blast
qed

definition drw_write :: request where
  "drw_write = \<lparr>req_ap = True, req_read = False, req_addr = 0x0C\<rparr>"

theorem sticky_errors_block_until_abort_witness:
  "\<exists>t'. run_transfers (dap_sim_target still_env) Background [(drw_write, 7)]
     (demo_target\<lparr>dt_ctrlStat := sim_stickyError\<rparr>, ()) = (t', ()) \<and> dt_aps t' = dt_aps demo_target"
proof -
  have "dt_ctrlStat (demo_target\<lparr>dt_ctrlStat := sim_stickyError\<rparr>) AND sticky_mask \<noteq> 0"
    "\<forall>op \<in> set [(drw_write, 7 :: uint32)]. wf_request (fst op) \<and> \<not> isAbortWrite (fst op)"
    by (simp_all add: sticky_mask_def ctrlstat_bits drw_write_def wf_request_def isAbortWrite_def)
  from sticky_errors_block_until_abort [OF live_still(2) this, of "()"] show ?thesis
    by (auto simp: blocked_since_def)
qed

section \<open>Register operations over the wire\<close>

text \<open>
  A connection that is ready, on the simulated wire to a simulated debug port. The deadline of a started operation
  does not pass, for the host as for the target, which polls it too.
\<close>

definition completion :: "'w go_env \<Rightarrow> ctx \<Rightarrow> 'w swd_conn \<Rightarrow> 'w \<Rightarrow> ctx" where
  "completion E ctx c w = WithTimeout E (WithoutCancel ctx) (sc_completionTimeout c) w"

definition host_ready ::
  "('d dap_target \<times> 'd) sim_wire go_env \<Rightarrow> 'd go_env \<Rightarrow> ctx \<Rightarrow>
   ('d dap_target \<times> 'd) sim_wire swd_conn \<Rightarrow> ('d dap_target \<times> 'd) sim_wire \<Rightarrow> bool" where
  "host_ready E Et ctx c w \<longleftrightarrow> sim_ready E (dap_sim_target Et) c w \<and> sc_state c = connectionReady \<and> live E ctx \<and>
     (\<forall>w'. live E (completion E ctx c w') \<and> live Et (completion E ctx c w')) \<and>
     (sc_response c = responseOverrun) = OverrunDetectEnabled (fst (sw_target w))"

lemma observeTransfer_ok:
  "sc_wire (observeTransfer req x v None c) = sc_wire c" "sc_turnaround (observeTransfer req x v None c) = sc_turnaround c"
  "sc_idleCycles (observeTransfer req x v None c) = sc_idleCycles c"
  "sc_completionTimeout (observeTransfer req x v None c) = sc_completionTimeout c"
  "sc_state (observeTransfer req x v None c) = sc_state c" "sc_response (observeTransfer req x v None c) = sc_response c"
  by (simp_all add: observeTransfer_def completeTransfer_def observePendingSelection_def resolveBankZeroCTRLSTAT_def
      invalidateBank_def confirmBank_def Let_def)

lemma transfer_over_wire:
  assumes host: "host_ready E Et ctx c w" and req: "wf_request req" "req_ap req \<or> req_read req"
    and tt: "target_transfer (dap_sim_target Et) (completion E ctx c w) req v (sw_target w) = (Inr (x, None), (t', d'))"
    and grammar: "OverrunDetectEnabled t' = OverrunDetectEnabled (fst (sw_target w))"
  shows "\<exists>c' w'. run_state (swd_transfer E ctx req v) (c, w) = ((x, None), (c', w')) \<and> host_ready E Et ctx c' w' \<and>
    sw_target w' = (t', d')"
proof -
  let ?cctx = "completion E ctx c w" and ?c = "observeTransfer req x v None c"
  have h: "sim_ready E (dap_sim_target Et) c w" "sc_state c = connectionReady" "live E ctx"
    "live E ?cctx" "live Et ?cctx" "(sc_response c = responseOverrun) = OverrunDetectEnabled (fst (sw_target w))"
    using host by (simp_all add: host_ready_def)
  from transferFrame_target [OF h(1) h(4) req(1) _ keeps_grammar_dap tt] obtain w' where
    frame: "run_state (swd_transferFrame E ?cctx req v) (c, w) = ((x, None), (c, w'))"
    and w': "sw_target w' = (t', d')" "sim_ready E (dap_sim_target Et) c w'"
    using h(6) by (auto simp: transfer_result_def)
  have "run_state (swd_executeFrame E ?cctx req v) (c, w) = ((x, None), (c, w'))"
    by (simp add: swd_executeFrame_def frame)
  moreover have "validateTransfer req v c = None" using req(2) by (auto simp: validateTransfer_def)
  moreover have "0 < sc_completionTimeout c" using h(1) by (simp add: sim_ready_def)
  ultimately have "run_state (swd_transfer E ctx req v) (c, w) = ((x, None), (?c, w'))"
    using h by (simp add: swd_transfer_def swd_completionContext_def swd_validateCompletion_def swd_completionError_def
        join_cause_def live_ctx completion_def)
  moreover have "host_ready E Et ctx ?c w'"
    using host w' grammar by (simp add: host_ready_def sim_ready_def completion_def observeTransfer_ok)
  ultimately show ?thesis using w'(1) by blast
qed


text \<open>A port behind register bank zero of an ADIv5 target without sticky errors.\<close>

definition selects :: "'d dap_target \<Rightarrow> 'd access_port \<Rightarrow> bool" where
  "selects t ap \<longleftrightarrow> dt_ctrlStat t AND sticky_mask = 0 \<and> dp_version t \<noteq> 3 \<and> dt_selectDP t AND 0xF0 = 0 \<and>
     dt_aps t (selectedAP t) = Some ap"

definition selected_as :: "'d dap_target \<Rightarrow> 'd access_port \<Rightarrow> 'd dap_target \<Rightarrow> bool" where
  "selected_as t ap t' \<longleftrightarrow> selects t' ap \<and> dt_ctrlStat t' = dt_ctrlStat t"

lemma bank_zero_register:
  assumes "dt_selectDP t AND 0xF0 = 0" "dp_version t \<noteq> 3"
  shows "apReg req t = Inr (req_addr req)"
proof -
  have masks: "(0xF0 :: uint32) = push_bit 4 (mask 4)" "(0x0F :: byte) = mask 4"
    by (simp_all add: mask_eq_exp_minus_1)
  have "push_bit 4 (ucast (drop_bit 4 (dt_selectDP t)) AND 0x0F) = (ucast (dt_selectDP t AND 0xF0) :: byte)"
    unfolding masks by (rule bit_word_eqI) (auto simp: bit_simps)
  then show ?thesis using assms by (simp add: apReg_def)
qed

lemma selection_views [simp]:
  "dp_version (t\<lparr>dt_started := b\<rparr>) = dp_version t" "dp_version (t\<lparr>dt_rdbuff := x\<rparr>) = dp_version t"
  "dp_version (t\<lparr>dt_resend := x\<rparr>) = dp_version t" "dp_version (t\<lparr>dt_aps := m\<rparr>) = dp_version t"
  "selectedAP (t\<lparr>dt_started := b\<rparr>) = selectedAP t" "selectedAP (t\<lparr>dt_rdbuff := x\<rparr>) = selectedAP t"
  "selectedAP (t\<lparr>dt_resend := x\<rparr>) = selectedAP t" "selectedAP (t\<lparr>dt_aps := m\<rparr>) = selectedAP t"
  by (simp_all add: dp_version_def selectedAP_def)

lemma AP_write_transfer:
  assumes sel: "selects t ap" "live Et cctx" and req: "wf_request \<lparr>req_ap = True, req_read = False, req_addr = reg\<rparr>"
    and run: "run_state (writeRegister cctx reg v) (ap, d) = (Inr (), (ap', d'))"
  shows "\<exists>t'. target_transfer (dap_sim_target Et) cctx \<lparr>req_ap = True, req_read = False, req_addr = reg\<rparr> v (t, d) =
    (Inr (0, None), (t', d')) \<and> selected_as t ap' t'"
proof -
  let ?req = "\<lparr>req_ap = True, req_read = False, req_addr = reg\<rparr>" and ?t = "t\<lparr>dt_started := True, dt_rdbuff := 0\<rparr>"
  let ?t' = "?t\<lparr>dt_aps := (dt_aps t)(selectedAP t \<mapsto> ap')\<rparr>"
  have "run_state (target_writeAP cctx ?req v) (?t, d) = (Inr (), (?t', d'))"
    using sel run by (simp add: selects_def target_writeAP_def bank_zero_register run_attempt on_port_def)
  then have "target_transfer (dap_sim_target Et) cctx ?req v (t, d) = (Inr (0, None), (?t', d'))"
    using sel wf_request_valid [OF req] req
    by (simp add: dap_transfer selects_def target_Write_def validateRequest_def with_ctx_def live_ctx not_less)
  moreover have "selected_as t ap' ?t'"
    using sel by (simp add: selected_as_def selects_def)
  ultimately show ?thesis by blast
qed

lemma AP_read_transfer:
  assumes sel: "selects t ap" "live Et cctx" and req: "wf_request \<lparr>req_ap = True, req_read = True, req_addr = reg\<rparr>"
    and run: "run_state (readRegister cctx reg) (ap, d) = (Inr x, (ap', d'))"
  shows "\<exists>t'. target_transfer (dap_sim_target Et) cctx \<lparr>req_ap = True, req_read = True, req_addr = reg\<rparr> v (t, d) =
    (Inr (dt_rdbuff t, None), (t', d')) \<and> selected_as t ap' t' \<and> dt_rdbuff t' = x"
proof -
  let ?req = "\<lparr>req_ap = True, req_read = True, req_addr = reg\<rparr>" and ?t = "t\<lparr>dt_started := True\<rparr>"
  let ?t' = "?t\<lparr>dt_aps := (dt_aps t)(selectedAP t \<mapsto> ap'), dt_rdbuff := x\<rparr>"
  have "run_state (target_readAP cctx ?req) (?t, d) = (Inr (dt_rdbuff t), (?t', d'))"
    using sel run by (simp add: selects_def target_readAP_def readAP_port_def bank_zero_register run_attempt on_port_def)
  then have "target_transfer (dap_sim_target Et) cctx ?req v (t, d) =
      (Inr (dt_rdbuff t, None), (?t'\<lparr>dt_resend := dt_rdbuff t\<rparr>, d'))"
    using sel wf_request_valid [OF req] req
    by (simp add: dap_transfer selects_def target_Read_def validateRequest_def with_ctx_def live_ctx run_attempt not_less)
  moreover have "selected_as t ap' (?t'\<lparr>dt_resend := dt_rdbuff t\<rparr>)"
    using sel by (simp add: selected_as_def selects_def)
  ultimately show ?thesis by fastforce
qed

lemma RDBUFF_transfer:
  assumes "selects t ap" "live Et cctx"
  shows "\<exists>t'. target_transfer (dap_sim_target Et) cctx \<lparr>req_ap = False, req_read = True, req_addr = 0x0C\<rparr> v (t, d) =
    (Inr (dt_rdbuff t, None), (t', d)) \<and> selected_as t ap t'"
  using assms
  by (simp add: dap_transfer wf_request_def selected_as_def selects_def target_Read_def validateRequest_def with_ctx_def
      live_ctx read_DP_def)

lemma selected_grammar: "selected_as t ap t' \<Longrightarrow> OverrunDetectEnabled t' = OverrunDetectEnabled t"
  by (simp add: selected_as_def OverrunDetectEnabled_def)

lemma host_live: "host_ready E Et ctx c w \<Longrightarrow> live Et (completion E ctx c w)"
  by (simp add: host_ready_def)

section \<open>Access-port operations of the connection\<close>

lemma WriteAP_over_wire:
  assumes host: "host_ready E Et ctx c w" "sw_target w = (t, d)" "selects t ap"
    and reg: "reg = 0x00 \<or> reg = 0x04 \<or> reg = 0x0C"
    and run: "\<And>cctx. run_state (writeRegister cctx reg v) (ap, d) = (Inr (), (ap', d'))"
  shows "\<exists>c' w' t'. run_state (swd_WriteAP E ctx reg v) (c, w) = (None, (c', w')) \<and> host_ready E Et ctx c' w' \<and>
    sw_target w' = (t', d') \<and> selects t' ap'"
proof -
  let ?req = "\<lparr>req_ap = True, req_read = False, req_addr = reg\<rparr>"
  have wf: "wf_request ?req" using reg by (auto simp: wf_request_def)
  obtain t' where t': "target_transfer (dap_sim_target Et) (completion E ctx c w) ?req v (t, d) = (Inr (0, None), (t', d'))"
    "selected_as t ap' t'"
    using AP_write_transfer [OF host(3) host_live [OF host(1)] wf run] by blast
  then have "\<exists>c' w'. run_state (swd_transfer E ctx ?req v) (c, w) = ((0, None), (c', w')) \<and> host_ready E Et ctx c' w' \<and>
      sw_target w' = (t', d')"
    using host(2) selected_grammar [OF t'(2)] by (intro transfer_over_wire [OF host(1) wf]) simp_all
  then show ?thesis
    using reg t'(2) by (auto simp: swd_WriteAP_def swd_write_def newRequest_def selected_as_def)
qed

lemma ReadAP_over_wire:
  assumes host: "host_ready E Et ctx c w" "sw_target w = (t, d)" "selects t ap"
    and reg: "reg = 0x00 \<or> reg = 0x04 \<or> reg = 0x0C"
    and run: "\<And>cctx. run_state (readRegister cctx reg) (ap, d) = (Inr x, (ap', d'))"
  shows "\<exists>c' w' t'. run_state (swd_ReadAP E ctx reg) (c, w) = ((dt_rdbuff t, None), (c', w')) \<and> host_ready E Et ctx c' w' \<and>
    sw_target w' = (t', d') \<and> selects t' ap' \<and> dt_rdbuff t' = x"
proof -
  let ?req = "\<lparr>req_ap = True, req_read = True, req_addr = reg\<rparr>"
  have wf: "wf_request ?req" using reg by (auto simp: wf_request_def)
  obtain t' where t': "target_transfer (dap_sim_target Et) (completion E ctx c w) ?req 0 (t, d) = (Inr (dt_rdbuff t, None), (t', d'))"
    "selected_as t ap' t'" "dt_rdbuff t' = x"
    using AP_read_transfer [OF host(3) host_live [OF host(1)] wf run] by blast
  then have "\<exists>c' w'. run_state (swd_transfer E ctx ?req 0) (c, w) = ((dt_rdbuff t, None), (c', w')) \<and>
      host_ready E Et ctx c' w' \<and> sw_target w' = (t', d')"
    using host(2) selected_grammar [OF t'(2)] by (intro transfer_over_wire [OF host(1) wf]) simp_all
  then show ?thesis
    using reg t'(2,3) by (auto simp: swd_ReadAP_def swd_read_def newRequest_def selected_as_def)
qed

lemma RDBUFF_over_wire:
  assumes host: "host_ready E Et ctx c w" "sw_target w = (t, d)" "selects t ap"
  shows "\<exists>c' w' t'. run_state (swd_ReadDP E ctx 0x0C) (c, w) = ((dt_rdbuff t, None), (c', w')) \<and>
    host_ready E Et ctx c' w' \<and> sw_target w' = (t', d) \<and> selects t' ap"
proof -
  let ?req = "\<lparr>req_ap = False, req_read = True, req_addr = 0x0C\<rparr>"
  have wf: "wf_request ?req" by (simp add: wf_request_def)
  obtain t' where t': "target_transfer (dap_sim_target Et) (completion E ctx c w) ?req 0 (t, d) = (Inr (dt_rdbuff t, None), (t', d))"
    "selected_as t ap t'"
    using RDBUFF_transfer [OF host(3) host_live [OF host(1)]] by blast
  then have "\<exists>c' w'. run_state (swd_transfer E ctx ?req 0) (c, w) = ((dt_rdbuff t, None), (c', w')) \<and>
      host_ready E Et ctx c' w' \<and> sw_target w' = (t', d)"
    using host(2) selected_grammar [OF t'(2)] by (intro transfer_over_wire [OF host(1) wf]) simp_all
  then show ?thesis
    using t'(2) by (auto simp: swd_ReadDP_def swd_read_def newRequest_def selected_as_def)
qed

section \<open>Scalars over the wire\<close>

text \<open>
  The requests behind a scalar access: size and address, the data word, then the posted read of the data word and
  its result in RDBUFF.
\<close>

definition wire_scalar ::
  "'w go_env \<Rightarrow> ctx \<Rightarrow> uint32 \<Rightarrow> uint32 \<Rightarrow> uint32 \<Rightarrow> ('w, go_error list \<times> uint32 \<times> go_error) swd" where
  "wire_scalar E ctx csw addr data = do {
     e0 \<leftarrow> swd_WriteAP E ctx 0x00 csw;
     e1 \<leftarrow> swd_WriteAP E ctx 0x04 addr;
     e2 \<leftarrow> swd_WriteAP E ctx 0x0C data;
     r3 \<leftarrow> swd_ReadAP E ctx 0x0C;
     r4 \<leftarrow> swd_ReadDP E ctx 0x0C;
     ret ([e0, e1, e2, snd r3], r4)
   }"

definition scalar_port :: "uint32 \<Rightarrow> uint32 \<Rightarrow> 'd access_port \<Rightarrow> 'd access_port" where
  "scalar_port csw addr ap = ap\<lparr>ap_regs := (ap_regs ap)(0 := csw, 4 := addr), ap_largePhase := largeDataIdle\<rparr>"

lemma run_write_CSW:
  assumes "ap_memAP ap" "bit (ap_sizes ap) (unat (csw AND 7))"
  shows "run_state (writeRegister ctx 0x00 csw) (ap, d) =
    (Inr (), (ap\<lparr>ap_regs := (ap_regs ap)(0 := csw), ap_largePhase := largeDataIdle\<rparr>, d))"
  using assms
  by (simp add: writeRegister_def readOnlyRegister_def validateRegisterAccess_def store_register_def and_exp_eq_0_iff_not_bit)

lemma run_write_TAR:
  assumes "ap_memAP ap" "ap_largePhase ap = largeDataIdle"
  shows "run_state (writeRegister ctx 0x04 addr) (ap, d) = (Inr (), (ap\<lparr>ap_regs := (ap_regs ap)(4 := addr)\<rparr>, d))"
  using assms by (simp add: writeRegister_def readOnlyRegister_def validateRegisterAccess_def store_register_def)

lemma scalar_port_setup:
  assumes "ap_memAP ap" "ap_regs ap 0xF4 AND 2 = 0" "unat (csw AND 7) = k" "csw AND 0x30 = 0"
    "deviceForAccess (ucast addr) (2 ^ k) ap = Inr None"
  shows "scalar_setup (scalar_port csw addr ap) (ucast addr) k" "port_bigEndian (scalar_port csw addr ap) = port_bigEndian ap"
proof -
  have "deviceForAccess a n (scalar_port csw addr ap) = deviceForAccess a n ap" for a n
    by (simp add: deviceForAccess_def scalar_port_def split: sum.split)
  then show "scalar_setup (scalar_port csw addr ap) (ucast addr) k"
    using assms by (simp add: scalar_setup_def) (simp add: scalar_port_def targetAddress_def)
qed (simp add: scalar_port_def port_bigEndian_def)

lemma scalar_DRW:
  assumes s: "scalar_setup ap addr k" "k < 3" and sz: "sizeBytes sz = Inr (2 ^ k)" "sz \<noteq> Size64"
    and al: "addr AND of_nat (2 ^ k - 1) = 0" and v: "take_bit (8 * 2 ^ k) v = v"
  defines "ap' \<equiv> ap\<lparr>ap_memory := store_bytes addr (split_bytes (port_bigEndian ap) (2 ^ k) v) (ap_memory ap)\<rparr>"
  shows "run_state (writeRegister ctx 0x0C (hd (scalar_words (port_bigEndian ap) addr sz v))) (ap, d) = (Inr (), (ap', d))"
    "\<exists>r. (\<forall>ctx. run_state (readRegister ctx 0x0C) (ap', d) = (Inr r, (ap', d))) \<and>
       scalar_value (port_bigEndian ap) addr sz [r] = v"
proof -
  note rt = sub_word_round_trip [OF s sz al v, folded ap'_def]
  show "run_state (writeRegister ctx 0x0C (hd (scalar_words (port_bigEndian ap) addr sz v))) (ap, d) = (Inr (), (ap', d))"
    using rt(1) [of ctx d] sz(2) by (auto simp: scalar_words_def run_attempt split: prod.splits sum.splits)
  have s': "scalar_setup ap' addr k" using s(1) by (simp add: ap'_def)
  obtain ws where "run_state (read_words Background 1) (ap', d) = (Inr ws, (ap', d))"
    "scalar_value (port_bigEndian ap) addr sz ws = v"
    using rt(2) by blast
  then show "\<exists>r. (\<forall>ctx. run_state (readRegister ctx 0x0C) (ap', d) = (Inr r, (ap', d))) \<and>
       scalar_value (port_bigEndian ap) addr sz [r] = v"
    using run_readDRW [OF s' s(2)] by (auto simp: run_attempt)
qed

text \<open>The five operations of \<open>wire_scalar\<close>, given what the port does with each of them.\<close>

lemma wire_scalar_run:
  assumes host: "host_ready E Et ctx c w" "sw_target w = (t, d)" "selects t ap"
    and csw: "\<And>cctx. run_state (writeRegister cctx 0x00 csw) (ap, d) = (Inr (), (ap1, d))"
    and tar: "\<And>cctx. run_state (writeRegister cctx 0x04 addr) (ap1, d) = (Inr (), (ap2, d))"
    and drw: "\<And>cctx. run_state (writeRegister cctx 0x0C data) (ap2, d) = (Inr (), (ap', d))"
    and read: "\<And>cctx. run_state (readRegister cctx 0x0C) (ap', d) = (Inr r, (ap', d))"
  shows "\<exists>c' w' t'. run_state (wire_scalar E ctx csw addr data) (c, w) = (([None, None, None, None], (r, None)), (c', w')) \<and>
    host_ready E Et ctx c' w' \<and> sw_target w' = (t', d) \<and> selects t' ap'"
proof -
  obtain c1 w1 t1 where 1: "run_state (swd_WriteAP E ctx 0x00 csw) (c, w) = (None, (c1, w1))" "host_ready E Et ctx c1 w1"
    "sw_target w1 = (t1, d)" "selects t1 ap1"
    using WriteAP_over_wire [OF host _ csw] by blast
  obtain c2 w2 t2 where 2: "run_state (swd_WriteAP E ctx 0x04 addr) (c1, w1) = (None, (c2, w2))" "host_ready E Et ctx c2 w2"
    "sw_target w2 = (t2, d)" "selects t2 ap2"
    using WriteAP_over_wire [OF 1(2-4) _ tar] by blast
  obtain c3 w3 t3 where 3: "run_state (swd_WriteAP E ctx 0x0C data) (c2, w2) = (None, (c3, w3))" "host_ready E Et ctx c3 w3"
    "sw_target w3 = (t3, d)" "selects t3 ap'"
    using WriteAP_over_wire [OF 2(2-4) _ drw] by blast
  obtain c4 w4 t4 where 4: "run_state (swd_ReadAP E ctx 0x0C) (c3, w3) = ((dt_rdbuff t3, None), (c4, w4))"
    "host_ready E Et ctx c4 w4" "sw_target w4 = (t4, d)" "selects t4 ap'" "dt_rdbuff t4 = r"
    using ReadAP_over_wire [OF 3(2-4) _ read] by blast
  obtain c5 w5 t5 where 5: "run_state (swd_ReadDP E ctx 0x0C) (c4, w4) = ((r, None), (c5, w5))"
    "host_ready E Et ctx c5 w5" "sw_target w5 = (t5, d)" "selects t5 ap'"
    using RDBUFF_over_wire [OF 4(2-4)] 4(5) by blast
  have "run_state (wire_scalar E ctx csw addr data) (c, w) = (([None, None, None, None], (r, None)), (c5, w5))"
    by (simp add: wire_scalar_def 1(1) 2(1) 3(1) 4(1) 5(1))
  then show ?thesis using 5 by blast
qed

lemma sub_word_scalar:
  assumes "sizeBytes sz = Inr (2 ^ k)" "k < 3" "validateScalarAccess addr sz large = None" "x AND NOT (sizeMask sz) = 0"
  shows "sz \<noteq> Size64" "addr AND of_nat (2 ^ k - 1) = 0" "take_bit (8 * 2 ^ k) x = x"
proof -
  show "sz \<noteq> Size64"
  proof
    assume "sz = Size64"
    then have "(2 :: nat) ^ k = 2 ^ 3" using assms(1) by (simp add: sizeBytes_def transfer_size_defs)
    then show False using assms(2) power_inject_exp [of "2 :: nat" k 3] by simp
  qed
  show "addr AND of_nat (2 ^ k - 1) = 0"
    using assms(1,3) by (auto simp: validateScalarAccess_def split: if_splits)
  show "take_bit (8 * 2 ^ k) x = x"
    using assms(4) by (intro fits_mask) (simp add: sizeMask_mask [OF assms(1)])
qed

text \<open>
  C38: From the register operations of the connection down to the memory behind the port and back. On a ready
  connection over the simulated wire, to an ADIv5 target without sticky errors whose selected port is a memory port
  accepting the size, an aligned scalar of 8, 16 or 32 bits in ordinary memory, placed in its lane as the MEM-AP
  client does, is stored in the port's byte order by writes of CSW, TAR and DRW; a posted read of DRW followed by
  RDBUFF returns a word whose lane is the scalar. No operation fails, in either response grammar, and connection,
  wire and target are ready for the next one.
\<close>

theorem scalar_over_the_wire:
  assumes host: "host_ready E Et ctx c w" "sw_target w = (t, d)" "selects t ap"
    and port: "ap_memAP ap" "ap_regs ap 0xF4 AND 2 = 0" "deviceForAccess (ucast addr) (2 ^ k) ap = Inr None"
    and sz: "sizeBytes sz = Inr (2 ^ k)" "k < 3" "bit (ap_sizes ap) k" "unat (csw AND 7) = k" "csw AND 0x30 = 0"
    and scalar: "validateScalarAccess (ucast addr) sz large = None" "x AND NOT (sizeMask sz) = 0"
  shows "\<exists>r c' w' t' ap'. run_state (wire_scalar E ctx csw addr
        (hd (scalar_words (port_bigEndian ap) (ucast addr) sz x))) (c, w) =
      (([None, None, None, None], (r, None)), (c', w')) \<and>
    scalar_value (port_bigEndian ap) (ucast addr) sz [r] = x \<and> host_ready E Et ctx c' w' \<and>
    sw_target w' = (t', d) \<and> selects t' ap' \<and>
    ap_memory ap' = store_bytes (ucast addr) (split_bytes (port_bigEndian ap) (2 ^ k) x) (ap_memory ap)"
proof -
  let ?ap = "scalar_port csw addr ap"
  let ?ap1 = "ap\<lparr>ap_regs := (ap_regs ap)(0 := csw), ap_largePhase := largeDataIdle\<rparr>"
  note prep = scalar_port_setup [OF port(1,2) sz(4,5) port(3)]
  have mem: "ap_memory ?ap = ap_memory ap" by (simp add: scalar_port_def)
  define ap' where "ap' = ?ap\<lparr>ap_memory :=
    store_bytes (ucast addr) (split_bytes (port_bigEndian ap) (2 ^ k) x) (ap_memory ap)\<rparr>"
  note drw = scalar_DRW [OF prep(1) sz(2) sz(1) sub_word_scalar [OF sz(1,2) scalar], unfolded prep(2) mem, folded ap'_def]
  obtain r where r: "\<And>cctx. run_state (readRegister cctx 0x0C) (ap', d) = (Inr r, (ap', d))"
    "scalar_value (port_bigEndian ap) (ucast addr) sz [r] = x"
    using drw(2) by blast
  have csw: "run_state (writeRegister cctx 0x00 csw) (ap, d) = (Inr (), (?ap1, d))" for cctx
    using sz(3,4) by (intro run_write_CSW port(1)) simp
  have tar: "run_state (writeRegister cctx 0x04 addr) (?ap1, d) = (Inr (), (?ap, d))" for cctx
    using run_write_TAR [of ?ap1] port(1) by (simp add: scalar_port_def)
  have "ap_memory ap' = store_bytes (ucast addr) (split_bytes (port_bigEndian ap) (2 ^ k) x) (ap_memory ap)"
    by (simp add: ap'_def)
  then show ?thesis
    using wire_scalar_run [OF host csw tar drw(1) r(1)] r(2) by blast
qed

definition demo_conn :: "(unit dap_target \<times> unit) sim_wire swd_conn" where
  "demo_conn = (swd_New (Some (sim_swd_wire still_env (Some (dap_sim_target still_env)))) [])\<lparr>sc_state := connectionReady\<rparr>"

definition demo_wire :: "(unit dap_target \<times> unit) sim_wire" where
  "demo_wire = (sim_New (demo_target, ()))\<lparr>sw_active := True\<rparr>"

theorem scalar_over_the_wire_witness:
  "\<exists>r c' w'. run_state (wire_scalar still_env Background 1 0x20000002 0xBEEF0000) (demo_conn, demo_wire) =
     (([None, None, None, None], (r, None)), (c', w')) \<and> ucast (drop_bit 16 r) AND 0xFFFF = (0xBEEF :: uint64)"
proof -
  let ?ap = "the (dt_aps demo_target (NewAPSel 0))"
  have host: "host_ready still_env still_env Background demo_conn demo_wire" "sw_target demo_wire = (demo_target, ())"
    by (simp_all add: host_ready_def sim_ready_def demo_conn_def demo_wire_def swd_New_def sim_New_def sim_MaxTransferBits_def
        completion_def live_completion still_env_def live_def WithTimeout_def demo_target_def target_New_def
        OverrunDetectEnabled_def)
  have sel: "selects demo_target ?ap"
    by (simp add: selects_def demo_target_def target_New_def dp_version_def selectedAP_def)
  have port: "ap_memAP ?ap" "ap_regs ?ap 0xF4 AND 2 = 0" "bit (ap_sizes ?ap) 1" "port_bigEndian ?ap = False"
    "deviceForAccess (ucast (0x20000002 :: uint32)) (2 ^ 1) ?ap = Inr None"
    by (simp_all add: demo_target_def memory_port_def port_bigEndian_def deviceForAccess_def memoryRangeEnd_def)
  have sz: "sizeBytes Size16 = Inr (2 ^ 1)" "validateScalarAccess (ucast (0x20000002 :: uint32)) Size16 False = None"
    "0xBEEF AND NOT (sizeMask Size16) = 0" "unat (1 AND 7 :: uint32) = 1" "(1 AND 0x30 :: uint32) = 0"
    by (simp_all add: validateScalarAccess_def sizeBytes_def transfer_size_defs sizeMask_def)
  have lane: "hd (scalar_words False (ucast (0x20000002 :: uint32)) Size16 0xBEEF) = 0xBEEF0000"
    "scalar_value False (ucast (0x20000002 :: uint32)) Size16 [r] = ucast (drop_bit 16 r) AND 0xFFFF" for r
    by (simp_all add: scalar_words_def scalar_value_def memap_laneShift_def sizeBytes_def transfer_size_defs sizeMask_def)
  have "(1 :: nat) < 3" by simp
  from scalar_over_the_wire [OF host sel port(1,2,5) sz(1) this port(3) sz(4,5,2,3)] show ?thesis
    unfolding port(4) lane by (elim exE conjE) (intro exI conjI)
qed

end
