(* ===== verification/Spec2Isabelle.thy ===== *)
theory Spec2Isabelle
  imports Jtag_Borrow Swd_Reachable Swd_Sim_Refine Cs_Traversal Usb_Command Dap_Wire
begin

text \<open>
  Verification of ostiole, a host-side library in Go for debug probes and the targets behind them.

  \<^bold>\<open>The program.\<close> A probe is a USB device that offers a JTAG or an SWD wire. \<open>src/usb\<close> reads the active configuration
  of a device, and \<open>src/cmsisdap\<close> looks for its command interface there. Over a JTAG wire \<open>src/jtag\<close> moves the TAP
  controllers, discovers and measures a scan chain, validates it against a layout and lends out single TAPs. Over an SWD
  wire \<open>src/swd\<close> establishes a connection to a debug port, reads and writes its registers one by one or in batches, and
  on release restores what it found. \<open>src/dap\<close> names the registers of debug and access ports and lays scalars into
  the lanes of a memory port; \<open>src/coresight\<close> walks the ROM tables in that memory. \<open>src/swd/sim\<close> is the target side of
  the SWD wire and \<open>src/dap/sim\<close> a debug port with access ports and memory to put behind it.

  \<^bold>\<open>Conventions.\<close> \<open>Prelude\<close> models what the code uses of Go: error values with wrapping and joining, contexts that can be
  cancelled or expire at any time, packed bit buffers. Machine integers are words of their width. A method takes its
  receiver as a record and returns it updated; the world outside (a wire, a target, a USB device, a memory) is one more
  state that external calls may change in any way, so that wires, devices and readers are parameters. \<open>Go_Monad\<close> has
  the state monad in which the longer methods are written, with weakest preconditions (\<open>wp\<close>) and preserved predicates
  (\<open>keeps\<close>). Every returned error and early return of the source is a branch of its definition. Nil receivers are not values
  of the model.

  \<^bold>\<open>JTAG\<close> (\<open>src/jtag\<close>).
  \<^item> \<open>Jtag_State\<close>: \<open>state.go\<close>. The path search stops, reaches its destination and is shortest.
  \<^item> \<open>Jtag_Conn\<close>: \<open>conn.go\<close>, \<open>scan.go\<close>, \<open>options.go\<close>. Splitting a stream into wire calls is invisible to the device, and
    a scan shifts exactly the requested bits.
  \<^item> \<open>Jtag_Discover\<close>: \<open>discover.go\<close>, \<open>measure.go\<close>. The decoders are total, sound and invert what a chain shifts out;
    after any sequence of calls the tracked TAP state is unknown or right, and an unknown state blocks traffic.
  \<^item> \<open>Jtag_Chain\<close>: \<open>layout.go\<close>, \<open>chain.go\<close>, \<open>tap.go\<close>. Scans through a borrowed TAP reach that TAP with the others in
    BYPASS; \<open>Release\<close> ends the cleanup only with the connection parked.
  \<^item> \<open>Jtag_Device\<close>: the scan chain of the boundary-scan standard, behind the wire. \<open>Connect\<close> accepts a layout exactly
    when the device has it; a chain that lends TAPs always reports pending cleanup.
  \<^item> \<open>Jtag_Borrow\<close>: a borrowed TAP that is invalid stays invalid, whatever made it so and whatever calls follow.

  \<^bold>\<open>SWD\<close> (\<open>src/swd\<close>).
  \<^item> \<open>Swd_Frame\<close>: \<open>sequence.go\<close> and the pure part of \<open>transfer.go\<close>. Sequences refine lists of bits; headers and frames are
    given bit by bit.
  \<^item> \<open>Swd_Conn\<close>: \<open>connection.go\<close>, \<open>options.go\<close>, \<open>sequences.go\<close>, \<open>dormant.go\<close>, \<open>transfer.go\<close>.
  \<^item> \<open>Swd_Lifecycle\<close>: \<open>lifecycle.go\<close>, \<open>connect_options.go\<close>. \<open>Swd_Invariant\<close> shows what \<open>Connect\<close> and \<open>Release\<close> leave behind.
  \<^item> \<open>Swd_Traffic\<close>: bounds on the exchanges of every call; an error that matches \<open>ErrNotExecuted\<close> means no traffic.
  \<^item> \<open>Swd_Batch\<close>: \<open>batch.go\<close>. \<open>Swd_Reachable\<close> has the step relation of all calls, the invariant of every reachable
    connection, and that \<open>Commit\<close> resolves every queued result.
  \<^item> \<open>Swd_Sim\<close>: \<open>sim/wire.go\<close>. \<open>Swd_Sim_Refine\<close>: over this wire every frame of the host, alone or packed with others, is
    one transfer of the target, which knows no bits.

  \<^bold>\<open>CoreSight\<close> (\<open>src/coresight\<close>).
  \<^item> \<open>Cs_Component\<close>: \<open>component.go\<close>, \<open>rom.go\<close>. Identification decodes the registers; entry addresses do not wrap around.
  \<^item> \<open>Cs_Walk\<close>: \<open>walk.go\<close>. \<open>Cs_Traversal\<close>: every walk returns, its visits form a tree within the limits, and without an
    error it is the depth-first traversal of the hierarchy.

  \<^bold>\<open>USB\<close> (\<open>src/usb\<close>, \<open>src/cmsisdap/interface.go\<close>).
  \<^item> \<open>Usb_Configuration\<close>: the parser of \<open>configuration.go\<close>. \<open>Usb_Wellformed\<close> and \<open>Usb_Roundtrip\<close>: what it accepts is well
    formed, and every well-formed configuration is parsed back from its descriptors.
  \<^item> \<open>Usb_Active\<close>: the readers of \<open>configuration.go\<close> and \<open>configuration_linux.go\<close>, and \<open>cmsisdap/interface.go\<close>.
    \<open>Usb_Command\<close>: a device that serves its descriptors gets its active configuration, and the search finds exactly the
    command interfaces of the CMSIS-DAP v2 specification.

  \<^bold>\<open>Debug access port\<close> (\<open>src/dap\<close>, \<open>src/dap/sim\<close>).
  \<^item> \<open>Dap_Types\<close>: the pure parts of \<open>types.go\<close>, \<open>ap.go\<close>, \<open>apv2.go\<close>, \<open>memap.go\<close> and \<open>memap_debugbase.go\<close>.
  \<^item> \<open>Dap_Target\<close>, \<open>Dap_Fixture\<close>: the simulated debug port, its traffic and its fixtures.
  \<^item> \<open>Dap_Memory\<close>: a scalar written through the data register of a port is read back, for every size and byte order.
  \<^item> \<open>Dap_Reachable\<close>: every target reached by traffic and fixtures is well formed.
  \<^item> \<open>Dap_Wire\<close>: sticky errors block a port until ABORT; the connection of \<open>src/swd\<close>, over the wire of \<open>src/swd/sim\<close>, stores a
    scalar in the memory of the port and returns it.

  \<^bold>\<open>Bounds and fuel.\<close> The retry loops of \<open>Swd_Lifecycle\<close> count down from \<open>connectWaitLimit + 1\<close>, the code's own bound. The
  chunk loop of a batch has the number of its operations as fuel, enough because every chunk holds at least one. The loop of
  \<open>Walk\<close> is \<open>while_option\<close>, shown to return. All other loops are total functions. The theorem on borrowed TAPs covers
  fewer than \<open>2 ^ 42\<close> calls after the borrowing, because the counters it rests on have 64 bits and one call may clock up to
  \<open>2 ^ 22\<close> chunks.

  \<^bold>\<open>Not modelled.\<close> The operations of the DAP client (\<open>src/dap\<close> apart from the pure parts), \<open>src/armdebug\<close> and
  \<open>src/target\<close>, which build on them; the probes (\<open>src/cmsisdap\<close>, \<open>src/jlink\<close>, \<open>src/ftdi\<close>), whose USB sessions implement the
  wires that are parameters here, with their ownership (\<open>src/probe\<close>, \<open>src/internal/probeusb\<close>) and discovery
  (\<open>src/discover\<close>); USB enumeration, claiming and transfers, which are system calls and concurrent reaping; the command line,
  the examples and the repository tooling. Concurrent use of one connection is excluded by the interfaces of the code.
\<close>

end
